(* ===== verification/Prelude.thy ===== *)
theory Prelude
  imports Main "HOL-Library.Word"
begin

text \<open>
  What every component shares: the computations of the C++ code as state
  transformers with three kinds of result, the rules that run them, C integer
  conversions, and lemmas on byte buffers.

  A C++ member function that may throw is a \<open>('s, 'a) comp\<close>: it takes the state and
  returns an outcome together with the state it leaves behind.  A thrown exception
  (\<open>Exn\<close>) does not undo the assignments made before it, so the state of an exceptional
  run is kept.  \<open>Halt\<close> is a run that has no defined continuation: undefined behaviour
  or a thread that waits for a mutex nobody will release.
\<close>

subsection \<open>Outcomes\<close>

datatype cpp_exn =
    SqlException string
  | DatabaseLockedException
  | SystemError string
  | RuntimeError string
  | InvalidArgument string
  | StdException     \<comment> \<open>\<open>throw e\<close> in \<open>catch (exception &e)\<close> copies the \<open>std::exception\<close> part\<close>

datatype halt =
    NullDeref        \<comment> \<open>dereference of an empty \<open>shared_ptr\<close> or of \<open>rbegin()\<close> of an empty string\<close>
  | Deadlock         \<comment> \<open>\<open>lock()\<close> of a mutex that is already held and never released\<close>
  | AssertFail       \<comment> \<open>a failed \<open>assert\<close> of a build without \<open>NDEBUG\<close>\<close>
  | UseAfterFree     \<comment> \<open>access through the address of an object that has been deleted\<close>
  | Diverges         \<comment> \<open>a loop whose counter does not advance\<close>
  | BadLength        \<comment> \<open>\<open>memcpy\<close>/\<open>memset\<close> with a length outside the buffer, or a read behind the end of an array\<close>

datatype 'a outcome = Ok 'a | Exn cpp_exn | Halt halt

type_synonym ('s, 'a) comp = "'s \<Rightarrow> 'a outcome \<times> 's"

type_synonym byte = "8 word"

named_theorems run_simps
  \<open>equations that run a computation on a state\<close>
named_theorems wp_simps
  \<open>equations of \<open>returns\<close> for the constructs of a computation\<close>
named_theorems inv_intros
  \<open>invariant preservation, one rule per construct and operation\<close>

subsection \<open>Computations\<close>

definition ret :: "'a \<Rightarrow> ('s, 'a) comp" where
  "ret x = (\<lambda>s. (Ok x, s))"

definition throw :: "cpp_exn \<Rightarrow> ('s, 'a) comp" where
  "throw e = (\<lambda>s. (Exn e, s))"

definition halt :: "halt \<Rightarrow> ('s, 'a) comp" where
  "halt h = (\<lambda>s. (Halt h, s))"

definition bnd :: "('s, 'a) comp \<Rightarrow> ('a \<Rightarrow> ('s, 'b) comp) \<Rightarrow> ('s, 'b) comp" where
  "bnd m f = (\<lambda>s. case m s of (Ok x, t) \<Rightarrow> f x t | (Exn e, t) \<Rightarrow> (Exn e, t) | (Halt h, t) \<Rightarrow> (Halt h, t))"

definition sqn :: "('s, 'a) comp \<Rightarrow> ('s, 'b) comp \<Rightarrow> ('s, 'b) comp" where
  "sqn m n = bnd m (\<lambda>_. n)"

definition try_catch :: "('s, 'a) comp \<Rightarrow> (cpp_exn \<Rightarrow> ('s, 'a) comp) \<Rightarrow> ('s, 'a) comp" where
  "try_catch m h = (\<lambda>s. case m s of (Exn e, t) \<Rightarrow> h e t | r \<Rightarrow> r)"

definition gets :: "('s \<Rightarrow> 'a) \<Rightarrow> ('s, 'a) comp" where
  "gets f = (\<lambda>s. (Ok (f s), s))"

definition modify :: "('s \<Rightarrow> 's) \<Rightarrow> ('s, unit) comp" where
  "modify f = (\<lambda>s. (Ok (), f s))"

definition guard :: "bool \<Rightarrow> halt \<Rightarrow> ('s, unit) comp" where
  "guard b h = (if b then ret () else halt h)"

definition zoom :: "('s \<Rightarrow> 't) \<Rightarrow> (('t \<Rightarrow> 't) \<Rightarrow> 's \<Rightarrow> 's) \<Rightarrow> ('t, 'a) comp \<Rightarrow> ('s, 'a) comp" where
  "zoom sel upd m = (\<lambda>s. case m (sel s) of (r, t) \<Rightarrow> (r, upd (\<lambda>_. t) s))"

lemma ret_run [run_simps]: "ret x s = (Ok x, s)"
  by (simp add: ret_def)

lemma throw_run [run_simps]: "throw e s = (Exn e, s)"
  by (simp add: throw_def)

lemma halt_run [run_simps]: "halt h s = (Halt h, s)"
  by (simp add: halt_def)

lemma gets_run [run_simps]: "gets f s = (Ok (f s), s)"
  by (simp add: gets_def)

lemma modify_run [run_simps]: "modify f s = (Ok (), f s)"
  by (simp add: modify_def)

lemma guard_run [run_simps]: "guard b h s = (if b then (Ok (), s) else (Halt h, s))"
  by (simp add: guard_def ret_def halt_def)

lemma bnd_run [run_simps]:
  "bnd m f s = (case m s of (Ok x, t) \<Rightarrow> f x t | (Exn e, t) \<Rightarrow> (Exn e, t) | (Halt h, t) \<Rightarrow> (Halt h, t))"
  by (simp add: bnd_def)

lemma sqn_run [run_simps]:
  "sqn m n s = (case m s of (Ok x, t) \<Rightarrow> n t | (Exn e, t) \<Rightarrow> (Exn e, t) | (Halt h, t) \<Rightarrow> (Halt h, t))"
  by (simp add: sqn_def bnd_def)

lemma try_catch_run [run_simps]:
  "try_catch m h s = (case m s of (Exn e, t) \<Rightarrow> h e t | (Ok x, t) \<Rightarrow> (Ok x, t) | (Halt k, t) \<Rightarrow> (Halt k, t))"
  by (simp add: try_catch_def split: prod.split outcome.split)

lemma zoom_run [run_simps]:
  "zoom sel upd m s = (case m (sel s) of (r, t) \<Rightarrow> (r, upd (\<lambda>_. t) s))"
  by (simp add: zoom_def)

subsection \<open>Normal termination\<close>

text \<open>\<open>returns m s P\<close>: the run of \<open>m\<close> from \<open>s\<close> ends normally, in a result and a state
  with \<open>P\<close>.\<close>

definition returns :: "('s, 'a) comp \<Rightarrow> 's \<Rightarrow> ('a \<Rightarrow> 's \<Rightarrow> bool) \<Rightarrow> bool" where
  "returns m s P \<longleftrightarrow> (\<exists>x t. m s = (Ok x, t) \<and> P x t)"

lemma returns_ret [wp_simps]: "returns (ret x) s P = P x s"
  by (simp add: returns_def ret_def)

lemma returns_throw [wp_simps]: "\<not> returns (throw e) s P"
  by (simp add: returns_def throw_def)

lemma returns_halt [wp_simps]: "\<not> returns (halt h) s P"
  by (simp add: returns_def halt_def)

lemma returns_gets [wp_simps]: "returns (gets f) s P = P (f s) s"
  by (simp add: returns_def gets_def)

lemma returns_modify [wp_simps]: "returns (modify f) s P = P () (f s)"
  by (simp add: returns_def modify_def)

lemma returns_guard [wp_simps]: "returns (guard b h) s P = (b \<and> P () s)"
  by (simp add: returns_def guard_def ret_def halt_def)

lemma returns_bnd [wp_simps]:
  "returns (bnd m f) s P = returns m s (\<lambda>x t. returns (f x) t P)"
  by (auto simp: returns_def bnd_def split: prod.split outcome.split)

lemma returns_sqn [wp_simps]:
  "returns (sqn m n) s P = returns m s (\<lambda>_ t. returns n t P)"
  by (simp add: sqn_def returns_bnd)

lemma returns_zoom [wp_simps]:
  "returns (zoom sel upd m) s P = returns m (sel s) (\<lambda>x t. P x (upd (\<lambda>_. t) s))"
  by (auto simp: returns_def zoom_def split: prod.split)

lemma returns_if [wp_simps]:
  "returns (if b then m else n) s P = (if b then returns m s P else returns n s P)"
  by simp

lemma returns_try_catchI: "returns m s P \<Longrightarrow> returns (try_catch m h) s P"
  by (auto simp: returns_def try_catch_def)

lemma returns_weaken: "returns m s P \<Longrightarrow> (\<And>x t. P x t \<Longrightarrow> Q x t) \<Longrightarrow> returns m s Q"
  by (auto simp: returns_def)

lemma returnsD: "returns m s P \<Longrightarrow> m s = (Ok x, t) \<Longrightarrow> P x t"
  by (auto simp: returns_def)

lemma returns_conj:
  "returns m s P \<Longrightarrow> returns m s Q \<Longrightarrow> returns m s (\<lambda>x t. P x t \<and> Q x t)"
  by (auto simp: returns_def)

subsection \<open>Invariants kept on every outcome\<close>

text \<open>\<open>keeps I m\<close>: whatever the outcome of \<open>m\<close>, a state with \<open>I\<close> is left in a state with \<open>I\<close>.\<close>

definition keeps :: "('s \<Rightarrow> bool) \<Rightarrow> ('s, 'a) comp \<Rightarrow> bool" where
  "keeps I m \<longleftrightarrow> (\<forall>s. I s \<longrightarrow> I (snd (m s)))"

lemma keepsD: "keeps I m \<Longrightarrow> I s \<Longrightarrow> m s = (r, t) \<Longrightarrow> I t"
  unfolding keeps_def by (metis snd_conv)

lemma keeps_ret [inv_intros]: "keeps I (ret x)"
  by (simp add: keeps_def ret_def)

lemma keeps_throw [inv_intros]: "keeps I (throw e)"
  by (simp add: keeps_def throw_def)

lemma keeps_halt [inv_intros]: "keeps I (halt h)"
  by (simp add: keeps_def halt_def)

lemma keeps_gets [inv_intros]: "keeps I (gets f)"
  by (simp add: keeps_def gets_def)

lemma keeps_guard [inv_intros]: "keeps I (guard b h)"
  by (simp add: keeps_def guard_def ret_def halt_def)

lemma keeps_bnd [inv_intros]: "keeps I m \<Longrightarrow> (\<And>x. keeps I (f x)) \<Longrightarrow> keeps I (bnd m f)"
  by (fastforce simp: keeps_def bnd_def split: prod.split outcome.split)

lemma keeps_sqn [inv_intros]: "keeps I m \<Longrightarrow> keeps I n \<Longrightarrow> keeps I (sqn m n)"
  by (simp add: sqn_def keeps_bnd)

lemma keeps_if [inv_intros]: "keeps I m \<Longrightarrow> keeps I n \<Longrightarrow> keeps I (if b then m else n)"
  by simp

lemma keeps_modify: "(\<And>s. I s \<Longrightarrow> I (f s)) \<Longrightarrow> keeps I (modify f)"
  by (simp add: keeps_def modify_def)

lemma keeps_try_catch [inv_intros]:
  "keeps I m \<Longrightarrow> (\<And>e. keeps I (h e)) \<Longrightarrow> keeps I (try_catch m h)"
  by (fastforce simp: keeps_def try_catch_def split: prod.split outcome.split)

subsection \<open>C integers\<close>

text \<open>The value an \<open>int\<close> holds after an assignment from a wider signed integer.\<close>

definition int32 :: "int \<Rightarrow> int" where
  "int32 x = sint (word_of_int x :: 32 word)"

lemma int32_id: "- (2 ^ 31) \<le> x \<Longrightarrow> x < 2 ^ 31 \<Longrightarrow> int32 x = x"
  unfolding int32_def by (simp add: signed_take_bit_int_eq_self sint_sbintrunc')

lemma int32_range: "- (2 ^ 31) \<le> int32 x \<and> int32 x < 2 ^ 31"
  unfolding int32_def using sint_range_size[of "word_of_int x :: 32 word"] by (simp add: word_size)

lemma shiftr_div: "drop_bit n (x :: int) = x div 2 ^ n"
  by (simp add: drop_bit_eq_div)

lemma shiftl_mult: "push_bit n (x :: int) = x * 2 ^ n"
  by (simp add: push_bit_eq_mult)

subsection \<open>Buffers\<close>

text \<open>\<open>memcpy(data + off, xs, length xs)\<close> within the bounds of \<open>data\<close>.\<close>

definition overlay :: "nat \<Rightarrow> 'a list \<Rightarrow> 'a list \<Rightarrow> 'a list" where
  "overlay off xs data = take off data @ xs @ drop (off + length xs) data"

lemma length_overlay [simp]:
  "off + length xs \<le> length data \<Longrightarrow> length (overlay off xs data) = length data"
  by (simp add: overlay_def)

lemma overlay_nth:
  assumes "off + length xs \<le> length data" and "i < length data"
  shows "overlay off xs data ! i =
    (if off \<le> i \<and> i < off + length xs then xs ! (i - off) else data ! i)"
  using assms by (auto simp: overlay_def nth_append min_def not_less)

lemma overlay_all: "length xs = length data \<Longrightarrow> overlay 0 xs data = xs"
  by (simp add: overlay_def)

lemma overlay_nil [simp]: "overlay off [] data = data"
  by (simp add: overlay_def)

end
