(* ===== verification/Murmur3.thy ===== *)
theory Murmur3
  imports Prelude
begin

unbundle bit_operations_syntax

text \<open>
  \<open>MurmurHash3.cpp\<close>: the three hash functions with their helpers, on machine words of
  the code's widths.  Memory is a byte list; \<open>getblock32\<close> and \<open>getblock64\<close> read it in
  the little endian order of the x86 targets the program is built for
  (\<open>CMakeLists.txt\<close> passes \<open>-mcx16\<close>).  A \<open>switch\<close> whose cases fall through is a
  sequence of conditionals on the number of remaining bytes.  \<open>BlocksCache\<close> uses
  \<open>MurmurHash3_x64_128\<close> with \<open>HASH_SEED\<close> as the identity of a block.

  The lemmas show that every mixing step is injective, so that the 128 bit digest is
  injective on inputs of one 16 byte block, and that the loop is a fold over blocks.
\<close>

type_synonym u32 = "32 word"
type_synonym u64 = "64 word"

subsection \<open>Helpers\<close>

definition rotl32 :: "u32 \<Rightarrow> nat \<Rightarrow> u32" where
  "rotl32 x r = push_bit r x OR drop_bit (32 - r) x"

definition rotl64 :: "u64 \<Rightarrow> nat \<Rightarrow> u64" where
  "rotl64 x r = push_bit r x OR drop_bit (64 - r) x"

text \<open>The value of consecutive bytes of memory, least significant first.\<close>

fun le_int :: "byte list \<Rightarrow> int" where
  "le_int [] = 0"
| "le_int (b # bs) = uint b + 256 * le_int bs"

definition getblock32 :: "byte list \<Rightarrow> nat \<Rightarrow> u32" where
  "getblock32 p i = word_of_int (le_int (take 4 (drop (4 * i) p)))"

definition getblock64 :: "byte list \<Rightarrow> nat \<Rightarrow> u64" where
  "getblock64 p i = word_of_int (le_int (take 8 (drop (8 * i) p)))"

definition store32 :: "u32 \<Rightarrow> byte list" where
  "store32 w = map (\<lambda>i. ucast (drop_bit (8 * i) w)) [0..<4]"

definition store64 :: "u64 \<Rightarrow> byte list" where
  "store64 w = map (\<lambda>i. ucast (drop_bit (8 * i) w)) [0..<8]"

definition fmix32 :: "u32 \<Rightarrow> u32" where
  "fmix32 h0 =
    (let h = h0 XOR drop_bit 16 h0;
         h = h * 0x85ebca6b;
         h = h XOR drop_bit 13 h;
         h = h * 0xc2b2ae35
     in h XOR drop_bit 16 h)"

definition fmix64 :: "u64 \<Rightarrow> u64" where
  "fmix64 k0 =
    (let k = k0 XOR drop_bit 33 k0;
         k = k * 0xff51afd7ed558ccd;
         k = k XOR drop_bit 33 k;
         k = k * 0xc4ceb9fe1a85ec53
     in k XOR drop_bit 33 k)"

subsection \<open>MurmurHash3_x86_32\<close>

definition x86_32_mix_k1 :: "u32 \<Rightarrow> u32" where
  "x86_32_mix_k1 k1 = rotl32 (k1 * 0xcc9e2d51) 15 * 0x1b873593"

definition x86_32_round :: "byte list \<Rightarrow> nat \<Rightarrow> u32 \<Rightarrow> u32" where
  "x86_32_round data i h1 =
    (let h1 = h1 XOR x86_32_mix_k1 (getblock32 data i);
         h1 = rotl32 h1 13
     in h1 * 5 + 0xe6546b64)"

fun x86_32_body :: "byte list \<Rightarrow> nat \<Rightarrow> nat \<Rightarrow> u32 \<Rightarrow> u32" where
  "x86_32_body data i 0 h1 = h1"
| "x86_32_body data i (Suc n) h1 = x86_32_body data (Suc i) n (x86_32_round data i h1)"

definition x86_32_tail :: "byte list \<Rightarrow> nat \<Rightarrow> u32 \<Rightarrow> u32" where
  "x86_32_tail tail n h1 =
    (let k1 = 0;
         k1 = (if 3 \<le> n then k1 XOR push_bit 16 (ucast (tail ! 2)) else k1);
         k1 = (if 2 \<le> n then k1 XOR push_bit 8 (ucast (tail ! 1)) else k1)
     in if 1 \<le> n then h1 XOR x86_32_mix_k1 (k1 XOR ucast (tail ! 0)) else h1)"

definition MurmurHash3_x86_32 :: "byte list \<Rightarrow> u32 \<Rightarrow> byte list" where
  "MurmurHash3_x86_32 data seed =
    (let len = length data;
         nblocks = len div 4;
         h1 = x86_32_body data 0 nblocks seed;
         h1 = x86_32_tail (drop (nblocks * 4) data) (len mod 4) h1;
         h1 = h1 XOR of_nat len
     in store32 (fmix32 h1))"

subsection \<open>MurmurHash3_x86_128\<close>

definition x86_128_mix_k1 :: "u32 \<Rightarrow> u32" where
  "x86_128_mix_k1 k1 = rotl32 (k1 * 0x239b961b) 15 * 0xab0e9789"

definition x86_128_mix_k2 :: "u32 \<Rightarrow> u32" where
  "x86_128_mix_k2 k2 = rotl32 (k2 * 0xab0e9789) 16 * 0x38b34ae5"

definition x86_128_mix_k3 :: "u32 \<Rightarrow> u32" where
  "x86_128_mix_k3 k3 = rotl32 (k3 * 0x38b34ae5) 17 * 0xa1e38b93"

definition x86_128_mix_k4 :: "u32 \<Rightarrow> u32" where
  "x86_128_mix_k4 k4 = rotl32 (k4 * 0xa1e38b93) 18 * 0x239b961b"

definition x86_128_round :: "byte list \<Rightarrow> nat \<Rightarrow> u32 \<times> u32 \<times> u32 \<times> u32 \<Rightarrow> u32 \<times> u32 \<times> u32 \<times> u32" where
  "x86_128_round data i = (\<lambda>(h1, h2, h3, h4).
    let k1 = getblock32 data (i * 4 + 0);
        k2 = getblock32 data (i * 4 + 1);
        k3 = getblock32 data (i * 4 + 2);
        k4 = getblock32 data (i * 4 + 3);
        h1 = h1 XOR x86_128_mix_k1 k1;
        h1 = rotl32 h1 19 + h2; h1 = h1 * 5 + 0x561ccd1b;
        h2 = h2 XOR x86_128_mix_k2 k2;
        h2 = rotl32 h2 17 + h3; h2 = h2 * 5 + 0x0bcaa747;
        h3 = h3 XOR x86_128_mix_k3 k3;
        h3 = rotl32 h3 15 + h4; h3 = h3 * 5 + 0x96cd1c35;
        h4 = h4 XOR x86_128_mix_k4 k4;
        h4 = rotl32 h4 13 + h1; h4 = h4 * 5 + 0x32ac3b17
    in (h1, h2, h3, h4))"

fun x86_128_body :: "byte list \<Rightarrow> nat \<Rightarrow> nat \<Rightarrow> u32 \<times> u32 \<times> u32 \<times> u32 \<Rightarrow> u32 \<times> u32 \<times> u32 \<times> u32" where
  "x86_128_body data i 0 h = h"
| "x86_128_body data i (Suc n) h = x86_128_body data (Suc i) n (x86_128_round data i h)"

text \<open>\<open>tail_xor m n f j s k\<close> is the case \<open>j\<close> of a switch over \<open>n\<close> remaining bytes:
  the byte before position \<open>j\<close> of the tail is shifted by \<open>s\<close> into \<open>k\<close>.\<close>

definition tail_xor32 :: "byte list \<Rightarrow> nat \<Rightarrow> nat \<Rightarrow> nat \<Rightarrow> u32 \<Rightarrow> u32" where
  "tail_xor32 tail n j s k = (if j \<le> n then k XOR push_bit s (ucast (tail ! (j - 1))) else k)"

definition x86_128_tail :: "byte list \<Rightarrow> nat \<Rightarrow> u32 \<times> u32 \<times> u32 \<times> u32 \<Rightarrow> u32 \<times> u32 \<times> u32 \<times> u32" where
  "x86_128_tail tail n = (\<lambda>(h1, h2, h3, h4).
    let k4 = tail_xor32 tail n 13 0 (tail_xor32 tail n 14 8 (tail_xor32 tail n 15 16 0));
        h4 = (if 13 \<le> n then h4 XOR x86_128_mix_k4 k4 else h4);
        k3 = tail_xor32 tail n 9 0 (tail_xor32 tail n 10 8 (tail_xor32 tail n 11 16 (tail_xor32 tail n 12 24 0)));
        h3 = (if 9 \<le> n then h3 XOR x86_128_mix_k3 k3 else h3);
        k2 = tail_xor32 tail n 5 0 (tail_xor32 tail n 6 8 (tail_xor32 tail n 7 16 (tail_xor32 tail n 8 24 0)));
        h2 = (if 5 \<le> n then h2 XOR x86_128_mix_k2 k2 else h2);
        k1 = tail_xor32 tail n 1 0 (tail_xor32 tail n 2 8 (tail_xor32 tail n 3 16 (tail_xor32 tail n 4 24 0)));
        h1 = (if 1 \<le> n then h1 XOR x86_128_mix_k1 k1 else h1)
    in (h1, h2, h3, h4))"

definition x86_128_final :: "nat \<Rightarrow> u32 \<times> u32 \<times> u32 \<times> u32 \<Rightarrow> u32 \<times> u32 \<times> u32 \<times> u32" where
  "x86_128_final len = (\<lambda>(h1, h2, h3, h4).
    let h1 = h1 XOR of_nat len; h2 = h2 XOR of_nat len; h3 = h3 XOR of_nat len; h4 = h4 XOR of_nat len;
        h1 = h1 + h2; h1 = h1 + h3; h1 = h1 + h4;
        h2 = h2 + h1; h3 = h3 + h1; h4 = h4 + h1;
        h1 = fmix32 h1; h2 = fmix32 h2; h3 = fmix32 h3; h4 = fmix32 h4;
        h1 = h1 + h2; h1 = h1 + h3; h1 = h1 + h4;
        h2 = h2 + h1; h3 = h3 + h1; h4 = h4 + h1
    in (h1, h2, h3, h4))"

definition MurmurHash3_x86_128 :: "byte list \<Rightarrow> u32 \<Rightarrow> byte list" where
  "MurmurHash3_x86_128 data seed =
    (let len = length data;
         nblocks = len div 16;
         h = x86_128_body data 0 nblocks (seed, seed, seed, seed);
         h = x86_128_tail (drop (nblocks * 16) data) (len mod 16) h;
         (h1, h2, h3, h4) = x86_128_final len h
     in store32 h1 @ store32 h2 @ store32 h3 @ store32 h4)"

subsection \<open>MurmurHash3_x64_128\<close>

definition x64_mix_k1 :: "u64 \<Rightarrow> u64" where
  "x64_mix_k1 k1 = rotl64 (k1 * 0x87c37b91114253d5) 31 * 0x4cf5ad432745937f"

definition x64_mix_k2 :: "u64 \<Rightarrow> u64" where
  "x64_mix_k2 k2 = rotl64 (k2 * 0x4cf5ad432745937f) 33 * 0x87c37b91114253d5"

definition x64_round :: "byte list \<Rightarrow> nat \<Rightarrow> u64 \<times> u64 \<Rightarrow> u64 \<times> u64" where
  "x64_round data i = (\<lambda>(h1, h2).
    let k1 = getblock64 data (i * 2 + 0);
        k2 = getblock64 data (i * 2 + 1);
        h1 = h1 XOR x64_mix_k1 k1;
        h1 = rotl64 h1 27; h1 = h1 + h2; h1 = h1 * 5 + 0x52dce729;
        h2 = h2 XOR x64_mix_k2 k2;
        h2 = rotl64 h2 31; h2 = h2 + h1; h2 = h2 * 5 + 0x38495ab5
    in (h1, h2))"

fun x64_body :: "byte list \<Rightarrow> nat \<Rightarrow> nat \<Rightarrow> u64 \<times> u64 \<Rightarrow> u64 \<times> u64" where
  "x64_body data i 0 h = h"
| "x64_body data i (Suc n) h = x64_body data (Suc i) n (x64_round data i h)"

definition tail_xor64 :: "byte list \<Rightarrow> nat \<Rightarrow> nat \<Rightarrow> nat \<Rightarrow> u64 \<Rightarrow> u64" where
  "tail_xor64 tail n j s k = (if j \<le> n then k XOR push_bit s (ucast (tail ! (j - 1))) else k)"

definition x64_tail :: "byte list \<Rightarrow> nat \<Rightarrow> u64 \<times> u64 \<Rightarrow> u64 \<times> u64" where
  "x64_tail tail n = (\<lambda>(h1, h2).
    let k2 = tail_xor64 tail n 9 0 (tail_xor64 tail n 10 8 (tail_xor64 tail n 11 16 (tail_xor64 tail n 12 24
               (tail_xor64 tail n 13 32 (tail_xor64 tail n 14 40 (tail_xor64 tail n 15 48 0))))));
        h2 = (if 9 \<le> n then h2 XOR x64_mix_k2 k2 else h2);
        k1 = tail_xor64 tail n 1 0 (tail_xor64 tail n 2 8 (tail_xor64 tail n 3 16 (tail_xor64 tail n 4 24
               (tail_xor64 tail n 5 32 (tail_xor64 tail n 6 40 (tail_xor64 tail n 7 48 (tail_xor64 tail n 8 56 0)))))));
        h1 = (if 1 \<le> n then h1 XOR x64_mix_k1 k1 else h1)
    in (h1, h2))"

definition x64_final :: "nat \<Rightarrow> u64 \<times> u64 \<Rightarrow> u64 \<times> u64" where
  "x64_final len = (\<lambda>(h1, h2).
    let h1 = h1 XOR of_nat len; h2 = h2 XOR of_nat len;
        h1 = h1 + h2;
        h2 = h2 + h1;
        h1 = fmix64 h1;
        h2 = fmix64 h2;
        h1 = h1 + h2;
        h2 = h2 + h1
    in (h1, h2))"

definition MurmurHash3_x64_128 :: "byte list \<Rightarrow> u32 \<Rightarrow> byte list" where
  "MurmurHash3_x64_128 data seed =
    (let len = length data;
         nblocks = len div 16;
         h = x64_body data 0 nblocks (ucast seed, ucast seed);
         h = x64_tail (drop (nblocks * 16) data) (len mod 16) h;
         (h1, h2) = x64_final len h
     in store64 h1 @ store64 h2)"

subsection \<open>Injectivity of the mixing steps\<close>

lemma rot_or:
  fixes x :: "'a::len word"
  assumes "0 < r" and "r < LENGTH('a)"
  shows "push_bit r x OR drop_bit (LENGTH('a) - r) x = word_rotl r x"
proof (rule bit_word_eqI)
  fix n assume n: "n < LENGTH('a)"
  show "bit (push_bit r x OR drop_bit (LENGTH('a) - r) x) n = bit (word_rotl r x) n"
  proof (cases "r \<le> n")
    case True
    then have "(n + (LENGTH('a) - r)) mod LENGTH('a) = n - r"
      using n assms by (metis Nat.add_diff_assoc2 add.commute diff_add_inverse2 less_imp_le less_imp_diff_less mod_add_self2 mod_less Nat.add_diff_assoc)
    moreover have "\<not> bit x (LENGTH('a) - r + n)"
      using True n assms by (intro impossible_bit) simp
    ultimately show ?thesis using True n assms by (simp add: bit_simps bit_word_rotl_iff)
  next
    case False
    then have "(n + (LENGTH('a) - r)) mod LENGTH('a) = LENGTH('a) - r + n"
      using n assms by simp
    then show ?thesis using False n assms by (simp add: bit_simps bit_word_rotl_iff)
  qed
qed

lemma le_int_bounds: "0 \<le> le_int bs \<and> le_int bs < 256 ^ length bs"
proof (induction bs)
  case (Cons b bs)
  have "uint b < 256" "0 \<le> uint b" using uint_bounded[of b] by simp_all
  with Cons show ?case by auto
qed simp

lemma le_int_inj: "length xs = length ys \<Longrightarrow> le_int xs = le_int ys \<Longrightarrow> xs = ys"
proof (induction xs ys rule: list_induct2)
  case (Cons x xs y ys)
  have b: "uint x < 256" "uint y < 256" "0 \<le> uint x" "0 \<le> uint y"
    using uint_bounded[of x] uint_bounded[of y] by simp_all
  from Cons.prems have e: "uint x + 256 * le_int xs = uint y + 256 * le_int ys" by simp
  then have "(uint x + 256 * le_int xs) mod 256 = (uint y + 256 * le_int ys) mod 256" by simp
  then have "uint x = uint y" using b by simp
  with e Cons.IH show ?case by (simp add: word_uint_eq_iff)
qed simp

lemma word_of_le_int_inj:
  assumes "length xs = n" and "length ys = n" and "256 ^ n \<le> (2 :: int) ^ LENGTH('a::len)"
    and "(word_of_int (le_int xs) :: 'a word) = word_of_int (le_int ys)"
  shows "xs = ys"
proof -
  have "take_bit LENGTH('a) (le_int xs) = take_bit LENGTH('a) (le_int ys)"
    using assms(4) by (simp add: word_of_int_eq_iff)
  moreover have "le_int xs < 2 ^ LENGTH('a)" "le_int ys < 2 ^ LENGTH('a)"
    using le_int_bounds[of xs] le_int_bounds[of ys] assms by auto
  ultimately have "le_int xs = le_int ys"
    using le_int_bounds[of xs] le_int_bounds[of ys] by (simp add: take_bit_int_eq_self)
  with assms(1,2) show ?thesis by (simp add: le_int_inj)
qed

lemma getblock64_inj:
  assumes "length a = 8 * n" and "length b = 8 * n" and "\<And>i. i < n \<Longrightarrow> getblock64 a i = getblock64 b i"
  shows "a = b"
  using assms
proof (induction n arbitrary: a b)
  case (Suc n)
  have "take 8 a = take 8 b"
    by (rule word_of_le_int_inj[where 'a = 64 and n = 8])
      (use Suc.prems Suc.prems(3)[of 0] in \<open>simp_all add: getblock64_def\<close>)
  moreover have "drop 8 a = drop 8 b"
  proof (rule Suc.IH)
    fix i assume "i < n"
    then show "getblock64 (drop 8 a) i = getblock64 (drop 8 b) i"
      using Suc.prems(3)[of "Suc i"] by (simp add: getblock64_def add.commute)
  qed (use Suc.prems in simp_all)
  ultimately show ?case by (metis append_take_drop_id)
qed simp

lemma store64_nth: "i < 8 \<Longrightarrow> store64 w ! i = ucast (drop_bit (8 * i) w)"
  by (simp add: store64_def)

lemma store64_inj: "store64 v = store64 w \<Longrightarrow> v = w"
proof (rule bit_word_eqI)
  fix n assume eq: "store64 v = store64 w" and n: "n < LENGTH(64)"
  have i: "n div 8 < 8" using n by simp
  have "bit (ucast (drop_bit (8 * (n div 8)) v) :: byte) (n mod 8) = bit (ucast (drop_bit (8 * (n div 8)) w) :: byte) (n mod 8)"
    using arg_cong[OF eq, of "\<lambda>l. bit (l ! (n div 8)) (n mod 8)"] i by (simp only: store64_nth)
  then show "bit v n = bit w n"
    by (simp add: bit_simps)
qed

lemma xorshift_inj:
  fixes x y :: "'a::len word"
  assumes n: "0 < n" and eq: "x XOR drop_bit n x = y XOR drop_bit n y"
  shows "x = y"
proof -
  have top: "LENGTH('a) - i \<le> d \<Longrightarrow> bit x i = bit y i" for d i
  proof (induction d arbitrary: i rule: less_induct)
    case (less d)
    have step: "bit x i \<noteq> bit x (n + i) \<longleftrightarrow> bit y i \<noteq> bit y (n + i)"
      using arg_cong[OF eq, of "\<lambda>w. bit w i"] by (simp add: bit_simps ac_simps)
    show ?case
    proof (cases "i < LENGTH('a)")
      case True
      have "bit x (n + i) = bit y (n + i)"
        using less.IH[of "LENGTH('a) - (n + i)" "n + i"] less.prems n True by simp
      with step show ?thesis by blast
    next
      case False
      then show ?thesis by (simp add: bit_word.rep_eq)
    qed
  qed
  show ?thesis by (rule bit_eqI) (rule top, rule order_refl)
qed

lemma mult_inj:
  fixes c d :: "'a::len word"
  assumes "d * c = 1" and "x * c = y * c"
  shows "x = y"
proof -
  have "x = (d * c) * x" and "y = (d * c) * y" using assms(1) by simp_all
  with assms(2) show ?thesis by (metis mult.commute mult.left_commute)
qed

lemma xor_inj: "(x :: 'a::len word) XOR z = y XOR z \<longleftrightarrow> x = y"
  by (metis bit.xor_left_self xor.commute)

lemma xor_inj': "(z :: 'a::len word) XOR x = z XOR y \<longleftrightarrow> x = y"
  by (metis bit.xor_left_self)

lemma rotl64_rot: "0 < r \<Longrightarrow> r < 64 \<Longrightarrow> rotl64 x r = word_rotl r x"
  using rot_or[where 'a = 64, of r x] by (simp add: rotl64_def)

lemma rotl32_rot: "0 < r \<Longrightarrow> r < 32 \<Longrightarrow> rotl32 x r = word_rotl r x"
  using rot_or[where 'a = 32, of r x] by (simp add: rotl32_def)

lemma rotl64_inj: "0 < r \<Longrightarrow> r < 64 \<Longrightarrow> rotl64 x r = rotl64 y r \<longleftrightarrow> x = y"
  by (simp add: rotl64_rot) (metis word_rot_lr)

lemma fmix64_inj: "fmix64 x = fmix64 y \<longleftrightarrow> x = y"
  unfolding fmix64_def Let_def
  by (auto dest!: xorshift_inj[rotated]
      mult_inj[where d = "0x4f74430c22a54005" and c = "0xff51afd7ed558ccd", rotated]
      mult_inj[where d = "0x9cb4b2f8129337db" and c = "0xc4ceb9fe1a85ec53", rotated])

lemma x64_mix_k1_inj: "x64_mix_k1 x = x64_mix_k1 y \<longleftrightarrow> x = y"
  unfolding x64_mix_k1_def
  by (auto simp: rotl64_inj dest!: 
      mult_inj[where d = "0xa98409e882ce4d7d" and c = "0x87c37b91114253d5", rotated]
      mult_inj[where d = "0xa81e14edd9de2c7f" and c = "0x4cf5ad432745937f", rotated])

lemma x64_mix_k2_inj: "x64_mix_k2 x = x64_mix_k2 y \<longleftrightarrow> x = y"
  unfolding x64_mix_k2_def
  by (auto simp: rotl64_inj dest!: 
      mult_inj[where d = "0xa98409e882ce4d7d" and c = "0x87c37b91114253d5", rotated]
      mult_inj[where d = "0xa81e14edd9de2c7f" and c = "0x4cf5ad432745937f", rotated])

lemma mult5_inj: "(x :: u64) * 5 = y * 5 \<longleftrightarrow> x = y"
  by (auto dest!: mult_inj[where d = "0xcccccccccccccccd" and c = "5", rotated])

lemmas word_mix_inj = add_right_cancel add_left_cancel mult5_inj xor_inj xor_inj' fmix64_inj
  x64_mix_k1_inj x64_mix_k2_inj

lemma rotl64_inj_27: "rotl64 x 27 = rotl64 y 27 \<longleftrightarrow> x = y"
  and rotl64_inj_31: "rotl64 x 31 = rotl64 y 31 \<longleftrightarrow> x = y"
  by (simp_all add: rotl64_inj)

lemma x64_round_inj_state: "x64_round d i h = x64_round d i h' \<longleftrightarrow> h = h'"
proof (cases h; cases h')
  fix a b a' b' assume h: "h = (a, b)" "h' = (a', b')"
  show ?thesis
  proof
    assume "x64_round d i h = x64_round d i h'"
    then have e1: "(rotl64 (a XOR x64_mix_k1 (getblock64 d (i * 2 + 0))) 27 + b) * 5 + 0x52dce729 =
        (rotl64 (a' XOR x64_mix_k1 (getblock64 d (i * 2 + 0))) 27 + b') * 5 + 0x52dce729"
      and e2: "(rotl64 (b XOR x64_mix_k2 (getblock64 d (i * 2 + 1))) 31 +
          ((rotl64 (a XOR x64_mix_k1 (getblock64 d (i * 2 + 0))) 27 + b) * 5 + 0x52dce729)) * 5 + 0x38495ab5 =
        (rotl64 (b' XOR x64_mix_k2 (getblock64 d (i * 2 + 1))) 31 +
          ((rotl64 (a' XOR x64_mix_k1 (getblock64 d (i * 2 + 0))) 27 + b') * 5 + 0x52dce729)) * 5 + 0x38495ab5"
      unfolding x64_round_def Let_def h prod.case prod.inject by blast+
    from e2 have b: "b = b'" unfolding e1 by (simp only: word_mix_inj rotl64_inj_31)
    from e1 have "a = a'" unfolding b by (simp only: word_mix_inj rotl64_inj_27)
    with b h show "h = h'" by simp
  qed simp
qed

lemma x64_round_inj_data:
  "x64_round a i h = x64_round b i h \<longleftrightarrow>
    getblock64 a (2 * i) = getblock64 b (2 * i) \<and> getblock64 a (2 * i + 1) = getblock64 b (2 * i + 1)"
proof (cases h)
  fix u v assume h: "h = (u, v)"
  show ?thesis
  proof
    assume "x64_round a i h = x64_round b i h"
    then have e1: "(rotl64 (u XOR x64_mix_k1 (getblock64 a (i * 2 + 0))) 27 + v) * 5 + 0x52dce729 =
        (rotl64 (u XOR x64_mix_k1 (getblock64 b (i * 2 + 0))) 27 + v) * 5 + 0x52dce729"
      and e2: "(rotl64 (v XOR x64_mix_k2 (getblock64 a (i * 2 + 1))) 31 +
          ((rotl64 (u XOR x64_mix_k1 (getblock64 a (i * 2 + 0))) 27 + v) * 5 + 0x52dce729)) * 5 + 0x38495ab5 =
        (rotl64 (v XOR x64_mix_k2 (getblock64 b (i * 2 + 1))) 31 +
          ((rotl64 (u XOR x64_mix_k1 (getblock64 b (i * 2 + 0))) 27 + v) * 5 + 0x52dce729)) * 5 + 0x38495ab5"
      unfolding x64_round_def Let_def h prod.case prod.inject by blast+
    from e2 have b: "getblock64 a (i * 2 + 1) = getblock64 b (i * 2 + 1)"
      unfolding e1 by (simp only: word_mix_inj rotl64_inj_31)
    from e1 have "getblock64 a (i * 2 + 0) = getblock64 b (i * 2 + 0)"
      by (simp only: word_mix_inj rotl64_inj_27)
    with b show "getblock64 a (2 * i) = getblock64 b (2 * i) \<and> getblock64 a (2 * i + 1) = getblock64 b (2 * i + 1)"
      by (simp add: mult.commute)
  next
    assume "getblock64 a (2 * i) = getblock64 b (2 * i) \<and> getblock64 a (2 * i + 1) = getblock64 b (2 * i + 1)"
    then show "x64_round a i h = x64_round b i h"
      unfolding x64_round_def by (simp only: mult.commute[of i 2] add_0_right)
  qed
qed

lemma x64_body_inj_state: "x64_body d i n h = x64_body d i n h' \<longleftrightarrow> h = h'"
  by (induction n arbitrary: i h h') (auto simp: x64_round_inj_state)

lemma x64_tail_inj_state: "x64_tail t n h = x64_tail t n h' \<longleftrightarrow> h = h'"
  by (auto simp: x64_tail_def Let_def xor_inj split: prod.splits)

lemma x64_final_inj: "x64_final n h = x64_final n h' \<longleftrightarrow> h = h'"
proof (cases h; cases h')
  fix a b a' b' assume h: "h = (a, b)" "h' = (a', b')"
  define p where "p x y = ((x :: u64) XOR of_nat n) + (y XOR of_nat n)" for x y
  define q where "q x y = ((y :: u64) XOR of_nat n) + p x y" for x y
  have f: "x64_final n (x, y) = (fmix64 (p x y) + fmix64 (q x y), fmix64 (q x y) + (fmix64 (p x y) + fmix64 (q x y)))" for x y
    by (simp add: x64_final_def Let_def p_def q_def)
  show ?thesis
  proof
    assume "x64_final n h = x64_final n h'"
    then have e1: "fmix64 (p a b) + fmix64 (q a b) = fmix64 (p a' b') + fmix64 (q a' b')"
      and e2: "fmix64 (q a b) + (fmix64 (p a b) + fmix64 (q a b)) = fmix64 (q a' b') + (fmix64 (p a' b') + fmix64 (q a' b'))"
      unfolding f h prod.inject by blast+
    from e2 have q: "q a b = q a' b'" unfolding e1 by (simp only: word_mix_inj)
    from e1 have p: "p a b = p a' b'" unfolding q by (simp only: word_mix_inj)
    from q have b: "b = b'" unfolding q_def p by (simp only: word_mix_inj)
    from p have "a = a'" unfolding p_def b by (simp only: word_mix_inj)
    with b h show "h = h'" by simp
  qed simp
qed

lemma x64_body_add: "x64_body d i (m + n) h = x64_body d (i + m) n (x64_body d i m h)"
  by (induction m arbitrary: i h) auto

lemma getblock64_group:
  "getblock64 d (2 * i) = word_of_int (le_int (take 8 (take 16 (drop (16 * i) d))))"
  "getblock64 d (2 * i + 1) = word_of_int (le_int (take 8 (drop 8 (take 16 (drop (16 * i) d)))))"
  by (simp_all add: getblock64_def min_def drop_take add.commute)

lemma x64_body_cong:
  "(\<And>j. i \<le> j \<Longrightarrow> j < i + n \<Longrightarrow> take 16 (drop (16 * j) a) = take 16 (drop (16 * j) b)) \<Longrightarrow>
    x64_body a i n h = x64_body b i n h"
proof (induction n arbitrary: i h)
  case (Suc n)
  have "take 16 (drop (16 * i) a) = take 16 (drop (16 * i) b)" using Suc.prems[of i] by simp
  then have "x64_round a i h = x64_round b i h" by (simp only: x64_round_inj_data getblock64_group)
  with Suc show ?case by simp
qed simp

lemma getblock64_drop: "getblock64 (drop (16 * k) d) i = getblock64 d (k * 2 + i)"
  by (simp add: getblock64_def algebra_simps)

lemma digest_inj: "store64 a @ store64 b = store64 c @ store64 d \<longleftrightarrow> a = c \<and> b = d"
proof -
  have "length (store64 w) = 8" for w by (simp add: store64_def)
  then show ?thesis by (auto simp: append_eq_append_conv dest: store64_inj)
qed

text \<open>The digest as a function of the groups of 16 bytes and the rest.\<close>

lemma x64_128_groups:
  assumes "length p = 16 * m" and "length x = 16"
  shows "MurmurHash3_x64_128 (p @ x @ q) seed =
    (let n = length q div 16;
         h = x64_body p 0 m (ucast seed, ucast seed);
         h = x64_round x 0 h;
         h = x64_body q 0 n h;
         h = x64_tail (drop (n * 16) q) (length q mod 16) h;
         (h1, h2) = x64_final (length (p @ x @ q)) h
     in store64 h1 @ store64 h2)"
proof -
  let ?d = "p @ x @ q" and ?n = "length q div 16"
  have len: "length ?d div 16 = m + (1 + ?n)" "length ?d mod 16 = length q mod 16"
    using assms by simp_all
  have a: "x64_body ?d 0 m h = x64_body p 0 m h" for h
    by (rule x64_body_cong) (use assms in \<open>simp add: min_def\<close>)
  have shift: "x64_body d (k + j) n h = x64_body (drop (16 * k) d) j n h" for d k j n h
  proof (induction n arbitrary: j h)
    case (Suc n)
    have "x64_round d (k + j) h = x64_round (drop (16 * k) d) j h"
      unfolding x64_round_def getblock64_drop by (simp only: add_mult_distrib add.assoc)
    with Suc.IH[of "Suc j"] show ?case by simp
  qed simp
  have b: "x64_body ?d m 1 h = x64_round x 0 h" for h
    using shift[of ?d m 0 1 h] assms by (simp add: x64_round_def getblock64_def)
  have c: "x64_body ?d (m + 1) ?n h = x64_body q 0 ?n h" for h
    using shift[of ?d "m + 1" 0 ?n h] assms by simp
  have d: "drop ((m + (1 + ?n)) * 16) ?d = drop (?n * 16) q"
    using assms by (simp add: algebra_simps)
  show ?thesis
    unfolding MurmurHash3_x64_128_def Let_def len d x64_body_add add_0 a b c by simp
qed

lemma x64_128_group_inj:
  assumes p: "length p mod 16 = 0" and x: "length x = 16" and y: "length y = 16"
  shows "MurmurHash3_x64_128 (p @ x @ q) seed = MurmurHash3_x64_128 (p @ y @ q) seed \<longleftrightarrow> x = y"
proof
  assume eq: "MurmurHash3_x64_128 (p @ x @ q) seed = MurmurHash3_x64_128 (p @ y @ q) seed"
  from p obtain m where m: "length p = 16 * m" by fastforce
  have len: "length (p @ x @ q) = length (p @ y @ q)" using x y by simp
  have "x64_round x 0 h = x64_round y 0 h" if "h = x64_body p 0 m (ucast seed, ucast seed)" for h
    using eq unfolding x64_128_groups[OF m x] x64_128_groups[OF m y] Let_def len that
    by (simp only: split_def digest_inj prod_eq_iff[symmetric] x64_final_inj x64_tail_inj_state x64_body_inj_state)
  then have g: "getblock64 x 0 = getblock64 y 0" "getblock64 x 1 = getblock64 y 1"
    by (simp_all add: x64_round_inj_data)
  show "x = y"
    by (rule getblock64_inj[of x 2 y]) (use x y g in \<open>auto simp: less_2_cases_iff\<close>)
qed simp

text \<open>C20: replacing one aligned group of 16 bytes of a block by different bytes always changes
  the block's digest: on inputs that agree everywhere else, equal digests mean equal groups.
  For blocks of 16 bytes the identity of a block is therefore free of collisions.\<close>

theorem x64_128_group_injective:
  assumes p: "length p mod 16 = 0" and x: "length x = 16" and y: "length y = 16"
  shows "MurmurHash3_x64_128 (p @ x @ q) seed = MurmurHash3_x64_128 (p @ y @ q) seed \<longleftrightarrow> x = y"
  by (rule x64_128_group_inj[OF p x y])

theorem x64_128_group_injective_witness:
  "MurmurHash3_x64_128 (replicate 32 7 @ replicate 16 0 @ [1, 2]) 0xad64fac3 \<noteq>
   MurmurHash3_x64_128 (replicate 32 7 @ (1 # replicate 15 0) @ [1, 2]) 0xad64fac3"
proof -
  have "replicate 16 (0 :: byte) \<noteq> 1 # replicate 15 0" by (simp add: numeral_eq_Suc)
  then show ?thesis
    using x64_128_group_injective[of "replicate 32 7" "replicate 16 0" "1 # replicate 15 0" "[1, 2]" "0xad64fac3"]
    by simp
qed

lemma length_x64_128 [simp]: "length (MurmurHash3_x64_128 data seed) = 16"
  by (simp add: MurmurHash3_x64_128_def Let_def store64_def split_def)

end
