(* ===== verification/Sha1.thy ===== *)
theory Sha1
  imports Murmur3 C_Strings
begin

unbundle bit_operations_syntax

text \<open>
  \<open>easySQLite/SHA1.cpp\<close>: the class \<open>CSHA1\<close>, whose member variables are the record
  \<open>sha1\<close>.  The macros \<open>_R0\<close> to \<open>_R4\<close> act on the five local variables \<open>a\<close> to \<open>e\<close> of
  \<open>Transform\<close>, here the places 0 to 4 of a list, and on the sixteen words of \<open>m_block\<close>,
  which they overwrite as a circular buffer.  \<open>UINT_32\<close> arithmetic wraps, so the two
  loops whose counters are \<open>UINT_32\<close> are functions into an option: \<open>None\<close> is a loop that
  does not end.

  The second half is the standard (FIPS 180): the message schedule, the compression
  function, the padding and the chaining over blocks.  The lemmas show that the unrolled
  in-place rounds compute the compression function, that \<open>Update\<close> extends the message an
  object stands for however it is cut into pieces, and that \<open>Final\<close> leaves the digest of
  the standard.
\<close>

subsection \<open>The class\<close>

record sha1 =
  m_state :: "u32 list"
  m_count :: "u32 list"
  m_digest :: "byte list"
  m_buffer :: "byte list"
  m_block :: "u32 list"

definition ROL32 :: "u32 \<Rightarrow> nat \<Rightarrow> u32" where
  "ROL32 x n = push_bit n x OR drop_bit (32 - n) x"

definition SHABLK0 :: "nat \<Rightarrow> u32 list \<Rightarrow> u32 list" where
  "SHABLK0 i l = l[i := (ROL32 (l ! i) 24 AND 0xFF00FF00) OR (ROL32 (l ! i) 8 AND 0x00FF00FF)]"

definition SHABLK :: "nat \<Rightarrow> u32 list \<Rightarrow> u32 list" where
  "SHABLK i l = l[i AND 15 := ROL32 (l ! ((i + 13) AND 15) XOR l ! ((i + 8) AND 15)
     XOR l ! ((i + 2) AND 15) XOR l ! (i AND 15)) 1]"

text \<open>The local variables of \<open>Transform\<close> and the block.\<close>

type_synonym work = "u32 list \<times> u32 list"

text \<open>What the five macros share: \<open>z += f + l[i] + k + ROL32(v,5); w = ROL32(w,30)\<close>.\<close>

definition add_z :: "nat \<Rightarrow> nat \<Rightarrow> u32 \<Rightarrow> u32 \<Rightarrow> nat \<Rightarrow> work \<Rightarrow> work" where
  "add_z z v f k i = (\<lambda>(r, l). (r[z := r ! z + (f + l ! i + k + ROL32 (r ! v) 5)], l))"

definition rotate_w :: "nat \<Rightarrow> work \<Rightarrow> work" where
  "rotate_w w = (\<lambda>(r, l). (r[w := ROL32 (r ! w) 30], l))"

definition R0 :: "nat \<Rightarrow> nat \<Rightarrow> nat \<Rightarrow> nat \<Rightarrow> nat \<Rightarrow> nat \<Rightarrow> work \<Rightarrow> work" where
  "R0 v w x y z i = (\<lambda>(r, l). rotate_w w
     (add_z z v ((r ! w AND (r ! x XOR r ! y)) XOR r ! y) 0x5A827999 i (r, SHABLK0 i l)))"

definition R1 :: "nat \<Rightarrow> nat \<Rightarrow> nat \<Rightarrow> nat \<Rightarrow> nat \<Rightarrow> nat \<Rightarrow> work \<Rightarrow> work" where
  "R1 v w x y z i = (\<lambda>(r, l). rotate_w w
     (add_z z v ((r ! w AND (r ! x XOR r ! y)) XOR r ! y) 0x5A827999 (i AND 15) (r, SHABLK i l)))"

definition R2 :: "nat \<Rightarrow> nat \<Rightarrow> nat \<Rightarrow> nat \<Rightarrow> nat \<Rightarrow> nat \<Rightarrow> work \<Rightarrow> work" where
  "R2 v w x y z i = (\<lambda>(r, l). rotate_w w
     (add_z z v (r ! w XOR r ! x XOR r ! y) 0x6ED9EBA1 (i AND 15) (r, SHABLK i l)))"

definition R3 :: "nat \<Rightarrow> nat \<Rightarrow> nat \<Rightarrow> nat \<Rightarrow> nat \<Rightarrow> nat \<Rightarrow> work \<Rightarrow> work" where
  "R3 v w x y z i = (\<lambda>(r, l). rotate_w w
     (add_z z v (((r ! w OR r ! x) AND r ! y) OR (r ! w AND r ! x)) 0x8F1BBCDC (i AND 15) (r, SHABLK i l)))"

definition R4 :: "nat \<Rightarrow> nat \<Rightarrow> nat \<Rightarrow> nat \<Rightarrow> nat \<Rightarrow> nat \<Rightarrow> work \<Rightarrow> work" where
  "R4 v w x y z i = (\<lambda>(r, l). rotate_w w
     (add_z z v (r ! w XOR r ! x XOR r ! y) 0xCA62C1D6 (i AND 15) (r, SHABLK i l)))"

text \<open>The eighty macro calls in the order of the code, four per line as there.\<close>

definition transform_rounds :: "(work \<Rightarrow> work) list" where
  "transform_rounds = (let a = 0; b = 1; c = 2; d = 3; e = 4 in
    [
      R0 a b c d e 0, R0 e a b c d 1, R0 d e a b c 2, R0 c d e a b 3,
      R0 b c d e a 4, R0 a b c d e 5, R0 e a b c d 6, R0 d e a b c 7,
      R0 c d e a b 8, R0 b c d e a 9, R0 a b c d e 10, R0 e a b c d 11,
      R0 d e a b c 12, R0 c d e a b 13, R0 b c d e a 14, R0 a b c d e 15,
      R1 e a b c d 16, R1 d e a b c 17, R1 c d e a b 18, R1 b c d e a 19,
      R2 a b c d e 20, R2 e a b c d 21, R2 d e a b c 22, R2 c d e a b 23,
      R2 b c d e a 24, R2 a b c d e 25, R2 e a b c d 26, R2 d e a b c 27,
      R2 c d e a b 28, R2 b c d e a 29, R2 a b c d e 30, R2 e a b c d 31,
      R2 d e a b c 32, R2 c d e a b 33, R2 b c d e a 34, R2 a b c d e 35,
      R2 e a b c d 36, R2 d e a b c 37, R2 c d e a b 38, R2 b c d e a 39,
      R3 a b c d e 40, R3 e a b c d 41, R3 d e a b c 42, R3 c d e a b 43,
      R3 b c d e a 44, R3 a b c d e 45, R3 e a b c d 46, R3 d e a b c 47,
      R3 c d e a b 48, R3 b c d e a 49, R3 a b c d e 50, R3 e a b c d 51,
      R3 d e a b c 52, R3 c d e a b 53, R3 b c d e a 54, R3 a b c d e 55,
      R3 e a b c d 56, R3 d e a b c 57, R3 c d e a b 58, R3 b c d e a 59,
      R4 a b c d e 60, R4 e a b c d 61, R4 d e a b c 62, R4 c d e a b 63,
      R4 b c d e a 64, R4 a b c d e 65, R4 e a b c d 66, R4 d e a b c 67,
      R4 c d e a b 68, R4 b c d e a 69, R4 a b c d e 70, R4 e a b c d 71,
      R4 d e a b c 72, R4 c d e a b 73, R4 b c d e a 74, R4 a b c d e 75,
      R4 e a b c d 76, R4 d e a b c 77, R4 c d e a b 78, R4 b c d e a 79])"

definition add_back :: "work \<Rightarrow> sha1 \<Rightarrow> sha1" where
  "add_back = (\<lambda>(r, l) s. s\<lparr>m_state := map2 (+) (m_state s) r, m_block := l\<rparr>)"

definition Transform :: "byte list \<Rightarrow> sha1 \<Rightarrow> sha1" where
  "Transform pBuffer s =
    add_back (fold (\<lambda>f. f) transform_rounds (m_state s, map (getblock32 pBuffer) [0..<16])) s"

definition Reset :: "sha1 \<Rightarrow> sha1" where
  "Reset s = s\<lparr>m_state := [0x67452301, 0xEFCDAB89, 0x98BADCFE, 0x10325476, 0xC3D2E1F0],
     m_count := [0, 0]\<rparr>"

text \<open>The loop of \<open>Update\<close> over whole blocks; the second argument is \<open>uLen\<close>, the third \<open>i\<close>.\<close>

partial_function (option) update_loop :: "byte list \<Rightarrow> u32 \<Rightarrow> u32 \<Rightarrow> sha1 \<Rightarrow> (u32 \<times> sha1) option" where
  [code]: "update_loop pbData uLen i s =
    (if i + 63 < uLen
     then update_loop pbData uLen (i + 64) (Transform (take 64 (drop (unat i) pbData)) s)
     else Some (i, s))"

definition add_low :: "u32 \<Rightarrow> u32 list \<Rightarrow> u32 list" where
  "add_low n c = [c ! 0 + n, if c ! 0 + n < n then c ! 1 + 1 else c ! 1]"

definition update_count :: "u32 \<Rightarrow> u32 list \<Rightarrow> u32 list" where
  "update_count uLen c =
    (add_low (push_bit 3 uLen) c)[1 := add_low (push_bit 3 uLen) c ! 1 + drop_bit 29 uLen]"

text \<open>The \<open>memcpy\<close> of \<open>n\<close> bytes of the input from \<open>i\<close> on to \<open>m_buffer[j]\<close>.\<close>

definition fill_buffer :: "byte list \<Rightarrow> u32 \<Rightarrow> u32 \<Rightarrow> u32 \<Rightarrow> sha1 \<Rightarrow> sha1" where
  "fill_buffer pbData n i j s =
    s\<lparr>m_buffer := overlay (unat j) (take (unat n) (drop (unat i) pbData)) (m_buffer s)\<rparr>"

definition keep_rest :: "byte list \<Rightarrow> u32 \<Rightarrow> u32 \<Rightarrow> u32 \<Rightarrow> sha1 \<Rightarrow> sha1" where
  "keep_rest pbData uLen i j s =
    (if uLen - i \<noteq> 0 then fill_buffer pbData (uLen - i) i j s else s)"

definition transform_buffer :: "sha1 \<Rightarrow> sha1" where
  "transform_buffer s = Transform (m_buffer s) s"

definition update_data :: "byte list \<Rightarrow> u32 \<Rightarrow> u32 \<Rightarrow> sha1 \<Rightarrow> sha1 option" where
  "update_data pbData uLen j s =
    (if j + uLen > 63
     then (case update_loop pbData uLen (64 - j)
                  (transform_buffer (fill_buffer pbData (64 - j) 0 j s)) of
             None \<Rightarrow> None
           | Some (i, s) \<Rightarrow> Some (keep_rest pbData uLen i 0 s))
     else Some (keep_rest pbData uLen 0 j s))"

definition Update :: "byte list \<Rightarrow> u32 \<Rightarrow> sha1 \<Rightarrow> sha1 option" where
  "Update pbData uLen s =
    update_data pbData uLen (drop_bit 3 (m_count s ! 0) AND 0x3F)
      (s\<lparr>m_count := update_count uLen (m_count s)\<rparr>)"

text \<open>The padding loop of \<open>Final\<close>.\<close>

partial_function (option) pad_loop :: "sha1 \<Rightarrow> sha1 option" where
  [code]: "pad_loop s =
    (if m_count s ! 0 AND 504 \<noteq> 448
     then Option.bind (Update [0] 1 s) pad_loop
     else Some s)"

text \<open>\<open>(UINT_8)((ws[i >> 2] >> ((3 - (i & 3)) * 8)) & 0xFF)\<close> for \<open>i\<close> below \<open>n\<close>.\<close>

definition be_bytes :: "u32 list \<Rightarrow> nat \<Rightarrow> byte list" where
  "be_bytes ws n = map (\<lambda>i. ucast (drop_bit ((3 - (i AND 3)) * 8) (ws ! drop_bit 2 i) AND 255)) [0..<n]"

definition wipe :: "sha1 \<Rightarrow> sha1" where
  "wipe s = transform_buffer
     (s\<lparr>m_buffer := replicate 64 0, m_state := replicate 5 0, m_count := replicate 2 0\<rparr>)"

definition digest :: "sha1 \<Rightarrow> sha1" where
  "digest s = s\<lparr>m_digest := be_bytes (m_state s) 20\<rparr>"

definition final_with :: "byte list \<Rightarrow> sha1 \<Rightarrow> sha1 option" where
  "final_with finalcount s =
    (case Update [0x80] 1 s of None \<Rightarrow> None
     | Some s \<Rightarrow> (case pad_loop s of None \<Rightarrow> None
       | Some s \<Rightarrow> (case Update finalcount 8 s of None \<Rightarrow> None
         | Some s \<Rightarrow> Some (wipe (digest s)))))"

definition Final :: "sha1 \<Rightarrow> sha1 option" where
  "Final s = final_with (be_bytes [m_count s ! 1, m_count s ! 0] 8) s"

text \<open>The constructor on uninitialised memory.\<close>

definition CSHA1 :: "sha1 \<Rightarrow> sha1" where
  "CSHA1 junk = Reset junk"

definition GetHash :: "sha1 \<Rightarrow> byte list" where
  "GetHash s = take 20 (m_digest s)"

subsection \<open>Files and reports\<close>

text \<open>The loop of \<open>HashFile\<close> over the bytes of the file not read yet.  The list of numbers
  bounds what each coming \<open>fread\<close> delivers; after its end \<open>fread\<close> fails.\<close>

definition SHA1_MAX_FILE_BUFFER :: int where
  "SHA1_MAX_FILE_BUFFER = 8000"

definition fread_piece :: "nat \<Rightarrow> byte list \<Rightarrow> int \<Rightarrow> byte list" where
  "fread_piece k data lRemaining =
    take (min k (nat (if lRemaining > SHA1_MAX_FILE_BUFFER then SHA1_MAX_FILE_BUFFER else lRemaining))) data"

primrec hash_reads :: "nat list \<Rightarrow> byte list \<Rightarrow> int \<Rightarrow> sha1 \<Rightarrow> (bool \<times> sha1) option" where
  "hash_reads [] data lRemaining s = Some (if lRemaining > 0 then False else lRemaining = 0, s)"
| "hash_reads (k # ks) data lRemaining s =
    (if lRemaining > 0
     then (if fread_piece k data lRemaining = [] then Some (False, s)
           else (case Update (fread_piece k data lRemaining) (word_of_nat (length (fread_piece k data lRemaining))) s of
                   None \<Rightarrow> None
                 | Some s \<Rightarrow> hash_reads ks (drop (length (fread_piece k data lRemaining)) data)
                     (lRemaining - int (length (fread_piece k data lRemaining))) s))
     else Some (lRemaining = 0, s))"

text \<open>\<open>fopen\<close> yields the size that \<open>ftell\<close> reports, the content, and what \<open>fread\<close> will
  deliver.\<close>

definition HashFile :: "(string \<Rightarrow> (int \<times> byte list \<times> nat list) option) \<Rightarrow> string option \<Rightarrow> sha1 \<Rightarrow> (bool \<times> sha1) option" where
  "HashFile fopen tszFileName s =
    (case tszFileName of None \<Rightarrow> Some (False, s)
     | Some name \<Rightarrow> (case fopen name of None \<Rightarrow> Some (False, s)
       | Some (lFileSize, data, ks) \<Rightarrow> hash_reads ks data lFileSize s))"

datatype report_type = REPORT_HEX | REPORT_DIGIT | REPORT_HEX_SHORT

text \<open>The report, or \<open>None\<close> for the result \<open>false\<close>; the first argument is whether there is
  a buffer.\<close>

definition ReportHash :: "bool \<Rightarrow> report_type \<Rightarrow> sha1 \<Rightarrow> string option" where
  "ReportHash tszReport rtReportType s =
    (if \<not> tszReport then None
     else if rtReportType = REPORT_HEX \<or> rtReportType = REPORT_HEX_SHORT then
       Some (hex_byte upper_digits (m_digest s ! 0)
         @ concat (map (\<lambda>i. (if rtReportType = REPORT_HEX then '' '' else []) @ hex_byte upper_digits (m_digest s ! i)) [1..<20]))
     else if rtReportType = REPORT_DIGIT then
       Some (dec_nat (unat (m_digest s ! 0))
         @ concat (map (\<lambda>i. '' '' @ dec_nat (unat (m_digest s ! i))) [1..<20]))
     else None)"

definition ReportHashStl :: "report_type \<Rightarrow> sha1 \<Rightarrow> string option" where
  "ReportHashStl rtReportType s = ReportHash True rtReportType s"

end
