(* ===== verification/Sha1_Standard.thy ===== *)
theory Sha1_Standard
  imports Sha1
begin

unbundle bit_operations_syntax

text \<open>
  What \<open>CSHA1\<close> promises: the hash of FIPS 180, written here as the standard has it, and the
  proofs that \<open>Transform\<close> computes its compression function, that \<open>Update\<close> extends the
  message an object stands for, and that \<open>Final\<close> leaves its digest.
\<close>

subsection \<open>The standard\<close>

text \<open>FIPS 180: the functions, constants and message schedule of step \<open>t\<close>.\<close>

definition sha_f :: "nat \<Rightarrow> u32 \<Rightarrow> u32 \<Rightarrow> u32 \<Rightarrow> u32" where
  "sha_f t b c d =
    (if t < 20 then (b AND c) OR (NOT b AND d)
     else if t < 40 then b XOR c XOR d
     else if t < 60 then (b AND c) OR (b AND d) OR (c AND d)
     else b XOR c XOR d)"

definition sha_K :: "nat \<Rightarrow> u32" where
  "sha_K t = (if t < 20 then 0x5A827999 else if t < 40 then 0x6ED9EBA1
     else if t < 60 then 0x8F1BBCDC else 0xCA62C1D6)"

fun sha_W :: "u32 list \<Rightarrow> nat \<Rightarrow> u32" where
  "sha_W M t =
    (if t < 16 then M ! t
     else word_rotl 1 (sha_W M (t - 3) XOR sha_W M (t - 8) XOR sha_W M (t - 14) XOR sha_W M (t - 16)))"

declare sha_W.simps [simp del]

definition sha_step :: "u32 list \<Rightarrow> nat \<Rightarrow> u32 list \<Rightarrow> u32 list" where
  "sha_step M t h =
    [word_rotl 5 (h ! 0) + sha_f t (h ! 1) (h ! 2) (h ! 3) + h ! 4 + sha_W M t + sha_K t,
     h ! 0, word_rotl 30 (h ! 1), h ! 2, h ! 3]"

definition sha_compress :: "u32 list \<Rightarrow> u32 list \<Rightarrow> u32 list" where
  "sha_compress M h = map2 (+) h (fold (sha_step M) [0..<80] h)"

text \<open>The sixteen big endian words of a block.\<close>

definition sha_words :: "byte list \<Rightarrow> u32 list" where
  "sha_words b = map (\<lambda>i. word_rcat (take 4 (drop (4 * i) b))) [0..<16]"


subsection \<open>The rounds compute the compression function\<close>

lemma ROL32_rotl: "0 < n \<Longrightarrow> n < 32 \<Longrightarrow> ROL32 x n = word_rotl n x"
  using rot_or [of n x] by (simp add: ROL32_def)

lemma le_int_horner: "le_int bs = horner_sum uint (2 ^ LENGTH(8)) bs"
  by (induction bs) simp_all

lemma bit_getblock32:
  "length p \<ge> 4 * i + 4 \<Longrightarrow> n < 32 \<Longrightarrow> bit (getblock32 p i) n = bit (p ! (4 * i + n div 8)) (n mod 8)"
  unfolding getblock32_def le_int_horner
  by (subst bit_word_of_int_iff, subst bit_horner_sum_uint_exp_iff)
     (simp add: less_mult_imp_div_less)

lemma bit_word_rcat:
  assumes "length bs = 4" "n < 32"
  shows "bit (word_rcat (bs :: byte list) :: u32) n = bit (bs ! (3 - n div 8)) (n mod 8)"
  unfolding word_rcat_def using assms
  by (simp add: bit_word_of_int_iff bit_horner_sum_uint_exp_iff[where 'a = 8, simplified] rev_nth less_mult_imp_div_less)

lemma byte_swap:
  assumes "length p \<ge> 4 * i + 4"
  shows "(ROL32 (getblock32 p i) 24 AND 0xFF00FF00) OR (ROL32 (getblock32 p i) 8 AND 0x00FF00FF) =
    word_rcat (take 4 (drop (4 * i) p))"
proof (rule bit_word_eqI)
  fix n
  assume "n < LENGTH(32)"
  then have n: "n < 32" by simp
  define q m where "q = n div 8" and "m = n mod 8"
  have nqm: "n = 8 * q + m" and m: "m < 8" and q: "q < 4"
    using n by (simp_all add: q_def m_def less_mult_imp_div_less)
  have masks: "(0xFF00FF00 :: u32) = push_bit 8 (mask 8) OR push_bit 24 (mask 8)"
    "(0x00FF00FF :: u32) = mask 8 OR push_bit 16 (mask 8)"
    by (simp_all add: mask_eq_exp_minus_1)
  have pos: "(8 * k + m) div 8 = k" "(8 * k + m) mod 8 = m" for k
    using m by simp_all
  have len: "length (take 4 (drop (4 * i) p)) = 4"
    using assms by simp
  have cases: "q = 0 \<or> q = 1 \<or> q = 2 \<or> q = 3" using q by auto
  have b: "bit (getblock32 p i) (8 * k + m) = bit (p ! (4 * i + k)) m" if "k < 4" for k
    using bit_getblock32[OF assms, of "8 * k + m"] pos m that by simp
  have w: "bit (word_rcat (take 4 (drop (4 * i) p)) :: u32) (8 * k + m) = bit (p ! (4 * i + (3 - k))) m" if "k < 4" for k
    using bit_word_rcat[OF len, of "8 * k + m"] pos m that assms by simp
  have m40: "(m + 40) mod 32 = m + 8" using m by (simp add: le_mod_geq)
  show "bit ((ROL32 (getblock32 p i) 24 AND 0xFF00FF00) OR (ROL32 (getblock32 p i) 8 AND 0x00FF00FF)) n =
      bit (word_rcat (take 4 (drop (4 * i) p)) :: u32) n"
    unfolding masks nqm
    using cases m m40 b[of 0] b[of 1] b[of 2] b[of 3] w[of 0] w[of 1] w[of 2] w[of 3]
    by (elim disjE) (simp_all add: ROL32_rotl bit_simps bit_word_rotl_iff ac_simps)
qed

definition reg :: "nat \<Rightarrow> nat \<Rightarrow> nat" where
  "reg i k = (k + 4 * i) mod 5"

definition round_at :: "nat \<Rightarrow> work \<Rightarrow> work" where
  "round_at i = (if i < 16 then R0 else if i < 20 then R1 else if i < 40 then R2 else if i < 60 then R3 else R4)
     (reg i 0) (reg i 1) (reg i 2) (reg i 3) (reg i 4) i"

lemma upt_80: "[0..<80] =
  [0, 1, 2, 3, 4, 5, 6, 7, 8, 9, 10, 11, 12, 13, 14, 15, 16, 17, 18, 19,
   20, 21, 22, 23, 24, 25, 26, 27, 28, 29, 30, 31, 32, 33, 34, 35, 36, 37, 38, 39,
   40, 41, 42, 43, 44, 45, 46, 47, 48, 49, 50, 51, 52, 53, 54, 55, 56, 57, 58, 59,
   60, 61, 62, 63, 64, 65, 66, 67, 68, 69, 70, 71, 72, 73, 74, 75, 76, 77, 78, 79]"
  by code_simp

lemma transform_rounds_regular: "transform_rounds = map round_at [0..<80]"
  by (simp add: transform_rounds_def upt_80 round_at_def reg_def)

lemma reg_less [simp]: "reg i k < 5"
  by (simp add: reg_def)

lemma reg_eq: "j < 5 \<Longrightarrow> k < 5 \<Longrightarrow> reg i j = reg i k \<longleftrightarrow> j = k"
proof -
  assume jk: "j < 5" "k < 5"
  have "reg i k = (k + (4 * i) mod 5) mod 5" for k by (simp add: reg_def mod_add_right_eq)
  moreover have "a < 10 \<Longrightarrow> a mod 5 = (if a < 5 then a else a - 5)" for a :: nat by (simp add: mod_if)
  moreover have "(4 * i) mod 5 < 5" by simp
  ultimately show ?thesis using jk by (auto split: if_splits)
qed

lemma reg_80: "k < 5 \<Longrightarrow> reg 80 k = k"
proof -
  assume "k < 5"
  moreover have "k + 320 = k + 5 * 64" by simp
  ultimately show ?thesis unfolding reg_def by (metis mod_less mod_mult_self2 mult_numeral_1 numeral_times_numeral semiring_norm(12,13,11))
qed

lemma reg_Suc: "reg (Suc i) 0 = reg i 4" "reg (Suc i) (Suc k) = reg i k"
proof -
  have "Suc k + 4 * Suc i = k + 4 * i + 5" by simp
  then show "reg (Suc i) (Suc k) = reg i k" unfolding reg_def by (metis mod_add_self2)
qed (simp add: reg_def)

lemma and_15: "(n :: nat) AND 15 = n mod 16"
  using take_bit_eq_mask [of 4 n] by (simp add: take_bit_eq_mod mask_eq_exp_minus_1)

lemma choose_eq: "(b AND (c XOR d)) XOR d = (b AND c) OR (NOT b AND d)" for b c d :: u32
  by (rule bit_word_eqI) (auto simp: bit_simps)

lemma major_eq: "((b OR c) AND d) OR (b AND c) = (b AND c) OR (b AND d) OR (c AND d)" for b c d :: u32
  by (rule bit_word_eqI) (auto simp: bit_simps)

text \<open>After \<open>i\<close> calls register \<open>reg i k\<close> holds variable \<open>k\<close> of the standard, and the
  block holds the last sixteen words of the schedule, or words not yet swapped.\<close>

definition rounds_inv :: "byte list \<Rightarrow> u32 list \<Rightarrow> nat \<Rightarrow> work \<Rightarrow> bool" where
  "rounds_inv p h i = (\<lambda>(r, l). length r = 5 \<and> length l = 16 \<and>
     (\<forall>k<5. r ! reg i k = fold (sha_step (sha_words p)) [0..<i] h ! k) \<and>
     (\<forall>t<i. i \<le> t + 16 \<longrightarrow> l ! (t mod 16) = sha_W (sha_words p) t) \<and>
     (\<forall>j<16. i \<le> j \<longrightarrow> l ! j = getblock32 p j))"

lemma length_sha_step [simp]: "length (sha_step M t h) = 5"
  by (simp add: sha_step_def)

lemma registers_step:
  assumes "length r = 5" "\<forall>k<5. r ! reg i k = h ! k" "l ! j = sha_W M i"
    and "f = sha_f i (h ! 1) (h ! 2) (h ! 3)" "c = sha_K i"
    and "(r', l') = rotate_w (reg i 1) (add_z (reg i 4) (reg i 0) f c j (r, l))"
  shows "length r' = 5 \<and> l' = l \<and> (\<forall>k<5. r' ! reg (Suc i) k = sha_step M i h ! k)"
proof -
  have r: "r ! reg i 0 = h ! 0" "r ! reg i 1 = h ! 1" "r ! reg i 2 = h ! 2" "r ! reg i 3 = h ! 3" "r ! reg i 4 = h ! 4"
    using assms(2) by simp_all
  have ne: "reg i 4 \<noteq> reg i 0" "reg i 4 \<noteq> reg i 1" "reg i 4 \<noteq> reg i 2" "reg i 4 \<noteq> reg i 3"
    "reg i 1 \<noteq> reg i 0" "reg i 1 \<noteq> reg i 2" "reg i 1 \<noteq> reg i 3"
    by (simp_all add: reg_eq)
  have S: "reg (Suc i) 1 = reg i 0" "reg (Suc i) 2 = reg i 1" "reg (Suc i) 3 = reg i 2" "reg (Suc i) 4 = reg i 3"
    using reg_Suc(2)[of i 0] reg_Suc(2)[of i 1] reg_Suc(2)[of i 2] reg_Suc(2)[of i 3]
    by (simp_all add: numeral_eq_Suc)
  have r': "r' = r[reg i 4 := h ! 4 + (f + sha_W M i + c + ROL32 (h ! 0) 5), reg i 1 := ROL32 (h ! 1) 30]" "l' = l"
    using assms(6) assms(3) ne(2) r(1,2,5) by (simp_all add: rotate_w_def add_z_def)
  have k5: "(\<forall>k<5. P k) \<longleftrightarrow> P 0 \<and> P 1 \<and> P 2 \<and> P 3 \<and> P (4 :: nat)" for P
    by (auto simp: numeral_eq_Suc less_Suc_eq)
  show ?thesis
    unfolding k5 S reg_Suc(1) r'
    using assms(1) ne r by (simp add: sha_step_def assms(4,5) ROL32_rotl algebra_simps)
qed

lemma length_SHABLK [simp]: "length (SHABLK i l) = length l" "length (SHABLK0 i l) = length l"
  by (simp_all add: SHABLK_def SHABLK0_def)

lemma length_sha_words [simp]: "length (sha_words b) = 16"
  by (simp add: sha_words_def)

lemma SHABLK0_word:
  assumes "rounds_inv p h i (r, l)" "length p = 64" "i < 16"
  shows "SHABLK0 i l = l[i := sha_W (sha_words p) i]"
proof -
  have "l ! i = getblock32 p i" using assms by (simp add: rounds_inv_def)
  then show ?thesis
    using assms byte_swap[of i p] by (simp add: SHABLK0_def sha_W.simps[of _ i] sha_words_def)
qed

lemma SHABLK_word:
  assumes inv: "rounds_inv p h i (r, l)" and i: "16 \<le> i"
  shows "SHABLK i l = l[i mod 16 := sha_W (sha_words p) i]"
proof -
  have past: "l ! (t mod 16) = sha_W (sha_words p) t" if "t < i" "i \<le> t + 16" for t
    using inv that by (simp add: rounds_inv_def)
  have "i + 13 = i - 3 + 16" "i + 8 = i - 8 + 16" "i + 2 = i - 14 + 16" "i = i - 16 + 16"
    using i by simp_all
  then have m: "(i + 13) mod 16 = (i - 3) mod 16" "(i + 8) mod 16 = (i - 8) mod 16"
    "(i + 2) mod 16 = (i - 14) mod 16" "i mod 16 = (i - 16) mod 16"
    by (metis mod_add_self2)+
  have w: "l ! ((i - 3) mod 16) = sha_W (sha_words p) (i - 3)" "l ! ((i - 8) mod 16) = sha_W (sha_words p) (i - 8)"
    "l ! ((i - 14) mod 16) = sha_W (sha_words p) (i - 14)" "l ! ((i - 16) mod 16) = sha_W (sha_words p) (i - 16)"
    using i by (auto intro!: past)
  have "l ! ((i + 13) mod 16) XOR l ! ((i + 8) mod 16) XOR l ! ((i + 2) mod 16) XOR l ! (i mod 16) =
      sha_W (sha_words p) (i - 3) XOR sha_W (sha_words p) (i - 8) XOR sha_W (sha_words p) (i - 14)
        XOR sha_W (sha_words p) (i - 16)"
    unfolding m(1-3) w(1-3) using m(4) w(4) by simp
  then show ?thesis
    unfolding SHABLK_def and_15 using i by (simp add: ROL32_rotl sha_W.simps[of _ i])
qed

lemma round_at_inv:
  assumes inv: "rounds_inv p h i (r, l)" and p: "length p = 64" and i: "i < 80"
  shows "rounds_inv p h (Suc i) (round_at i (r, l))"
proof -
  let ?M = "sha_words p" and ?g = "fold (sha_step (sha_words p)) [0..<i] h"
  let ?l = "l[i mod 16 := sha_W ?M i]"
  have len: "length r = 5" "length l = 16" and regs: "\<forall>k<5. r ! reg i k = ?g ! k"
    using inv by (simp_all add: rounds_inv_def)
  have g: "r ! reg i 1 = ?g ! 1" "r ! reg i 2 = ?g ! 2" "r ! reg i 3 = ?g ! 3"
    using regs by simp_all
  define w where "w = rotate_w (reg i 1) (add_z (reg i 4) (reg i 0)
    (sha_f i (?g ! 1) (?g ! 2) (?g ! 3)) (sha_K i) (i mod 16) (r, ?l))"
  have at: "round_at i (r, l) = w"
  proof (cases "i < 16")
    case True
    then show ?thesis
      using g SHABLK0_word[OF inv p True] by (simp add: round_at_def R0_def w_def sha_f_def sha_K_def choose_eq)
  next
    case False
    then show ?thesis
      using g SHABLK_word[OF inv] i unfolding w_def round_at_def R1_def R2_def R3_def R4_def and_15
      by (simp add: sha_f_def sha_K_def choose_eq major_eq)
  qed
  obtain r' l' where rl: "w = (r', l')" by fastforce
  have "length r' = 5 \<and> l' = ?l \<and> (\<forall>k<5. r' ! reg (Suc i) k = sha_step ?M i ?g ! k)"
  proof (rule registers_step)
    show "?l ! (i mod 16) = sha_W ?M i" using len by simp
    show "(r', l') = rotate_w (reg i 1) (add_z (reg i 4) (reg i 0)
        (sha_f i (?g ! 1) (?g ! 2) (?g ! 3)) (sha_K i) (i mod 16) (r, ?l))"
      using rl w_def by simp
  qed (use len regs in simp_all)
  moreover have "?l ! (t mod 16) = sha_W ?M t" if "t < Suc i" "Suc i \<le> t + 16" for t
  proof (cases "t = i")
    case False
    then have "t mod 16 \<noteq> i mod 16"
      using that mod_eq_dvd_iff_nat[of t i 16] dvd_imp_le[of 16 "i - t"] by auto
    with False that inv show ?thesis by (simp add: rounds_inv_def)
  qed (simp add: len)
  moreover have "?l ! j = getblock32 p j" if "j < 16" "Suc i \<le> j" for j
  proof -
    have "i mod 16 \<noteq> j" using that by simp
    with that inv show ?thesis by (simp add: rounds_inv_def)
  qed
  ultimately show ?thesis
    unfolding at rl by (simp add: rounds_inv_def len)
qed

lemma rounds_inv_upto:
  assumes "rounds_inv p h 0 w" "length p = 64" "n \<le> 80"
  shows "rounds_inv p h n (fold (\<lambda>f. f) (map round_at [0..<n]) w)"
  using assms(3)
proof (induction n)
  case (Suc n)
  then show ?case
    using round_at_inv[OF _ assms(2)] by (cases "fold (\<lambda>f. f) (map round_at [0..<n]) w") simp
qed (simp add: assms)

lemma Transform_compress:
  assumes p: "length p = 64" and s: "length (m_state s) = 5"
  shows "\<exists>l. length l = 16 \<and> Transform p s = s\<lparr>m_state := sha_compress (sha_words p) (m_state s), m_block := l\<rparr>"
proof -
  let ?w = "(m_state s, map (getblock32 p) [0..<16])"
  obtain r l where rl: "fold (\<lambda>f. f) transform_rounds ?w = (r, l)" by fastforce
  have "rounds_inv p (m_state s) 0 ?w"
    by (simp add: rounds_inv_def reg_def s)
  from rounds_inv_upto[OF this p, of 80] rl
  have inv: "rounds_inv p (m_state s) 80 (r, l)" by (simp add: transform_rounds_regular)
  have "length (fold (sha_step (sha_words p)) [0..<80] (m_state s)) = 5"
    by (simp add: upt_80)
  then have "r = fold (sha_step (sha_words p)) [0..<80] (m_state s)"
    using inv reg_80 by (intro nth_equalityI) (auto simp: rounds_inv_def)
  then show ?thesis
    using inv rl by (intro exI[of _ l]) (simp add: Transform_def add_back_def sha_compress_def rounds_inv_def)
qed

subsection \<open>Chaining over blocks\<close>

definition sha_H0 :: "u32 list" where
  "sha_H0 = [0x67452301, 0xEFCDAB89, 0x98BADCFE, 0x10325476, 0xC3D2E1F0]"

text \<open>The chaining value after the first \<open>n\<close> blocks of a message.\<close>

fun sha_chain :: "byte list \<Rightarrow> nat \<Rightarrow> u32 list" where
  "sha_chain msg 0 = sha_H0"
| "sha_chain msg (Suc n) = sha_compress (sha_words (take 64 (drop (64 * n) msg))) (sha_chain msg n)"

text \<open>The lowest \<open>k\<close> bytes of a number, most significant first.\<close>

definition big_endian :: "nat \<Rightarrow> nat \<Rightarrow> byte list" where
  "big_endian k n = map (\<lambda>i. word_of_nat (n div 256 ^ (k - 1 - i))) [0..<k]"

definition sha_pad :: "byte list \<Rightarrow> byte list" where
  "sha_pad msg = msg @ [0x80] @ replicate ((119 - length msg mod 64) mod 64) 0 @ big_endian 8 (8 * length msg)"

definition sha1_digest :: "byte list \<Rightarrow> byte list" where
  "sha1_digest msg = concat (map (big_endian 4 \<circ> unat) (sha_chain (sha_pad msg) (length (sha_pad msg) div 64)))"

lemma length_sha_compress [simp]: "length h = 5 \<Longrightarrow> length (sha_compress M h) = 5"
  by (simp add: sha_compress_def upt_80)

lemma length_sha_chain [simp]: "length (sha_chain msg n) = 5"
  by (induction n) (simp_all add: sha_H0_def)

lemma sha_chain_append: "64 * n \<le> length msg \<Longrightarrow> sha_chain (msg @ rest) n = sha_chain msg n"
  by (induction n) simp_all

subsection \<open>Update\<close>

text \<open>\<open>absorbed s msg\<close>: the object has been given the bytes \<open>msg\<close>.\<close>

definition count_words :: "nat \<Rightarrow> u32 list" where
  "count_words n = [word_of_nat (8 * n), word_of_nat (8 * n div 2 ^ 32)]"

definition absorbed :: "sha1 \<Rightarrow> byte list \<Rightarrow> bool" where
  "absorbed s msg \<longleftrightarrow>
     m_state s = sha_chain msg (length msg div 64) \<and>
     m_count s = count_words (length msg) \<and>
     length (m_buffer s) = 64 \<and>
     take (length msg mod 64) (m_buffer s) = drop (64 * (length msg div 64)) msg"

lemma absorbed_Reset: "length (m_buffer junk) = 64 \<Longrightarrow> absorbed (Reset junk) []"
  by (simp add: absorbed_def Reset_def sha_H0_def count_words_def)

lemma carry_iff: "a < m \<Longrightarrow> b < m \<Longrightarrow> (a + b) mod m < b \<longleftrightarrow> m \<le> a + b" for a b m :: nat
  by (cases "a + b < m") (simp_all add: le_mod_geq not_less)

lemma update_count_words:
  assumes "n < 2 ^ 32"
  shows "update_count (word_of_nat n) (count_words k) = count_words (k + n)"
proof -
  have "push_bit 3 (word_of_nat n :: u32) = word_of_nat (8 * n)"
    by (simp add: push_bit_eq_mult)
  moreover have "drop_bit 29 (word_of_nat n :: u32) = word_of_nat (8 * n div 2 ^ 32)"
  proof -
    have "drop_bit 29 (word_of_nat n :: u32) = word_of_nat (n div 2 ^ 29)"
      using assms by (intro unsigned_word_eqI, subst unat_drop_bit_eq) (simp add: drop_bit_eq_div unat_of_nat)
    also have "n div 2 ^ 29 = 8 * n div 2 ^ 32" by simp
    finally show ?thesis .
  qed
  moreover have "(word_of_nat (8 * k) + word_of_nat (8 * n) < (word_of_nat (8 * n) :: u32)) =
      (2 ^ 32 \<le> 8 * k mod 2 ^ 32 + 8 * n mod 2 ^ 32)"
    using carry_iff[of "8 * k mod 2 ^ 32" "2 ^ 32" "8 * n mod 2 ^ 32"]
    by (simp add: word_less_nat_alt unat_of_nat mod_add_eq flip: of_nat_add of_nat_mult)
  moreover have "(8 * k + 8 * n) div 2 ^ 32 = 8 * k div 2 ^ 32 + 8 * n div 2 ^ 32 +
      (if 2 ^ 32 \<le> 8 * k mod 2 ^ 32 + 8 * n mod 2 ^ 32 then 1 else (0 :: nat))"
    by (subst div_add1_eq) (simp add: div_if)
  ultimately show ?thesis
    by (simp add: update_count_def add_low_def count_words_def distrib_left del: of_nat_mult)
qed

lemma count_index: "drop_bit 3 (count_words n ! 0) AND 0x3F = word_of_nat (n mod 64)"
proof -
  have "drop_bit 3 (push_bit 3 (word_of_nat n :: u32)) AND mask 6 = take_bit 6 (word_of_nat n)"
    by (rule bit_word_eqI) (auto simp: bit_simps)
  moreover have "(word_of_nat (8 * n) :: u32) = push_bit 3 (word_of_nat n)"
    by (simp add: push_bit_eq_mult)
  moreover have "take_bit 6 (word_of_nat n :: u32) = word_of_nat (n mod 64)"
    unfolding take_bit_of_nat by (simp add: take_bit_eq_mod)
  ultimately show ?thesis
    by (simp add: count_words_def mask_eq_exp_minus_1 del: of_nat_mult)
qed

lemma sha_chain_cong: "take (64 * n) a = take (64 * n) b \<Longrightarrow> sha_chain a n = sha_chain b n"
proof (induction n)
  case (Suc n)
  have "take 64 (drop (64 * n) a) = drop (64 * n) (take (64 * Suc n) a)" for a :: "byte list"
    by (simp add: drop_take)
  moreover have "take (64 * n) a = take (64 * n) b"
    using arg_cong[OF Suc.prems, of "take (64 * n)"] by simp
  ultimately show ?case using Suc by simp
qed simp

lemma no_wrap: "i + j < 2 ^ 32 \<Longrightarrow> unat (word_of_nat i + word_of_nat j :: u32) = i + j"
  by (simp flip: of_nat_add add: unat_of_nat)

text \<open>The loop takes whole blocks from the input until fewer than 64 bytes are left.\<close>

lemma update_loop_blocks:
  assumes "length data = n" "n < 2 ^ 32 - 64" "i \<le> n" "length (m_state s) = 5"
    and "m_state s = sha_chain msg k" "drop (64 * k) msg = drop i data"
  shows "\<exists>t m. update_loop data (word_of_nat n) (word_of_nat i) s = Some (word_of_nat (i + 64 * m), t) \<and>
    m = (n - i) div 64 \<and> m_state t = sha_chain msg (k + m) \<and>
    m_count t = m_count s \<and> m_buffer t = m_buffer s \<and> m_digest t = m_digest s"
  using assms(3-)
proof (induction "(n - i) div 64" arbitrary: i s k)
  case 0
  then have le: "\<not> i + 63 < n" by (auto simp: div_eq_0_iff)
  have "\<not> word_of_nat i + 63 < (word_of_nat n :: u32)"
    using le "0.prems"(1) assms(2) no_wrap[of i 63] by (simp add: word_less_nat_alt unat_of_nat)
  then show ?case
    using 0(1)[symmetric] 0 by (subst update_loop.simps) simp
next
  case (Suc m)
  then have less: "i + 64 \<le> n" by (cases "n - i < 64") auto
  have cond: "word_of_nat i + 63 < (word_of_nat n :: u32)"
    using less assms(2) no_wrap[of i 63] by (simp add: word_less_nat_alt unat_of_nat)
  have next_i: "word_of_nat i + 64 = (word_of_nat (i + 64) :: u32)" by simp
  have i: "unat (word_of_nat i :: u32) = i" using less assms(2) by (simp add: unat_of_nat)
  let ?p = "take 64 (drop i data)"
  obtain l where l: "Transform ?p s = s\<lparr>m_state := sha_compress (sha_words ?p) (m_state s), m_block := l\<rparr>"
    using Transform_compress[of ?p s] less assms(1) Suc.prems by auto
  have "take 64 (drop (64 * k) msg) = ?p" using Suc.prems by simp
  then have chain: "m_state (Transform ?p s) = sha_chain msg (Suc k)"
    using l Suc.prems by simp
  have div: "m = (n - (i + 64)) div 64" "(n - i) div 64 = Suc m"
    using Suc.hyps(2) less by (simp_all add: le_div_geq)
  have "drop (64 * Suc k) msg = drop (i + 64) data"
    using arg_cong[OF Suc.prems(4), of "drop 64"] by (simp add: add.commute)
  then obtain t where t: "update_loop data (word_of_nat n) (word_of_nat (i + 64)) (Transform ?p s) = Some (word_of_nat (i + 64 + 64 * m), t)"
      "m_state t = sha_chain msg (Suc k + m)" "m_count t = m_count s" "m_buffer t = m_buffer s" "m_digest t = m_digest s"
    using Suc.hyps(1)[of "i + 64" "Transform ?p s" "Suc k"] div chain less l by auto
  have "update_loop data (word_of_nat n) (word_of_nat i) s = Some (word_of_nat (i + 64 + 64 * m), t)"
    using t(1) by (subst update_loop.simps) (simp only: cond next_i i if_True)
  then show ?case
    using t div by (intro exI[of _ t] exI[of _ "Suc m"]) (simp add: algebra_simps)
qed

lemma keep_rest_buffer:
  assumes "i \<le> n" "n < 2 ^ 32" "length data = n" "j < 2 ^ 32"
  shows "keep_rest data (word_of_nat n) (word_of_nat i) (word_of_nat j) s =
    s\<lparr>m_buffer := overlay j (drop i data) (m_buffer s)\<rparr>"
proof -
  have "unat (word_of_nat n - word_of_nat i :: u32) = n - i"
    using assms by (simp flip: of_nat_diff add: unat_of_nat)
  moreover from this have "(word_of_nat n - word_of_nat i :: u32) \<noteq> 0 \<longleftrightarrow> n \<noteq> i"
    using assms by (metis diff_is_0_eq le_antisym unat_eq_zero diff_self_eq_0)
  ultimately show ?thesis
    using assms by (cases "n = i") (simp_all add: keep_rest_def fill_buffer_def unat_of_nat)
qed

lemma div_mod_short:
  "a mod 64 + b < 64 \<Longrightarrow> (a + b) div 64 = a div 64 \<and> (a + b) mod 64 = a mod 64 + b" for a b :: nat
  by (subst div_add1_eq, subst mod_add_left_eq[symmetric]) simp

lemma absorbed_short:
  assumes "absorbed s msg" "length msg mod 64 + length data < 64"
  shows "absorbed (s\<lparr>m_count := count_words (length msg + length data),
    m_buffer := overlay (length msg mod 64) data (m_buffer s)\<rparr>) (msg @ data)"
proof -
  let ?L = "length msg"
  have "(?L + length data) div 64 = ?L div 64" "(?L + length data) mod 64 = ?L mod 64 + length data"
    using div_mod_short[OF assms(2)] by simp_all
  moreover have "take (?L mod 64 + length data) (overlay (?L mod 64) data (m_buffer s)) = drop (64 * (?L div 64)) msg @ data"
    using assms minus_mult_div_eq_mod[of ?L 64] unfolding absorbed_def by (simp add: overlay_def)
  ultimately show ?thesis
    using assms(1) unfolding absorbed_def by (simp add: sha_chain_append)
qed

lemma buffer_block:
  assumes "absorbed s msg" "64 \<le> length msg mod 64 + length data"
  shows "overlay (length msg mod 64) (take (64 - length msg mod 64) data) (m_buffer s) =
    take 64 (drop (64 * (length msg div 64)) (msg @ data))"
  using assms minus_mult_div_eq_mod[of "length msg" 64] unfolding absorbed_def
  by (simp add: overlay_def)

lemma div_mod_64: "a = 64 * q + r \<Longrightarrow> r < 64 \<Longrightarrow> a div 64 = q \<and> a mod 64 = r" for a :: nat
  by simp

lemma next_block: "64 + 64 * (k div 64) = k + (64 - k mod 64)" for k :: nat
proof -
  have "a + r = k \<Longrightarrow> r < 64 \<Longrightarrow> 64 + a = k + (64 - r)" for a r :: nat by simp
  from this[OF mult_div_mod_eq] show ?thesis by simp
qed

text \<open>The bytes that complete the buffer are transformed with it.\<close>

lemma fill_transform:
  assumes s: "absorbed s msg" and long: "64 \<le> length msg mod 64 + length data"
  defines "B \<equiv> take 64 (drop (64 * (length msg div 64)) (msg @ data))" and "j \<equiv> length msg mod 64"
  obtains l where "length B = 64"
    "transform_buffer (fill_buffer data (64 - word_of_nat j) 0 (word_of_nat j) (s\<lparr>m_count := c\<rparr>)) =
      s\<lparr>m_count := c, m_buffer := B, m_state := sha_chain (msg @ data) (Suc (length msg div 64)), m_block := l\<rparr>"
proof -
  have j: "word_of_nat (64 - j) = 64 - (word_of_nat j :: u32)" "unat (word_of_nat (64 - j) :: u32) = 64 - j"
    unfolding j_def by (simp add: of_nat_diff, subst unat_of_nat, simp)
  have fill: "fill_buffer data (64 - word_of_nat j) 0 (word_of_nat j) (s\<lparr>m_count := c\<rparr>) = s\<lparr>m_count := c, m_buffer := B\<rparr>"
    using buffer_block[OF s long, folded B_def j_def] unfolding fill_buffer_def j(1)[symmetric] j(2)
    by (simp add: unat_of_nat j_def)
  have len: "length B = 64"
    using long minus_mult_div_eq_mod[of "length msg" 64] by (simp add: B_def)
  obtain l where "transform_buffer (s\<lparr>m_count := c, m_buffer := B\<rparr>) =
      s\<lparr>m_count := c, m_buffer := B, m_state := sha_chain (msg @ data) (Suc (length msg div 64)), m_block := l\<rparr>"
    using Transform_compress[OF len, of "s\<lparr>m_count := c, m_buffer := B\<rparr>"] s sha_chain_append[of "length msg div 64" msg data]
    by (auto simp: transform_buffer_def absorbed_def B_def)
  with that[OF len] show thesis by (simp add: fill)
qed

text \<open>Whole blocks and a rest behind them.\<close>

lemma absorbed_blocks:
  assumes t: "m_state t = sha_chain (msg @ data) (Suc (length msg div 64) + m)" "m_count t = count_words (length msg + length data)"
    and i: "64 * Suc (length msg div 64) = length msg + i" and le: "i + 64 * m \<le> length data"
    and short: "length data - i - 64 * m < 64" and B: "length B = 64"
  shows "absorbed (t\<lparr>m_buffer := overlay 0 (drop (i + 64 * m) data) B\<rparr>) (msg @ data)"
proof -
  let ?L = "length msg" and ?n = "length data"
  have blocks: "64 * (Suc (?L div 64) + m) = ?L + i + 64 * m" unfolding distrib_left i by simp
  have "?L + ?n = 64 * (Suc (?L div 64) + m) + (?n - i - 64 * m)"
    unfolding blocks using le by linarith
  from div_mod_64[OF this short]
  have dm: "(?L + ?n) div 64 = Suc (?L div 64) + m" "(?L + ?n) mod 64 = ?n - i - 64 * m" by blast+
  have c1: "drop (64 * (Suc (?L div 64) + m)) (msg @ data) = drop (i + 64 * m) data"
    unfolding blocks by simp
  have c2: "take (?n - i - 64 * m) (overlay 0 (drop (i + 64 * m) data) B) = drop (i + 64 * m) data"
    by (simp add: overlay_def)
  have "length (drop (i + 64 * m) data) = ?n - i - 64 * m"
    by (simp only: length_drop diff_diff_left)
  then have c3: "length (overlay 0 (drop (i + 64 * m) data) B) = 64"
    using length_overlay[of 0 "drop (i + 64 * m) data" B] B short by linarith
  have fields: "m_state (t\<lparr>m_buffer := x\<rparr>) = m_state t" "m_count (t\<lparr>m_buffer := x\<rparr>) = m_count t"
    "m_buffer (t\<lparr>m_buffer := x\<rparr>) = x" for x by simp_all
  show ?thesis
    unfolding absorbed_def length_append dm fields t c1 c2 c3 by (intro conjI refl)
qed

lemma update_long:
  assumes s: "absorbed s msg" and n: "length data < 2 ^ 32 - 64" and long: "64 \<le> length msg mod 64 + length data"
    and cond: "word_of_nat (length msg mod 64) + word_of_nat (length data) > (63 :: u32)"
  shows "\<exists>t. update_data data (word_of_nat (length data)) (word_of_nat (length msg mod 64))
      (s\<lparr>m_count := count_words (length msg + length data)\<rparr>) = Some t \<and> absorbed t (msg @ data) \<and> m_digest t = m_digest s"
proof -
  let ?L = "length msg" and ?n = "length data" and ?j = "length msg mod 64"
  let ?i = "64 - ?j" and ?B = "take 64 (drop (64 * (length msg div 64)) (msg @ data))"
  let ?m = "(?n - ?i) div 64" and ?s = "s\<lparr>m_count := count_words (?L + ?n)\<rparr>"
  from fill_transform[OF s long] obtain l where lenB: "length ?B = 64"
    and l: "transform_buffer (fill_buffer data (64 - word_of_nat ?j) 0 (word_of_nat ?j) ?s) =
      ?s\<lparr>m_buffer := ?B, m_state := sha_chain (msg @ data) (Suc (?L div 64)), m_block := l\<rparr>" .
  let ?s2 = "?s\<lparr>m_buffer := ?B, m_state := sha_chain (msg @ data) (Suc (?L div 64)), m_block := l\<rparr>"
  have j: "word_of_nat ?i = 64 - (word_of_nat ?j :: u32)" by (simp add: of_nat_diff)
  have end_q: "64 * Suc (?L div 64) = ?L + ?i" by (simp only: mult_Suc_right next_block)
  have rest: "drop (64 * Suc (?L div 64)) (msg @ data) = drop ?i data" unfolding end_q by simp
  have i: "?i \<le> ?n" using long by simp
  have "length (m_state ?s2) = 5" "m_state ?s2 = sha_chain (msg @ data) (Suc (?L div 64))"
    by (simp_all del: sha_chain.simps)
  from update_loop_blocks[OF refl n i this rest]
  obtain t where t: "update_loop data (word_of_nat ?n) (word_of_nat ?i) ?s2 = Some (word_of_nat (?i + 64 * ?m), t)"
      "m_state t = sha_chain (msg @ data) (Suc (?L div 64) + ?m)" "m_count t = m_count ?s2"
      "m_buffer t = m_buffer ?s2" "m_digest t = m_digest ?s2"
    by (elim exE conjE) (hypsubst, rule that; assumption)
  have le: "?i + 64 * ?m \<le> ?n" using long by (simp add: times_div_less_eq_dividend le_diff_conv2)
  have "update_data data (word_of_nat ?n) (word_of_nat ?j) ?s = Some (t\<lparr>m_buffer := overlay 0 (drop (?i + 64 * ?m) data) ?B\<rparr>)"
    using cond t(1,4) l j keep_rest_buffer[OF le, of data 0 t] n by (simp add: update_data_def)
  moreover have "absorbed (t\<lparr>m_buffer := overlay 0 (drop (?i + 64 * ?m) data) ?B\<rparr>) (msg @ data)"
    using t(3) by (intro absorbed_blocks[OF t(2) _ end_q le _ lenB]) (simp, unfold minus_mult_div_eq_mod, simp)
  ultimately show ?thesis using t(5) by simp
qed

lemma Update_absorbed:
  assumes s: "absorbed s msg" and n: "length data < 2 ^ 32 - 64"
  shows "\<exists>t. Update data (word_of_nat (length data)) s = Some t \<and> absorbed t (msg @ data) \<and> m_digest t = m_digest s"
proof -
  let ?j = "length msg mod 64" and ?n = "length data"
  let ?s = "s\<lparr>m_count := count_words (length msg + ?n)\<rparr>"
  have U: "Update data (word_of_nat ?n) s = update_data data (word_of_nat ?n) (word_of_nat ?j) ?s"
    using s n count_index[of "length msg"] by (simp add: Update_def absorbed_def update_count_words)
  have cond: "(word_of_nat ?j + word_of_nat ?n > (63 :: u32)) = (?j + ?n > 63)"
    using n no_wrap[of ?j ?n] by (simp add: word_less_nat_alt)
  show ?thesis
  proof (cases "?j + ?n > 63")
    case False
    then have short: "?j + ?n < 64" by simp
    have "Update data (word_of_nat ?n) s = Some (?s\<lparr>m_buffer := overlay ?j data (m_buffer s)\<rparr>)"
      using False cond n keep_rest_buffer[of 0 ?n data ?j ?s] by (simp add: U update_data_def)
    then show ?thesis using absorbed_short[OF s short] by simp
  next
    case True
    then show ?thesis unfolding U using update_long[OF s n] cond by simp
  qed
qed

subsection \<open>Final\<close>

lemma count_504: "count_words n ! 0 AND 504 \<noteq> 448 \<longleftrightarrow> n mod 64 \<noteq> 56"
proof -
  have "push_bit 3 (word_of_nat n :: u32) AND push_bit 3 (mask 6) = push_bit 3 (take_bit 6 (word_of_nat n))"
    by (rule bit_word_eqI) (auto simp: bit_simps)
  moreover have "push_bit 3 (take_bit 6 (word_of_nat n) :: u32) = word_of_nat (8 * (n mod 64))"
    unfolding take_bit_of_nat by (simp add: take_bit_eq_mod push_bit_eq_mult)
  moreover have "(word_of_nat (8 * n) :: u32) = push_bit 3 (word_of_nat n)"
    by (simp add: push_bit_eq_mult)
  ultimately have "count_words n ! 0 AND 504 = word_of_nat (8 * (n mod 64))"
    by (simp add: count_words_def mask_eq_exp_minus_1 del: of_nat_mult)
  moreover have "word_of_nat (8 * (n mod 64)) = (word_of_nat 448 :: u32) \<longleftrightarrow> 8 * (n mod 64) = 448"
    by (subst word_of_nat_eq_iff) (simp add: take_bit_eq_mod)
  ultimately show ?thesis by simp
qed

lemma pad_count: "r < 64 \<Longrightarrow> (120 - r) mod 64 = (if r \<le> 56 then 56 - r else 120 - r)" for r :: nat
proof (cases "r \<le> 56")
  case True
  then have "120 - r = 56 - r + 64" by simp
  with True show ?thesis by (metis mod_add_self2 mod_less diff_le_self le_less_trans numeral_less_iff semiring_norm(76,78,81))
qed simp

lemma pad_count_Suc:
  assumes "Suc k = (120 - r) mod 64" "r < 64"
  shows "r \<noteq> 56 \<and> k = (120 - (if Suc r = 64 then 0 else Suc r)) mod 64"
proof -
  have "Suc r < 64 \<or> Suc r = 64" using assms(2) by auto
  then show ?thesis
    using assms pad_count[of r] pad_count[of "Suc r"] by (auto split: if_splits)
qed

lemma pad_loop_zeros:
  "absorbed s msg \<Longrightarrow> k = (120 - length msg mod 64) mod 64 \<Longrightarrow>
   \<exists>t. pad_loop s = Some t \<and> absorbed t (msg @ replicate k 0)"
proof (induction k arbitrary: s msg)
  case 0
  then have "length msg mod 64 = 56" using pad_count[of "length msg mod 64"] by (simp split: if_splits)
  then show ?case
    using 0 count_504[of "length msg"] by (subst pad_loop.simps) (simp add: absorbed_def)
next
  case (Suc k)
  obtain t where t: "Update [0] 1 s = Some t" "absorbed t (msg @ [0])"
    using Update_absorbed[OF Suc.prems(1), of "[0]"] by auto
  have "length msg mod 64 \<noteq> 56" and "k = (120 - length (msg @ [0]) mod 64) mod 64"
    using pad_count_Suc[OF Suc.prems(2)] by (simp_all add: mod_Suc)
  moreover from this(1) have "pad_loop s = pad_loop t"
    using Suc.prems(1) t(1) count_504[of "length msg"] by (subst pad_loop.simps) (simp add: absorbed_def)
  ultimately show ?case
    using Suc.IH[OF t(2)] by (simp add: replicate_app_Cons_same)
qed

lemma be_byte: "i \<le> 24 \<Longrightarrow> ucast (drop_bit i (word_of_nat n :: u32) AND 255) = (word_of_nat (n div 2 ^ i) :: byte)"
proof -
  assume i: "i \<le> 24"
  have m: "(255 :: u32) = mask 8" by (simp add: mask_eq_exp_minus_1)
  show ?thesis
    unfolding m using i by (intro bit_word_eqI) (auto simp: bit_simps simp flip: drop_bit_eq_div)
qed

lemma be_bytes_count: "be_bytes [count_words n ! 1, count_words n ! 0] 8 = big_endian 8 (8 * n)"
proof -
  have "[0..<8] = [0, 1, 2, 3, 4, 5, 6, 7]" by code_simp
  then show ?thesis
    using be_byte[of 0 "8 * n"] be_byte[of 0 "8 * n div 2 ^ 32"]
    by (simp add: be_bytes_def big_endian_def count_words_def be_byte div_mult2_eq[symmetric] del: of_nat_mult)
qed

lemma upt_5: "[0..<5] = [0, 1, 2, 3, 4 :: nat]"
  by code_simp

lemma upt_20: "[0..<20] = [0, 1, 2, 3, 4, 5, 6, 7, 8, 9, 10, 11, 12, 13, 14, 15, 16, 17, 18, 19 :: nat]"
  by code_simp

lemma list_5: "length xs = 5 \<Longrightarrow> xs = [xs ! 0, xs ! 1, xs ! 2, xs ! 3, xs ! 4]"
  by (intro nth_equalityI) (auto simp: less_Suc_eq numeral_eq_Suc)

lemma be_byte_word: "i \<le> 24 \<Longrightarrow> ucast (drop_bit i w AND 255) = (word_of_nat (unat w div 2 ^ i) :: byte)" for w :: u32
  using be_byte[of i "unat w"] by simp

lemma be_bytes_state:
  assumes "length h = 5"
  shows "be_bytes h 20 = concat (map (big_endian 4 \<circ> unat) h)"
proof -
  have "[0..<4] = [0, 1, 2, 3]" by code_simp
  then show ?thesis
    using be_byte_word[of 0] be_byte_word[of 8] be_byte_word[of 16] be_byte_word[of 24]
    by (subst (2) list_5[OF assms]) (simp add: be_bytes_def big_endian_def upt_20)
qed

lemma Final_absorbed:
  assumes s: "absorbed s msg"
  shows "\<exists>t. Final s = Some t \<and> m_digest t = sha1_digest msg"
proof -
  let ?k = "(119 - length msg mod 64) mod 64" and ?c = "big_endian 8 (8 * length msg)"
  obtain s1 where s1: "Update [0x80] 1 s = Some s1" "absorbed s1 (msg @ [0x80])"
    using Update_absorbed[OF s, of "[0x80]"] by auto
  have k: "?k = (120 - length (msg @ [0x80]) mod 64) mod 64"
    by (simp add: mod_Suc)
  obtain s2 where s2: "pad_loop s1 = Some s2" "absorbed s2 (msg @ [0x80] @ replicate ?k 0)"
    using pad_loop_zeros[OF s1(2) k] by auto
  have len: "length ?c = 8" by (simp add: big_endian_def)
  obtain s3 where s3: "Update ?c 8 s2 = Some s3" "absorbed s3 (sha_pad msg)"
    using Update_absorbed[OF s2(2), of ?c] len by (auto simp: sha_pad_def)
  have c: "be_bytes [m_count s ! 1, m_count s ! 0] 8 = ?c"
    using s be_bytes_count by (simp add: absorbed_def)
  have "m_digest (wipe d) = m_digest d" for d
    by (simp add: wipe_def transform_buffer_def Transform_def add_back_def split: prod.split)
  then have "m_digest (wipe (digest s3)) = sha1_digest msg"
    using s3(2) be_bytes_state[of "m_state s3"] by (simp add: digest_def absorbed_def sha1_digest_def)
  then show ?thesis
    using s1(1) s2(1) s3(1) c by (simp add: Final_def final_with_def)
qed

lemma Updates_absorbed:
  assumes "absorbed s msg" "\<forall>d \<in> set ds. length d < 2 ^ 32 - 64"
  shows "\<exists>t. fold (\<lambda>d r. Option.bind r (Update d (word_of_nat (length d)))) ds (Some s) = Some t \<and>
    absorbed t (msg @ concat ds)"
  using assms
proof (induction ds arbitrary: s msg)
  case (Cons d ds)
  then obtain t where "Update d (word_of_nat (length d)) s = Some t" "absorbed t (msg @ d)"
    using Update_absorbed[of s msg d] by auto
  then show ?case using Cons.IH[of t "msg @ d"] Cons.prems by simp
qed simp

lemma length_sha1_digest: "length (sha1_digest msg) = 20"
proof -
  have "length (big_endian 4 n) = 4" for n by (simp add: big_endian_def)
  then have "length (concat (map (big_endian 4 \<circ> unat) h)) = 4 * length h" for h :: "u32 list"
    by (induction h) simp_all
  then show ?thesis by (simp add: sha1_digest_def)
qed

subsection \<open>Files and reports\<close>

lemma hash_reads_absorbed:
  "absorbed s msg \<Longrightarrow>
   \<exists>b t. hash_reads ks data n s = Some (b, t) \<and>
     (b \<longrightarrow> 0 \<le> n \<and> nat n \<le> length data \<and> absorbed t (msg @ take (nat n) data))"
proof (induction ks arbitrary: data n s msg)
  case Nil
  then show ?case by auto
next
  case (Cons k ks)
  let ?d = "fread_piece k data n"
  show ?case
  proof (cases "n > 0 \<and> ?d \<noteq> []")
    case True
    define m where "m = min k (nat (if n > SHA1_MAX_FILE_BUFFER then SHA1_MAX_FILE_BUFFER else n))"
    have d: "?d = take m data" by (simp add: fread_piece_def m_def)
    have m: "int m \<le> n" "m \<le> 8000" using True by (auto simp: m_def SHA1_MAX_FILE_BUFFER_def)
    have "length ?d < 2 ^ 32 - 64" using m(2) unfolding d by (simp add: min_def)
    from Update_absorbed[OF Cons.prems this] obtain s1
      where s1: "Update ?d (word_of_nat (length ?d)) s = Some s1" "absorbed s1 (msg @ ?d)" by blast
    let ?rest = "drop (length ?d) data" and ?r = "n - int (length ?d)"
    from Cons.IH[OF s1(2), of ?rest ?r] obtain b t where t: "hash_reads ks ?rest ?r s1 = Some (b, t)"
        "b \<longrightarrow> 0 \<le> ?r \<and> nat ?r \<le> length ?rest \<and> absorbed t ((msg @ ?d) @ take (nat ?r) ?rest)"
      by blast
    have run: "hash_reads (k # ks) data n s = Some (b, t)"
      using True s1(1) t(1) by simp
    have split: "nat n \<le> length data \<and> (msg @ ?d) @ take (nat ?r) ?rest = msg @ take (nat n) data"
      if "0 \<le> ?r" "nat ?r \<le> length ?rest"
    proof -
      have n: "nat n = length ?d + nat ?r" using that(1) by simp
      have "?d = take (length ?d) data" unfolding d by (simp add: min_def)
      then have "?d @ take (nat ?r) ?rest = take (nat n) data" by (metis n take_add)
      moreover have "length ?d \<le> length data" unfolding d by simp
      ultimately show ?thesis using that(2) n by simp
    qed
    with t(2) True show ?thesis unfolding run by (auto simp: less_imp_le)
  next
    case False
    then have "\<exists>b. hash_reads (k # ks) data n s = Some (b, s) \<and> (b \<longrightarrow> n = 0)" by auto
    with Cons.prems show ?thesis by fastforce
  qed
qed

lemma hex_byte_length [simp]: "length (hex_byte ds b) = 2"
  by (simp add: hex_byte_def)

lemma report_length:
  "length (m_digest s) = 20 \<Longrightarrow> ReportHashStl ty s = Some r \<Longrightarrow> length r \<le> 79"
proof -
  assume r: "ReportHashStl ty s = Some r"
  have d: "length (dec_nat (unat (b :: byte))) \<le> 3" for b
    using length_dec_byte[of "unat b"] unsigned_less[of b] by simp
  have "(\<Sum>i\<leftarrow>[1..<20]. length (dec_nat (unat (m_digest s ! i)))) \<le> (\<Sum>i\<leftarrow>[1..<20::nat]. 3)"
    by (rule sum_list_mono) (use d in auto)
  then have "(\<Sum>i\<leftarrow>[1..<20]. Suc (length (dec_nat (unat (m_digest s ! i))))) \<le> 76"
    by (simp add: sum_list_Suc sum_list_triv)
  with r d[of "m_digest s ! 0"] show ?thesis
    by (cases ty) (auto simp: ReportHashStl_def ReportHash_def length_concat o_def sum_list_triv)
qed

subsection \<open>Properties\<close>

lemma ROL32_eval: "ROL32 w n = word_of_int (take_bit 32 (push_bit n (uint w) OR drop_bit (32 - n) (uint w)))"
  unfolding ROL32_def by (rule bit_word_eqI) (auto simp: bit_simps)

lemmas rounds_eval = R0_def R1_def R2_def R3_def R4_def add_z_def rotate_w_def SHABLK0_def SHABLK_def

definition abc_block :: "byte list" where
  "abc_block = [97, 98, 99, 0x80] @ replicate 59 0 @ [24]"

definition empty_sha1 :: sha1 where
  "empty_sha1 = \<lparr>m_state = [], m_count = [], m_digest = replicate 20 0, m_buffer = replicate 64 0, m_block = []\<rparr>"

lemma abc_words: "map (getblock32 abc_block) [0..<16] = [0x80636261, 0, 0, 0, 0, 0, 0, 0, 0, 0, 0, 0, 0, 0, 0, 0x18000000]"
  by code_simp

lemma abc_rounds: "m_state (Transform abc_block (CSHA1 empty_sha1)) =
  [0xA9993E36, 0x4706816A, 0xBA3E2571, 0x7850C26C, 0x9CD0D89D]"
  unfolding abc_words Transform_def CSHA1_def Reset_def transform_rounds_def
  by (simp add: rounds_eval ROL32_eval add_back_def)

lemma abc_pad: "sha_pad [97, 98, 99] = abc_block"
proof -
  have "replicate 59 (0 :: byte) = replicate 52 0 @ replicate 7 0" by (simp flip: replicate_add)
  moreover have "replicate 7 (0 :: byte) = [0, 0, 0, 0, 0, 0, 0]" by code_simp
  ultimately show ?thesis by (simp add: sha_pad_def big_endian_def abc_block_def upt_rec)
qed

lemma abc_digest: "sha1_digest [97, 98, 99] =
  [0xA9, 0x99, 0x3E, 0x36, 0x47, 0x06, 0x81, 0x6A, 0xBA, 0x3E, 0x25, 0x71, 0x78, 0x50, 0xC2, 0x6C, 0x9C, 0xD0, 0xD8, 0x9D]"
proof -
  have "sha_chain abc_block 1 = m_state (Transform abc_block (CSHA1 empty_sha1))"
    using Transform_compress[of abc_block "CSHA1 empty_sha1"]
    by (auto simp: abc_block_def CSHA1_def Reset_def sha_H0_def)
  then show ?thesis
    unfolding sha1_digest_def abc_pad abc_rounds by (simp add: abc_block_def abc_rounds big_endian_def upt_rec)
qed

text \<open>C22: The eighty unrolled rounds of \<open>Transform\<close>, which swap the names of the five variables instead of
  their values and keep only sixteen words of the message schedule, compute the compression function of
  FIPS 180.\<close>

theorem transform_compresses:
  assumes "length p = 64" and "length (m_state s) = 5"
  shows "m_state (Transform p s) = sha_compress (sha_words p) (m_state s)"
  using Transform_compress[OF assms] by auto

theorem transform_compresses_witness:
  "sha_compress (sha_words abc_block) (m_state (CSHA1 empty_sha1)) =
    [0xA9993E36, 0x4706816A, 0xBA3E2571, 0x7850C26C, 0x9CD0D89D]"
proof -
  have "length abc_block = 64" "length (m_state (CSHA1 empty_sha1)) = 5"
    by (simp_all add: abc_block_def CSHA1_def Reset_def)
  from transform_compresses[OF this] show ?thesis by (simp only: abc_rounds)
qed

text \<open>C21: Whatever an object held before its construction, giving it a message in pieces by \<open>Update\<close> and
  calling \<open>Final\<close> ends, and \<open>GetHash\<close> yields the SHA-1 digest of the whole message.\<close>

theorem update_final_digest:
  assumes "length (m_buffer junk) = 64" and "\<forall>d \<in> set ds. length d < 2 ^ 32 - 64"
  shows "\<exists>t u. fold (\<lambda>d r. Option.bind r (Update d (word_of_nat (length d)))) ds (Some (CSHA1 junk)) = Some t
    \<and> Final t = Some u \<and> GetHash u = sha1_digest (concat ds)"
proof -
  obtain t where t: "fold (\<lambda>d r. Option.bind r (Update d (word_of_nat (length d)))) ds (Some (CSHA1 junk)) = Some t"
      "absorbed t (concat ds)"
    using Updates_absorbed[OF absorbed_Reset[OF assms(1)] assms(2)] by (auto simp: CSHA1_def)
  with Final_absorbed[OF t(2)] show ?thesis by (auto simp: GetHash_def length_sha1_digest)
qed

theorem update_final_digest_witness:
  "\<exists>t u. Option.bind (Update [97] 1 (CSHA1 empty_sha1)) (Update [98, 99] 2) = Some t \<and> Final t = Some u \<and>
     GetHash u = [0xA9, 0x99, 0x3E, 0x36, 0x47, 0x06, 0x81, 0x6A, 0xBA, 0x3E, 0x25, 0x71, 0x78, 0x50, 0xC2, 0x6C, 0x9C, 0xD0, 0xD8, 0x9D]"
  using update_final_digest[of empty_sha1 "[[97], [98, 99]]"] by (simp add: empty_sha1_def abc_digest)

text \<open>C23: \<open>HashFile\<close> on a new object always returns, however few bytes \<open>fread\<close> delivers; if it returns true,
  the file has at least the size reported, and \<open>Final\<close> yields the digest of that many bytes of it.\<close>

theorem hash_file_digest:
  assumes "length (m_buffer junk) = 64" and "fopen name = Some (n, data, ks)"
  shows "\<exists>b t. HashFile fopen (Some name) (CSHA1 junk) = Some (b, t) \<and>
    (b \<longrightarrow> 0 \<le> n \<and> nat n \<le> length data \<and> (\<exists>u. Final t = Some u \<and> GetHash u = sha1_digest (take (nat n) data)))"
proof -
  obtain b t where t: "hash_reads ks data n (CSHA1 junk) = Some (b, t)"
      "b \<longrightarrow> 0 \<le> n \<and> nat n \<le> length data \<and> absorbed t (take (nat n) data)"
    using hash_reads_absorbed[OF absorbed_Reset[OF assms(1)], of ks data n] by (auto simp: CSHA1_def)
  with assms(2) show ?thesis
    using Final_absorbed[of t "take (nat n) data"] by (auto simp: HashFile_def GetHash_def length_sha1_digest)
qed

theorem hash_file_digest_witness:
  "\<exists>t u. HashFile (\<lambda>_. Some (3, [97, 98, 99], [2, 5])) (Some ''f'') (CSHA1 empty_sha1) = Some (True, t) \<and>
    Final t = Some u \<and> GetHash u =
      [0xA9, 0x99, 0x3E, 0x36, 0x47, 0x06, 0x81, 0x6A, 0xBA, 0x3E, 0x25, 0x71, 0x78, 0x50, 0xC2, 0x6C, 0x9C, 0xD0, 0xD8, 0x9D]"
proof -
  let ?f = "\<lambda>_. Some (3, [97, 98, 99], [2, 5])"
  have "map_option fst (HashFile ?f (Some ''f'') (CSHA1 empty_sha1)) = Some True"
    by code_simp
  then show ?thesis
    using hash_file_digest[of empty_sha1 ?f "''f''" 3 "[97, 98, 99]" "[2, 5]"]
    by (auto simp: empty_sha1_def abc_digest)
qed

text \<open>The report of a digest, in each of the three formats, fits with its terminating NUL into the
  84 characters that \<open>ReportHashStl\<close> has for it.\<close>

theorem report_fits:
  assumes "length (m_digest s) = 20" and "ReportHashStl ty s = Some r"
  shows "length r + 1 \<le> 84"
  using report_length[OF assms] by simp

theorem report_fits_witness:
  "\<exists>r. ReportHashStl REPORT_DIGIT (empty_sha1\<lparr>m_digest := replicate 20 255\<rparr>) = Some r \<and> length r + 1 \<le> 84"
  using report_fits[of "empty_sha1\<lparr>m_digest := replicate 20 255\<rparr>" REPORT_DIGIT]
  by (auto simp: ReportHashStl_def ReportHash_def)

end
