(* ===== verification/Sql_Text.thy ===== *)
theory Sql_Text
  imports Sha1_Standard
begin

unbundle bit_operations_syntax

text \<open>
  \<open>easySQLite/SqlCommon.cpp\<close>: the class \<open>time\<close> and the functions on strings that the
  other classes of the library build SQL text and schema descriptions with.  What
  \<open>localtime\<close> and \<open>strftime\<close> make of a time is a parameter.  The lemmas show that a
  quoted string is read back by the rule of SQL literals, what \<open>hexToBin\<close> makes of
  \<open>binToHex\<close>, and that \<open>listToVector\<close> takes a joined list of words apart.
\<close>

subsection \<open>time\<close>

text \<open>\<open>time_t\<close> and \<open>integer\<close> have 64 bits.\<close>

definition int64 :: "int \<Rightarrow> int" where
  "int64 x = sint (word_of_int x :: 64 word)"

record sqltime =
  tm_value :: int

definition time_of :: "int \<Rightarrow> sqltime" where
  "time_of value = \<lparr>tm_value = value\<rparr>"

text \<open>\<open>operator==\<close>; the first argument says whether both operands are the same object.\<close>

definition time_eq :: "bool \<Rightarrow> sqltime \<Rightarrow> sqltime \<Rightarrow> bool" where
  "time_eq same this value = (if same then True else if tm_value value = tm_value value then True else False)"

definition time_asInteger :: "sqltime \<Rightarrow> int" where
  "time_asInteger t = tm_value t"

definition time_addValue :: "int \<Rightarrow> sqltime \<Rightarrow> sqltime" where
  "time_addValue value t = t\<lparr>tm_value := int64 (tm_value t + value)\<rparr>"

definition time_addMinutes :: "int \<Rightarrow> sqltime \<Rightarrow> sqltime" where
  "time_addMinutes count t = t\<lparr>tm_value := int64 (tm_value t + int64 (60 * count))\<rparr>"

definition time_addHours :: "int \<Rightarrow> sqltime \<Rightarrow> sqltime" where
  "time_addHours count t = t\<lparr>tm_value := int64 (tm_value t + int64 (3600 * count))\<rparr>"

definition time_addDays :: "int \<Rightarrow> sqltime \<Rightarrow> sqltime" where
  "time_addDays count t = t\<lparr>tm_value := int64 (tm_value t + int64 ((3600 * 24) * count))\<rparr>"

text \<open>What \<open>localtime\<close> and \<open>strftime\<close> write for a format and a time, or \<open>None\<close>.\<close>

type_synonym strftime = "string \<Rightarrow> int \<Rightarrow> string option"

definition time_format :: "strftime \<Rightarrow> string \<Rightarrow> sqltime \<Rightarrow> string" where
  "time_format strf fmt t = (case strf fmt (tm_value t) of None \<Rightarrow> [] | Some s \<Rightarrow> s)"

definition time_asString :: "strftime \<Rightarrow> sqltime \<Rightarrow> string" where
  "time_asString strf t = time_format strf ''%d-%m-%Y %H:%M, %a'' t"

definition time_asTimeString :: "strftime \<Rightarrow> sqltime \<Rightarrow> string" where
  "time_asTimeString strf t = time_format strf ''%H:%M'' t"

definition time_asDateString :: "strftime \<Rightarrow> sqltime \<Rightarrow> string" where
  "time_asDateString strf t = time_format strf ''%d-%m-%Y'' t"

subsection \<open>Numbers, quotes and hexadecimal digits\<close>

definition intToStr :: "int \<Rightarrow> string" where
  "intToStr value = take 31 (dec_int value)"

fun quoteStr :: "string \<Rightarrow> string" where
  "quoteStr [] = []"
| "quoteStr (c # cs) = (if c = CHR 0x27 then [c, c] else [c]) @ quoteStr cs"

definition string_bytes :: "string \<Rightarrow> byte list" where
  "string_bytes s = map (\<lambda>c. word_of_nat (of_char c)) s"

definition binToHex :: "byte list \<Rightarrow> nat \<Rightarrow> string" where
  "binToHex buffer n = concat (map (\<lambda>i. hex_byte lower_digits (buffer ! i)) [0..<n])"

text \<open>\<open>char\<close> is signed; \<open>lower_bound\<close> finds the first character of \<open>lut\<close> that is not
  smaller, and the character behind the last digit is the terminating NUL.\<close>

definition schar :: "char \<Rightarrow> int" where
  "schar c = (let n = of_char c in if n < 128 then n else n - 256)"

definition lut_bound :: "char \<Rightarrow> nat" where
  "lut_bound a = length (takeWhile (\<lambda>d. schar d < schar a) upper_digits)"

definition lut_at :: "nat \<Rightarrow> char" where
  "lut_at p = (upper_digits @ [CHR 0x00]) ! p"

fun hex_pairs :: "string \<Rightarrow> cpp_exn + byte list" where
  "hex_pairs (a # b # rest) =
    (if lut_at (lut_bound a) \<noteq> a then Inl (InvalidArgument ''not a hex digit'')
     else if lut_at (lut_bound b) \<noteq> b then Inl (InvalidArgument ''not a hex digit'')
     else (case hex_pairs rest of
             Inl e \<Rightarrow> Inl e
           | Inr out \<Rightarrow> Inr ((push_bit 4 (word_of_nat (lut_bound a)) OR word_of_nat (lut_bound b)) # out)))"
| "hex_pairs _ = Inr []"

definition hexToBin :: "string \<Rightarrow> cpp_exn + byte list" where
  "hexToBin input =
    (if odd (length (c_str input)) then Inl (InvalidArgument ''odd length'') else hex_pairs (c_str input))"

text \<open>\<open>None\<close>: a loop of \<open>CSHA1\<close> does not end.  The first argument is the memory of the
  local object.\<close>

definition generateSHA :: "sha1 \<Rightarrow> string \<Rightarrow> string option" where
  "generateSHA junk value =
    (case Update (string_bytes value) (word_of_nat (length value)) (CSHA1 junk) of
       None \<Rightarrow> None
     | Some sha \<Rightarrow> (case Final sha of None \<Rightarrow> None | Some sha \<Rightarrow> Some (binToHex (GetHash sha) 20)))"

subsection \<open>Trimming and splitting\<close>

definition trimleft :: "string \<Rightarrow> string" where
  "trimleft s = dropWhile isspace s"

definition trimright :: "string \<Rightarrow> string" where
  "trimright s = take (length (dropWhile isspace (rev s))) s"

definition trim :: "string \<Rightarrow> string" where
  "trim s = trimright (trimleft s)"

function tokens :: "string \<Rightarrow> string \<Rightarrow> string list" where
  "tokens sep b = (case strtok sep b of None \<Rightarrow> [] | Some (t, rest) \<Rightarrow> trim t # tokens sep rest)"
  by pat_completeness auto
termination
  by (relation "measure (\<lambda>(sep, b). length b)") (auto dest: strtok_shorter)

declare tokens.simps [simp del]

definition listToVector :: "string \<Rightarrow> string \<Rightarrow> string list" where
  "listToVector s sep = tokens sep (c_str s)"

subsection \<open>Quoting\<close>

text \<open>The rule of SQL for the rest of a literal behind its opening quote: a doubled quote is
  a quote, a single one ends the literal.  The result is the value and the text behind it.\<close>

fun sql_literal :: "string \<Rightarrow> (string \<times> string) option" where
  "sql_literal [] = None"
| "sql_literal (c # cs) =
    (if c \<noteq> CHR 0x27 then map_option (\<lambda>(v, r). (c # v, r)) (sql_literal cs)
     else (case cs of
             [] \<Rightarrow> Some ([], [])
           | d # ds \<Rightarrow> if d = CHR 0x27 then map_option (\<lambda>(v, r). (c # v, r)) (sql_literal ds)
                      else Some ([], d # ds)))"

lemma sql_literal_end: "rest = [] \<or> hd rest \<noteq> CHR 0x27 \<Longrightarrow> sql_literal (CHR 0x27 # rest) = Some ([], rest)"
  by (cases rest) auto

lemma sql_literal_quoteStr:
  "rest = [] \<or> hd rest \<noteq> CHR 0x27 \<Longrightarrow> sql_literal (quoteStr s @ CHR 0x27 # rest) = Some (s, rest)"
  by (induction s) (cases rest, auto)

subsection \<open>Hexadecimal digits\<close>

lemma nibble: "unat (b :: byte) div 16 < 16" "unat b mod 16 < 16"
proof -
  have "unat b < 2 ^ LENGTH(8)" by (rule unsigned_less)
  then show "unat b div 16 < 16" "unat b mod 16 < 16" by auto
qed

lemma digit_tables:
  "\<forall>k\<in>set [0..<16]. lut_bound (upper_digits ! k) = k \<and> lut_at k = upper_digits ! k \<and>
     (lut_at (lut_bound (lower_digits ! k)) = lower_digits ! k \<longleftrightarrow> k < 10) \<and>
     (k < 10 \<longrightarrow> lower_digits ! k = upper_digits ! k) \<and>
     lower_digits ! k \<noteq> CHR 0x00 \<and> upper_digits ! k \<noteq> CHR 0x00"
  by code_simp

lemma digit_facts:
  assumes "k < 16"
  shows "lut_bound (upper_digits ! k) = k" "lut_at k = upper_digits ! k"
    "lut_at (lut_bound (lower_digits ! k)) = lower_digits ! k \<longleftrightarrow> k < 10"
    "k < 10 \<Longrightarrow> lower_digits ! k = upper_digits ! k"
    "lower_digits ! k \<noteq> CHR 0x00" "upper_digits ! k \<noteq> CHR 0x00"
  using digit_tables assms by simp_all

lemma nibbles_byte: "push_bit 4 (word_of_nat (unat b div 16)) OR word_of_nat (unat b mod 16) = (b :: byte)"
proof -
  have "unat b div 16 = drop_bit 4 (unat b)" "unat b mod 16 = take_bit 4 (unat b)"
    by (simp_all add: drop_bit_eq_div take_bit_eq_mod)
  then show ?thesis
    by (simp only:) (rule bit_word_eqI, auto simp: bit_simps)
qed

definition hex_string :: "string \<Rightarrow> byte list \<Rightarrow> string" where
  "hex_string ds bs = concat (map (hex_byte ds) bs)"

lemma binToHex_all: "binToHex bs (length bs) = hex_string lower_digits bs"
proof -
  have "map (\<lambda>i. hex_byte lower_digits (bs ! i)) [0..<length bs] = map (hex_byte lower_digits) bs"
    by (rule nth_equalityI) simp_all
  then show ?thesis by (simp add: binToHex_def hex_string_def)
qed

lemma hex_string_even: "even (length (hex_string ds bs))"
  by (induction bs) (simp_all add: hex_string_def hex_byte_def)

lemma hex_pairs_upper: "hex_pairs (hex_string upper_digits bs) = Inr bs"
  by (induction bs) (simp_all add: hex_string_def hex_byte_def digit_facts nibble nibbles_byte)

lemma hex_string_plain: "ds = lower_digits \<or> ds = upper_digits \<Longrightarrow> c_str (hex_string ds bs) = hex_string ds bs"
  by (rule c_str_id) (auto simp: hex_string_def hex_byte_def digit_facts nibble dest!: sym[of "CHR 0x00"])

lemma hex_pairs_lower:
  "hex_pairs (hex_string lower_digits bs) =
    (if \<forall>b\<in>set bs. unat b div 16 < 10 \<and> unat b mod 16 < 10 then Inr bs else Inl (InvalidArgument ''not a hex digit''))"
proof (induction bs)
  case Nil
  then show ?case by (simp add: hex_string_def)
next
  case (Cons b bs)
  have "hex_string lower_digits (b # bs) =
      lower_digits ! (unat b div 16) # lower_digits ! (unat b mod 16) # hex_string lower_digits bs"
    by (simp add: hex_string_def hex_byte_def)
  with Cons show ?case
    by (cases "unat b div 16 < 10"; cases "unat b mod 16 < 10")
       (simp_all add: digit_facts nibble nibbles_byte)
qed

subsection \<open>Splitting\<close>

lemma trim_id: "s \<noteq> [] \<Longrightarrow> \<not> isspace (hd s) \<Longrightarrow> \<not> isspace (last s) \<Longrightarrow> trim s = s"
proof -
  assume s: "s \<noteq> []" "\<not> isspace (hd s)" "\<not> isspace (last s)"
  then have "dropWhile isspace s = s" by (cases s) auto
  moreover have "dropWhile isspace (rev s) = rev s" using s by (cases s rule: rev_cases) auto
  ultimately show ?thesis by (simp add: trim_def trimleft_def trimright_def)
qed

lemma tokens_word:
  assumes "w \<noteq> []" "set w \<inter> set sep = {}" "c \<in> set sep"
  shows "tokens sep (w @ c # rest) = trim w # tokens sep rest" and "tokens sep w = [trim w]"
proof -
  have hd: "dropWhile (\<lambda>c. c \<in> set sep) (w @ u) = w @ u" for u
    using assms by (cases w) auto
  have "takeWhile (\<lambda>c. c \<notin> set sep) (w @ c # rest) = w" "dropWhile (\<lambda>c. c \<notin> set sep) (w @ c # rest) = c # rest"
    using assms(2,3) by (auto simp: takeWhile_append dropWhile_append)
  then have "strtok sep (w @ c # rest) = Some (w, rest)"
    using hd[of "c # rest"] assms(1) by (simp add: strtok_def)
  then show "tokens sep (w @ c # rest) = trim w # tokens sep rest" by (subst tokens.simps) simp
  have "takeWhile (\<lambda>c. c \<notin> set sep) w = w" "dropWhile (\<lambda>c. c \<notin> set sep) w = []"
    using assms(2) by (auto simp: takeWhile_eq_all_conv dropWhile_eq_Nil_conv)
  then have "strtok sep w = Some (w, [])"
    using hd[of "[]"] assms(1) unfolding strtok_def Let_def append_Nil2 by (simp only: if_False drop_Nil)
  moreover have "tokens sep [] = []" by (subst tokens.simps) (simp add: strtok_def)
  ultimately show "tokens sep w = [trim w]" by (subst tokens.simps) simp
qed

lemma tokens_skip: "c \<in> set sep \<Longrightarrow> tokens sep (c # b) = tokens sep b"
  by (subst (1 2) tokens.simps) (simp add: strtok_def)

subsection \<open>Properties\<close>

lemma generateSHA_digest:
  assumes "length (m_buffer junk) = 64" and "length value < 2 ^ 32 - 64"
  shows "generateSHA junk value = Some (hex_string lower_digits (sha1_digest (string_bytes value)))"
proof -
  have "length (string_bytes value) = length value" by (simp add: string_bytes_def)
  then obtain t where t: "Update (string_bytes value) (word_of_nat (length value)) (CSHA1 junk) = Some t"
      "absorbed t (string_bytes value)"
    using Update_absorbed[OF absorbed_Reset[OF assms(1)], of "string_bytes value"] assms(2)
    by (auto simp: CSHA1_def)
  from Final_absorbed[OF t(2)] obtain u where "Final t = Some u" "m_digest u = sha1_digest (string_bytes value)"
    by blast
  then show ?thesis
    using t(1) binToHex_all[of "sha1_digest (string_bytes value)"]
    by (simp add: generateSHA_def GetHash_def length_sha1_digest)
qed

lemma generateSHA_abc:
  "generateSHA empty_sha1 ''abc'' = Some ''a9993e364706816aba3e25717850c26c9cd0d89d''"
proof -
  have "string_bytes ''abc'' = [97, 98, 99]" by (simp add: string_bytes_def)
  then show ?thesis
    using generateSHA_digest[of empty_sha1 "''abc''"]
    by (simp add: abc_digest empty_sha1_def hex_string_def hex_byte_def lower_digits_def)
qed

text \<open>C25: A string that went through \<open>quoteStr\<close> and stands between quotes in a statement is read back by
  the rule for SQL literals, and the literal ends where it was meant to end: no content can break out of it.\<close>

theorem quoteStr_literal:
  assumes "rest = [] \<or> hd rest \<noteq> CHR 0x27"
  shows "sql_literal (quoteStr s @ CHR 0x27 # rest) = Some (s, rest)"
  by (rule sql_literal_quoteStr[OF assms])

theorem quoteStr_literal_witness:
  "sql_literal (quoteStr [CHR ''x'', CHR 0x27, CHR '')'', CHR '';''] @ CHR 0x27 # '', 1)'') =
    Some ([CHR ''x'', CHR 0x27, CHR '')'', CHR '';''], '', 1)'')"
  by (rule quoteStr_literal) simp

text \<open>\<open>hexToBin\<close> reads the upper case hexadecimal text of any bytes back, but the text that \<open>binToHex\<close>
  writes only if no digit is above 9; otherwise it throws \<open>std::invalid_argument\<close>.\<close>

theorem hexToBin_digits:
  "hexToBin (hex_string upper_digits bs) = Inr bs \<and>
   hexToBin (binToHex bs (length bs)) =
    (if \<forall>b\<in>set bs. unat b div 16 < 10 \<and> unat b mod 16 < 10 then Inr bs
     else Inl (InvalidArgument ''not a hex digit''))"
  using hex_string_even hex_string_plain hex_pairs_upper hex_pairs_lower
  by (simp add: hexToBin_def binToHex_all)

theorem hexToBin_digits_witness:
  "binToHex [0x12, 0xAB] 2 = ''12ab'' \<and> hexToBin ''12ab'' = Inl (InvalidArgument ''not a hex digit'') \<and>
   hexToBin ''12AB'' = Inr [0x12, 0xAB]"
proof -
  have "hex_string upper_digits [0x12, 0xAB] = ''12AB''" "binToHex [0x12, 0xAB] 2 = ''12ab''"
    by (simp_all add: binToHex_def hex_string_def hex_byte_def upper_digits_def lower_digits_def upt_rec)
  moreover have "length [0x12 :: byte, 0xAB] = 2" by simp
  ultimately show ?thesis using hexToBin_digits[of "[0x12, 0xAB]"] by (simp only:) simp
qed

end
