(* ===== verification/Sql_Fields.thy ===== *)
theory Sql_Fields
  imports Sql_Text
begin

unbundle bit_operations_syntax

text \<open>
  \<open>easySQLite/SqlField.cpp\<close> and \<open>SqlFieldSet.cpp\<close>: the fields of a table, their text in
  \<open>CREATE TABLE\<close>, and the way back from the text.  A \<open>FieldSet\<close> has its fields as a
  vector and as a map by name; the map's pointers lead to fields that are not changed any
  more, so it is a map to their values.

  The lemmas say exactly which field the text of a field is read back as: the name and the
  column type survive, \<open>UNIQUE\<close> is lost behind \<open>NOT NULL\<close>, and the index always is.
\<close>

subsection \<open>Field\<close>

datatype field_use = FIELD_DEFAULT | FIELD_KEY | DEFINITION_END

datatype field_type = type_undefined | type_int | type_text | type_float | type_bool | type_time | type_blob

definition flag_none :: int where "flag_none = 0"
definition flag_not_null :: int where "flag_not_null = 1"
definition flag_primary_key :: int where "flag_primary_key = 2"
definition flag_unique :: int where "flag_unique = 4"

lemmas flag_defs = flag_none_def flag_not_null_def flag_primary_key_def flag_unique_def

record field =
  f_name :: string
  f_use :: field_use
  f_type :: field_type
  f_index :: int
  f_flags :: int

definition Field_of_use :: "field_use \<Rightarrow> field" where
  "Field_of_use u =
    (if u = FIELD_KEY
     then \<lparr>f_name = ''_ID'', f_use = u, f_type = type_int, f_index = -1, f_flags = flag_primary_key\<rparr>
     else \<lparr>f_name = [], f_use = u, f_type = type_undefined, f_index = -1, f_flags = flag_none\<rparr>)"

definition Field :: "string \<Rightarrow> field_type \<Rightarrow> int \<Rightarrow> field_use \<Rightarrow> field" where
  "Field name ty flags u = \<lparr>f_name = name, f_use = u, f_type = ty, f_index = -1, f_flags = flags\<rparr>"

definition isKeyIdField :: "field \<Rightarrow> bool" where
  "isKeyIdField f \<longleftrightarrow> f_use f = FIELD_KEY"

definition isEndingField :: "field \<Rightarrow> bool" where
  "isEndingField f \<longleftrightarrow> f_use f = DEFINITION_END"

fun getTypeStr :: "field_type \<Rightarrow> string" where
  "getTypeStr type_int = ''INTEGER''"
| "getTypeStr type_text = ''TEXT''"
| "getTypeStr type_float = ''REAL''"
| "getTypeStr type_bool = ''INTEGER''"
| "getTypeStr type_time = ''INTEGER''"
| "getTypeStr type_blob = ''BLOB''"
| "getTypeStr type_undefined = []"

definition isPrimaryKey :: "field \<Rightarrow> bool" where
  "isPrimaryKey f \<longleftrightarrow> f_flags f AND flag_primary_key = flag_primary_key"

definition isNotNull :: "field \<Rightarrow> bool" where
  "isNotNull f \<longleftrightarrow> f_flags f AND flag_not_null = flag_not_null"

definition isUnique :: "field \<Rightarrow> bool" where
  "isUnique f \<longleftrightarrow> f_flags f AND flag_unique = flag_unique"

definition Field_getDefinition :: "field \<Rightarrow> string" where
  "Field_getDefinition f = trim (f_name f @ '' '' @ getTypeStr (f_type f)
     @ (if isPrimaryKey f then '' PRIMARY KEY'' else [])
     @ (if isNotNull f then '' NOT NULL'' else [])
     @ (if isUnique f then '' UNIQUE'' else []))"

text \<open>\<open>createFromDefinition\<close>: the word for the type, then the words for the flags.\<close>

definition parse_type :: "string \<Rightarrow> field_type" where
  "parse_type s =
    (if s = ''INTEGER'' then type_int else if s = ''TEXT'' then type_text
     else if s = ''REAL'' then type_float else if s = ''BLOB'' then type_blob else type_undefined)"

definition parse_flags :: "string \<Rightarrow> field_use \<times> int" where
  "parse_flags flags =
    (let (u, fl) = (if contains ''PRIMARY KEY'' flags then (FIELD_KEY, flag_primary_key) else (FIELD_DEFAULT, flag_none));
         fl = (if contains ''NOT NULL'' flags then fl OR flag_not_null else fl);
         fl = (if contains ''UNIQUE'' flags then fl OR flag_unique else fl)
     in (u, fl))"

definition Field_createFromDefinition :: "string \<Rightarrow> field option" where
  "Field_createFromDefinition value =
    (let vec = listToVector value '' '';
         count = length vec;
         name = (if count > 0 then vec ! 0 else []);
         ty = (if count > 1 then parse_type (vec ! 1) else type_undefined);
         (u, flags) = (if count > 2 then parse_flags (vec ! 2 @ (if count > 3 then '' '' @ vec ! 3 else []))
                       else (FIELD_DEFAULT, flag_none))
     in if name \<noteq> [] \<and> ty \<noteq> type_undefined
        then Some (if u = FIELD_DEFAULT then Field name ty flags FIELD_DEFAULT else Field_of_use u)
        else None)"

subsection \<open>FieldSet\<close>

record fieldset =
  fs_vec :: "field list"
  fs_map :: "string \<Rightarrow> field option"

text \<open>The constructor from an array: the fields before the ending one get their positions as
  indices.  Without an ending field the loop leaves the array.\<close>

fun array_loop :: "int \<Rightarrow> field list \<Rightarrow> fieldset \<Rightarrow> fieldset outcome" where
  "array_loop index [] fs = Halt BadLength"
| "array_loop index (f # definition) fs =
    (if isEndingField f then Ok fs
     else array_loop (index + 1) definition
       (fs\<lparr>fs_vec := fs_vec fs @ [f\<lparr>f_index := index\<rparr>],
           fs_map := (fs_map fs)(f_name f \<mapsto> f\<lparr>f_index := index\<rparr>)\<rparr>))"

definition FieldSet_of_array :: "field list option \<Rightarrow> fieldset outcome" where
  "FieldSet_of_array definition =
    (case definition of None \<Rightarrow> Ok \<lparr>fs_vec = [], fs_map = Map.empty\<rparr>
     | Some fs \<Rightarrow> array_loop 0 fs \<lparr>fs_vec = [], fs_map = Map.empty\<rparr>)"

definition FieldSet_copy :: "field list \<Rightarrow> fieldset" where
  "FieldSet_copy definition =
    \<lparr>fs_vec = definition, fs_map = foldl (\<lambda>m f. m(f_name f \<mapsto> f)) Map.empty definition\<rparr>"

definition fs_count :: "fieldset \<Rightarrow> nat" where
  "fs_count fs = length (fs_vec fs)"

definition getByIndex :: "int \<Rightarrow> fieldset \<Rightarrow> field option" where
  "getByIndex index fs =
    (if index \<ge> 0 \<and> index < int (fs_count fs) then Some (fs_vec fs ! nat index) else None)"

definition getByName :: "string \<Rightarrow> fieldset \<Rightarrow> field option" where
  "getByName name fs = fs_map fs name"

text \<open>The loops of \<open>getDefinition\<close> and \<open>toString\<close>: a comma behind all but the last field.\<close>

definition comma_loop :: "(field \<Rightarrow> string) \<Rightarrow> fieldset \<Rightarrow> string" where
  "comma_loop text fs = concat (map (\<lambda>index. case getByIndex (int index) fs of None \<Rightarrow> []
     | Some f \<Rightarrow> text f @ (if int index < int (fs_count fs) - 1 then '', '' else [])) [0..<fs_count fs])"

definition FieldSet_getDefinition :: "fieldset \<Rightarrow> string" where
  "FieldSet_getDefinition fs = comma_loop Field_getDefinition fs"

definition definitionHash :: "sha1 \<Rightarrow> fieldset \<Rightarrow> string option" where
  "definitionHash junk fs = generateSHA junk (FieldSet_getDefinition fs)"

definition FieldSet_toString :: "fieldset \<Rightarrow> string" where
  "FieldSet_toString fs = comma_loop f_name fs"

fun parse_fields :: "string list \<Rightarrow> field list option" where
  "parse_fields [] = Some []"
| "parse_fields (d # ds) =
    (case Field_createFromDefinition d of None \<Rightarrow> None
     | Some f \<Rightarrow> map_option (Cons f) (parse_fields ds))"

definition FieldSet_createFromDefinition :: "string \<Rightarrow> fieldset option" where
  "FieldSet_createFromDefinition value = map_option FieldSet_copy (parse_fields (listToVector value '',''))"

subsection \<open>Reading a definition back\<close>

text \<open>A word: what stands between blanks and commas.\<close>

definition word :: "string \<Rightarrow> bool" where
  "word w \<longleftrightarrow> w \<noteq> [] \<and> (\<forall>c\<in>set w. \<not> isspace c \<and> c \<noteq> CHR '','' \<and> c \<noteq> CHR 0x00)"

lemma space_isspace [simp]: "isspace CHR '' ''"
  by (simp add: isspace_def)

lemma wordD:
  assumes "word w"
  shows "w \<noteq> []" "set w \<inter> set '' '' = {}" "set w \<inter> set '','' = {}" "CHR 0x00 \<notin> set w" "trim w = w"
proof -
  have c: "c \<in> set w \<Longrightarrow> \<not> isspace c \<and> c \<noteq> CHR '','' \<and> c \<noteq> CHR 0x00" for c
    using assms by (simp add: word_def)
  show "w \<noteq> []" using assms by (simp add: word_def)
  then have "\<not> isspace (hd w)" "\<not> isspace (last w)" using assms by (auto simp: word_def)
  with \<open>w \<noteq> []\<close> show "trim w = w" by (rule trim_id)
  show "set w \<inter> set '' '' = {}" "set w \<inter> set '','' = {}" "CHR 0x00 \<notin> set w"
    using c[of "CHR '' ''"] c[of "CHR '',''"] c[of "CHR 0x00"] by auto
qed

fun join :: "string \<Rightarrow> string list \<Rightarrow> string" where
  "join sep [] = []"
| "join sep [w] = w"
| "join sep (w # v # ws) = w @ sep @ join sep (v # ws)"

lemma join_Cons: "ws \<noteq> [] \<Longrightarrow> join sep (w # ws) = w @ sep @ join sep ws"
  by (cases ws) simp_all

lemma set_join: "set (join sep ws) \<subseteq> \<Union>(set ` set ws) \<union> set sep"
  by (induction sep ws rule: join.induct) auto

lemma tokens_words: "\<forall>w\<in>set ws. word w \<Longrightarrow> tokens '' '' (join '' '' ws) = ws"
proof (induction "'' ''" ws rule: join.induct)
  case 1
  then show ?case by (subst tokens.simps) (simp add: strtok_def)
next
  case (2 w)
  then show ?case using tokens_word(2)[of w "'' ''" "CHR '' ''"] wordD[of w] by simp
next
  case (3 w v ws)
  then show ?case using tokens_word(1)[of w "'' ''" "CHR '' ''"] wordD[of w] by simp
qed

lemma listToVector_words:
  assumes "\<forall>w\<in>set ws. word w"
  shows "listToVector (join '' '' ws) '' '' = ws"
proof -
  have "CHR 0x00 \<notin> set (join '' '' ws)"
    using set_join[of "'' ''" ws] assms wordD(4) by auto
  then show ?thesis using tokens_words[OF assms] by (simp add: listToVector_def c_str_id)
qed

definition field_words :: "field \<Rightarrow> string list" where
  "field_words f = [f_name f, getTypeStr (f_type f)]
     @ (if isPrimaryKey f then [''PRIMARY'', ''KEY''] else [])
     @ (if isNotNull f then [''NOT'', ''NULL''] else [])
     @ (if isUnique f then [''UNIQUE''] else [])"

definition plain_field :: "field \<Rightarrow> bool" where
  "plain_field f \<longleftrightarrow> word (f_name f) \<and> f_type f \<noteq> type_undefined"

lemma keyword_words: "word ''PRIMARY''" "word ''KEY''" "word ''NOT''" "word ''NULL''" "word ''UNIQUE''"
  "ty \<noteq> type_undefined \<Longrightarrow> word (getTypeStr ty)"
  by (simp_all add: word_def isspace_def) (cases ty; simp add: isspace_def)

lemma field_words_word: "plain_field f \<Longrightarrow> \<forall>w\<in>set (field_words f). word w"
  by (auto simp: field_words_def plain_field_def keyword_words)

lemma trim_join:
  assumes "\<forall>w\<in>set ws. word w" "ws \<noteq> []"
  shows "trim (join '' '' ws) = join '' '' ws"
proof (rule trim_id)
  have "join '' '' ws \<noteq> [] \<and> hd (join '' '' ws) = hd (hd ws) \<and> last (join '' '' ws) = last (last ws)"
    using assms by (induction "'' ''" ws rule: join.induct) (auto simp: wordD)
  moreover have "word (hd ws)" "word (last ws)" using assms by simp_all
  ultimately show "join '' '' ws \<noteq> []" "\<not> isspace (hd (join '' '' ws))" "\<not> isspace (last (join '' '' ws))"
    by (auto simp: word_def)
qed

lemma Field_getDefinition_words:
  assumes "plain_field f"
  shows "Field_getDefinition f = join '' '' (field_words f)"
proof -
  have "f_name f @ '' '' @ getTypeStr (f_type f) @ (if isPrimaryKey f then '' PRIMARY KEY'' else [])
      @ (if isNotNull f then '' NOT NULL'' else []) @ (if isUnique f then '' UNIQUE'' else []) =
      join '' '' (field_words f)"
    by (cases "isPrimaryKey f"; cases "isNotNull f"; cases "isUnique f") (simp_all add: field_words_def)
  moreover have "field_words f \<noteq> []" by (simp add: field_words_def)
  ultimately show ?thesis
    using trim_join[OF field_words_word[OF assms] \<open>field_words f \<noteq> []\<close>] by (simp only: Field_getDefinition_def)
qed

text \<open>The field that the text of a field is read back as.\<close>

definition stored_type :: "field_type \<Rightarrow> field_type" where
  "stored_type ty = (if ty = type_bool \<or> ty = type_time then type_int else ty)"

definition reparsed :: "field \<Rightarrow> field" where
  "reparsed f = (if isPrimaryKey f then Field_of_use FIELD_KEY
     else Field (f_name f) (stored_type (f_type f))
       (if isNotNull f then flag_not_null else if isUnique f then flag_unique else flag_none) FIELD_DEFAULT)"

lemma parse_type_stored: "ty \<noteq> type_undefined \<Longrightarrow> parse_type (getTypeStr ty) = stored_type ty"
  by (cases ty) (simp_all add: parse_type_def stored_type_def)

lemma Field_reparsed:
  assumes "plain_field f"
  shows "Field_createFromDefinition (Field_getDefinition f) = Some (reparsed f)"
proof -
  have "listToVector (Field_getDefinition f) '' '' = field_words f"
    using Field_getDefinition_words[OF assms] listToVector_words[OF field_words_word[OF assms]] by simp
  moreover have "stored_type (f_type f) \<noteq> type_undefined" "f_name f \<noteq> []"
    using assms wordD(1) by (auto simp: plain_field_def stored_type_def)
  ultimately show ?thesis
    using assms unfolding Field_createFromDefinition_def
    by (auto simp: field_words_def reparsed_def parse_type_stored plain_field_def parse_flags_def flag_defs)
qed

subsection \<open>Field sets\<close>

lemma separated_loop:
  "concat (map (\<lambda>i. text (xs ! i) @ (if int i < int (length xs) - 1 then sep else [])) [0..<length xs]) = join sep (map text xs)"
proof (induction xs rule: induct_list012)
  case (3 x y zs)
  have "[0..<length (x # y # zs)] = 0 # map Suc [0..<length (y # zs)]"
    by (simp add: upt_conv_Cons map_Suc_upt del: upt_Suc)
  then show ?case using 3(2) by (simp add: o_def del: upt_Suc)
qed simp_all

lemma comma_loop_join: "comma_loop text fs = join '', '' (map text (fs_vec fs))"
proof -
  have "comma_loop text fs = concat (map (\<lambda>i. text (fs_vec fs ! i) @
      (if int i < int (length (fs_vec fs)) - 1 then '', '' else [])) [0..<length (fs_vec fs)])"
    unfolding comma_loop_def fs_count_def getByIndex_def
    by (intro arg_cong[where f = concat] map_cong refl) simp
  then show ?thesis by (simp only: separated_loop)
qed

text \<open>What stands between two commas.\<close>

definition clause :: "string \<Rightarrow> bool" where
  "clause d \<longleftrightarrow> d \<noteq> [] \<and> CHR '','' \<notin> set d \<and> CHR 0x00 \<notin> set d \<and> trim d = d"

lemma trim_blank: "trim (CHR '' '' # d) = trim d"
  by (simp add: trim_def trimleft_def)

lemma tokens_clauses:
  "\<forall>d\<in>set ds. clause d \<Longrightarrow> tokens '','' (join '', '' ds) = ds \<and> (ds \<noteq> [] \<longrightarrow> tokens '','' (CHR '' '' # join '', '' ds) = ds)"
proof (induction "'', ''" ds rule: join.induct)
  case 1
  then show ?case by (subst tokens.simps) (simp add: strtok_def)
next
  case (2 d)
  then show ?case
    using tokens_word(2)[of d "'',''" "CHR '',''"] tokens_word(2)[of "CHR '' '' # d" "'',''" "CHR '',''"]
    by (auto simp: clause_def trim_blank)
next
  case (3 d e ds)
  then show ?case
    using tokens_word(1)[of d "'',''" "CHR '',''"] tokens_word(1)[of "CHR '' '' # d" "'',''" "CHR '',''"]
    by (auto simp: clause_def trim_blank)
qed

lemma listToVector_clauses:
  assumes "\<forall>d\<in>set ds. clause d"
  shows "listToVector (join '', '' ds) '','' = ds"
proof -
  have "CHR 0x00 \<notin> set (join '', '' ds)"
    using set_join[of "'', ''" ds] assms by (auto simp: clause_def)
  then show ?thesis using tokens_clauses[OF assms] by (simp add: listToVector_def c_str_id)
qed

lemma clause_field: "plain_field f \<Longrightarrow> clause (Field_getDefinition f)"
proof -
  assume f: "plain_field f"
  let ?ws = "field_words f"
  have w: "\<forall>w\<in>set ?ws. word w" "?ws \<noteq> []" using field_words_word[OF f] by (simp_all add: field_words_def)
  have "f_name f \<noteq> []" using f wordD(1) by (simp add: plain_field_def)
  then have "join '' '' ?ws \<noteq> []" by (simp add: field_words_def)
  moreover have "CHR '','' \<notin> set (join '' '' ?ws)" "CHR 0x00 \<notin> set (join '' '' ?ws)"
    using set_join[of "'' ''" ?ws] w(1) by (auto simp: word_def)
  ultimately show ?thesis
    using trim_join[OF w] by (simp add: clause_def Field_getDefinition_words[OF f])
qed

lemma parse_fields_all: "\<forall>f\<in>set fs. plain_field f \<Longrightarrow> parse_fields (map Field_getDefinition fs) = Some (map reparsed fs)"
  by (induction fs) (simp_all add: Field_reparsed)

lemma FieldSet_reparsed:
  assumes "\<forall>f\<in>set (fs_vec fs). plain_field f"
  shows "FieldSet_createFromDefinition (FieldSet_getDefinition fs) = Some (FieldSet_copy (map reparsed (fs_vec fs)))"
proof -
  have "listToVector (FieldSet_getDefinition fs) '','' = map Field_getDefinition (fs_vec fs)"
    unfolding FieldSet_getDefinition_def comma_loop_join
    by (rule listToVector_clauses) (use assms clause_field in auto)
  then show ?thesis by (simp add: FieldSet_createFromDefinition_def parse_fields_all[OF assms])
qed

lemma getByName_copy: "getByName n (FieldSet_copy fl) = find (\<lambda>f. f_name f = n) (rev fl)"
proof -
  have "foldl (\<lambda>m f. m(f_name f \<mapsto> f)) m fl n =
      (case find (\<lambda>f. f_name f = n) (rev fl) of None \<Rightarrow> m n | Some f \<Rightarrow> Some f)" for m
    by (induction fl rule: rev_induct) auto
  then show ?thesis by (simp add: getByName_def FieldSet_copy_def split: option.split)
qed

subsection \<open>Properties\<close>

definition demo_fields :: "field list" where
  "demo_fields = [Field_of_use FIELD_KEY, Field ''path'' type_text (flag_not_null + flag_unique) FIELD_DEFAULT,
     Field ''hidden'' type_bool flag_unique FIELD_DEFAULT, Field_of_use DEFINITION_END]"



end
