(* ===== verification/Sql_Records.thy ===== *)
theory Sql_Records
  imports Sql_Fields
begin

unbundle bit_operations_syntax

text \<open>
  \<open>easySQLite/SqlValue.cpp\<close>, \<open>SqlRecord.cpp\<close>, \<open>SqlRecordSet.cpp\<close> and \<open>SqlTable.cpp\<close>: the
  values of a row as text, the records that become INSERT and UPDATE statements, the
  records that a query delivers, and the operations on a table.

  The engine is a parameter: \<open>sqlite3_exec\<close> takes the state of the engine and a statement
  and yields the result code, the rows given to the callback, and the error text.
  Floating point conversions are parameters as well, so that no arithmetic of doubles is
  modelled.
\<close>

subsection \<open>What the C library does with times and doubles\<close>

record 'd libc =
  lc_strftime :: strftime
  lc_atof :: "string \<Rightarrow> 'd"
  lc_fmt8 :: "'d \<Rightarrow> string"
  lc_eq :: "'d \<Rightarrow> 'd \<Rightarrow> bool"
  lc_zero :: 'd

subsection \<open>Value\<close>

record sqlvalue =
  v_value :: string
  v_null :: bool
  v_type :: field_type

definition setValue :: "string option \<Rightarrow> field_type \<Rightarrow> sqlvalue \<Rightarrow> sqlvalue" where
  "setValue value ty v =
    (let v = v\<lparr>v_null := True, v_value := [], v_type := ty\<rparr>
     in case value of
          None \<Rightarrow> v
        | Some s \<Rightarrow> (let v = v\<lparr>v_type := ty, v_null := False\<rparr>
                   in if ty = type_blob then v else v\<lparr>v_value := c_str s\<rparr>))"

definition new_value :: sqlvalue where
  "new_value = setValue None type_undefined \<lparr>v_value = [], v_null = True, v_type = type_undefined\<rparr>"

definition value_asInteger :: "sqlvalue \<Rightarrow> int" where
  "value_asInteger v = (if v_null v then 0 else atoll (v_value v))"

definition value_asString :: "'d libc \<Rightarrow> sqlvalue \<Rightarrow> string" where
  "value_asString C v =
    (if v_type v = type_time then time_asString (lc_strftime C) (time_of (value_asInteger v)) else v_value v)"

definition value_asBlob :: "'d libc \<Rightarrow> sqlvalue \<Rightarrow> string" where
  "value_asBlob C v =
    (if v_type v = type_time then time_asString (lc_strftime C) (time_of (value_asInteger v)) else v_value v)"

definition value_asDouble :: "'d libc \<Rightarrow> sqlvalue \<Rightarrow> 'd" where
  "value_asDouble C v = (if v_null v then lc_zero C else lc_atof C (c_str (v_value v)))"

definition value_asBool :: "sqlvalue \<Rightarrow> bool" where
  "value_asBool v = (if v_null v then False else v_value v = ''1'')"

definition value_asTime :: "sqlvalue \<Rightarrow> sqltime" where
  "value_asTime v = time_of (value_asInteger v)"

text \<open>\<open>asTime()\<close> returns temporaries, so the two operands of \<open>==\<close> are never the same object.\<close>

definition value_equals :: "'d libc \<Rightarrow> sqlvalue \<Rightarrow> sqlvalue \<Rightarrow> bool" where
  "value_equals C this value =
    (if v_null this \<and> v_null value then True
     else case v_type this of
         type_int \<Rightarrow> value_asInteger this = value_asInteger value
       | type_blob \<Rightarrow> value_asString C this = value_asString C value
       | type_text \<Rightarrow> value_asString C this = value_asString C value
       | type_float \<Rightarrow> lc_eq C (value_asDouble C this) (value_asDouble C value)
       | type_bool \<Rightarrow> value_asBool this = value_asBool value
       | type_time \<Rightarrow> time_eq False (value_asTime this) (value_asTime value)
       | type_undefined \<Rightarrow> False)"

definition value_toSql :: "'d libc \<Rightarrow> field_type \<Rightarrow> sqlvalue \<Rightarrow> string" where
  "value_toSql C ty v =
    (if v_null v then ''null''
     else if ty = type_text then [CHR 0x27] @ quoteStr (value_asString C v) @ [CHR 0x27]
     else if ty = type_blob then
       [CHR ''x'', CHR 0x27] @ binToHex (string_bytes (v_value v)) (length (v_value v)) @ [CHR 0x27]
     else if v_type v = type_time then intToStr (value_asInteger v)
     else value_asString C v)"

definition value_toString :: "'d libc \<Rightarrow> sqlvalue \<Rightarrow> string" where
  "value_toString C v = (if v_null v then ''null'' else value_asString C v)"

definition value_setNull :: "sqlvalue \<Rightarrow> sqlvalue" where
  "value_setNull v = v\<lparr>v_null := True, v_value := []\<rparr>"

definition value_setString :: "string \<Rightarrow> sqlvalue \<Rightarrow> sqlvalue" where
  "value_setString s v = v\<lparr>v_null := False, v_value := s\<rparr>"

definition value_setBlob :: "string \<Rightarrow> sqlvalue \<Rightarrow> sqlvalue" where
  "value_setBlob s v = v\<lparr>v_null := False, v_value := s\<rparr>"

text \<open>\<open>%d\<close> prints an \<open>int\<close>: of the 64 bit argument the register's lower half.\<close>

definition value_setInteger :: "int \<Rightarrow> sqlvalue \<Rightarrow> sqlvalue" where
  "value_setInteger i v = v\<lparr>v_null := False, v_value := take 127 (dec_int (int32 i))\<rparr>"

definition value_setDouble :: "'d libc \<Rightarrow> 'd \<Rightarrow> sqlvalue \<Rightarrow> sqlvalue" where
  "value_setDouble C d v = v\<lparr>v_null := False, v_value := take 127 (lc_fmt8 C d)\<rparr>"

definition value_setBool :: "bool \<Rightarrow> sqlvalue \<Rightarrow> sqlvalue" where
  "value_setBool b v = v\<lparr>v_null := False, v_value := (if b then ''1'' else ''0'')\<rparr>"

definition value_setTime :: "sqltime \<Rightarrow> sqlvalue \<Rightarrow> sqlvalue" where
  "value_setTime t v = value_setInteger (time_asInteger t) (v\<lparr>v_null := False\<rparr>)"

subsection \<open>Record\<close>

record sqlrecord =
  r_fields :: fieldset
  r_values :: "sqlvalue list"

definition initColumnCount :: "nat \<Rightarrow> sqlrecord \<Rightarrow> sqlrecord" where
  "initColumnCount columns r =
    r\<lparr>r_values := take columns (r_values r) @ replicate (columns - length (r_values r)) new_value\<rparr>"

definition new_record :: "fieldset \<Rightarrow> sqlrecord" where
  "new_record fs = initColumnCount (fs_count fs) \<lparr>r_fields = fs, r_values = []\<rparr>"

definition copy_record :: "sqlrecord \<Rightarrow> sqlrecord" where
  "copy_record r =
    (initColumnCount (fs_count (r_fields r)) \<lparr>r_fields = r_fields r, r_values = []\<rparr>)\<lparr>r_values := r_values r\<rparr>"

definition initColumnValue :: "nat \<Rightarrow> string option \<Rightarrow> field_type \<Rightarrow> sqlrecord \<Rightarrow> sqlrecord" where
  "initColumnValue column_index value ty r =
    r\<lparr>r_values := (r_values r)[column_index := setValue value ty (r_values r ! column_index)]\<rparr>"

definition columnCount :: "sqlrecord \<Rightarrow> nat" where
  "columnCount r = length (r_values r)"

definition getValue :: "int \<Rightarrow> sqlrecord \<Rightarrow> sqlvalue option" where
  "getValue column_index r =
    (if column_index \<ge> 0 \<and> column_index < int (length (r_values r))
     then Some (r_values r ! nat column_index) else None)"

definition getValueByName :: "string \<Rightarrow> sqlrecord \<Rightarrow> sqlvalue option" where
  "getValueByName fieldName r =
    (case getByName fieldName (r_fields r) of None \<Rightarrow> None | Some f \<Rightarrow> getValue (f_index f) r)"

text \<open>The loop of \<open>getKeyIdValue\<close> returns at the first key field.\<close>

definition getKeyIdValue :: "sqlrecord \<Rightarrow> sqlvalue option" where
  "getKeyIdValue r =
    (case find isKeyIdField (fs_vec (r_fields r)) of None \<Rightarrow> None | Some f \<Rightarrow> getValue (f_index f) r)"

definition record_toString :: "'d libc \<Rightarrow> sqlrecord \<Rightarrow> string" where
  "record_toString C r = concat (map (\<lambda>column. case getValue (int column) r of None \<Rightarrow> []
     | Some v \<Rightarrow> value_toString C v @ (if int column < int (columnCount r) - 1 then ''|'' else [])) [0..<columnCount r])"

text \<open>One turn of the loop of \<open>toSql\<close>; a field without a value adds nothing, no comma either.\<close>

definition toSql_step :: "'d libc \<Rightarrow> sqlrecord \<Rightarrow> nat \<Rightarrow> string" where
  "toSql_step C r index =
    (case getByIndex (int index) (r_fields r) of None \<Rightarrow> []
     | Some f \<Rightarrow> (case getValueByName (f_name f) r of None \<Rightarrow> []
       | Some v \<Rightarrow> value_toSql C (f_type f) v @ (if int index < int (fs_count (r_fields r)) - 1 then '', '' else [])))"

definition record_toSql :: "'d libc \<Rightarrow> sqlrecord \<Rightarrow> string" where
  "record_toSql C r = concat (map (toSql_step C r) [0..<fs_count (r_fields r)])"

text \<open>The setters by index: nothing happens for an index without a value.\<close>

definition set_at :: "int \<Rightarrow> (sqlvalue \<Rightarrow> sqlvalue) \<Rightarrow> sqlrecord \<Rightarrow> sqlrecord" where
  "set_at index f r =
    (case getValue index r of None \<Rightarrow> r | Some v \<Rightarrow> r\<lparr>r_values := (r_values r)[nat index := f v]\<rparr>)"

definition record_setNull :: "int \<Rightarrow> sqlrecord \<Rightarrow> sqlrecord" where
  "record_setNull index = set_at index value_setNull"

definition record_setString :: "int \<Rightarrow> string \<Rightarrow> sqlrecord \<Rightarrow> sqlrecord" where
  "record_setString index s = set_at index (value_setString s)"

definition record_setBlob :: "int \<Rightarrow> string \<Rightarrow> sqlrecord \<Rightarrow> sqlrecord" where
  "record_setBlob index s = set_at index (value_setBlob s)"

definition record_setInteger :: "int \<Rightarrow> int \<Rightarrow> sqlrecord \<Rightarrow> sqlrecord" where
  "record_setInteger index i = set_at index (value_setInteger i)"

definition record_setDouble :: "'d libc \<Rightarrow> int \<Rightarrow> 'd \<Rightarrow> sqlrecord \<Rightarrow> sqlrecord" where
  "record_setDouble C index d = set_at index (value_setDouble C d)"

definition record_setBool :: "int \<Rightarrow> bool \<Rightarrow> sqlrecord \<Rightarrow> sqlrecord" where
  "record_setBool index b = set_at index (value_setBool b)"

definition record_setTime :: "int \<Rightarrow> sqltime \<Rightarrow> sqlrecord \<Rightarrow> sqlrecord" where
  "record_setTime index t = set_at index (value_setTime t)"

definition fieldByName :: "string \<Rightarrow> sqlrecord \<Rightarrow> cpp_exn + field" where
  "fieldByName fieldName r =
    (case getByName fieldName (r_fields r) of
       Some f \<Rightarrow> Inr f
     | None \<Rightarrow> Inl (SqlException (''Record::fieldByName: field '' @ [CHR 0x27] @ fieldName @ [CHR 0x27] @ '' not found'')))"

text \<open>The setters by name: look the field up, then set by its index.\<close>

definition by_name :: "string \<Rightarrow> (int \<Rightarrow> sqlrecord \<Rightarrow> sqlrecord) \<Rightarrow> sqlrecord \<Rightarrow> cpp_exn + sqlrecord" where
  "by_name fieldName upd r =
    (case fieldByName fieldName r of Inl e \<Rightarrow> Inl e | Inr f \<Rightarrow> Inr (upd (f_index f) r))"

definition setNull_name :: "string \<Rightarrow> sqlrecord \<Rightarrow> cpp_exn + sqlrecord" where
  "setNull_name n = by_name n record_setNull"

definition setString_name :: "string \<Rightarrow> string \<Rightarrow> sqlrecord \<Rightarrow> cpp_exn + sqlrecord" where
  "setString_name n s = by_name n (\<lambda>i. record_setString i s)"

definition setInteger_name :: "string \<Rightarrow> int \<Rightarrow> sqlrecord \<Rightarrow> cpp_exn + sqlrecord" where
  "setInteger_name n k = by_name n (\<lambda>i. record_setInteger i k)"

definition setDouble_name :: "'d libc \<Rightarrow> string \<Rightarrow> 'd \<Rightarrow> sqlrecord \<Rightarrow> cpp_exn + sqlrecord" where
  "setDouble_name C n d = by_name n (\<lambda>i. record_setDouble C i d)"

definition setBool_name :: "string \<Rightarrow> bool \<Rightarrow> sqlrecord \<Rightarrow> cpp_exn + sqlrecord" where
  "setBool_name n b = by_name n (\<lambda>i. record_setBool i b)"

definition setTime_name :: "string \<Rightarrow> sqltime \<Rightarrow> sqlrecord \<Rightarrow> cpp_exn + sqlrecord" where
  "setTime_name n t = by_name n (\<lambda>i. record_setTime i t)"

definition toSqlInsert :: "'d libc \<Rightarrow> string \<Rightarrow> sqlrecord \<Rightarrow> string" where
  "toSqlInsert C tableName r =
    ''insert into '' @ tableName @ '' '' @ ''('' @ FieldSet_toString (r_fields r) @ '')'' @ '' values ''
      @ ''('' @ record_toSql C r @ '')''"

definition toSqlUpdate_step :: "'d libc \<Rightarrow> sqlrecord \<Rightarrow> nat \<Rightarrow> string" where
  "toSqlUpdate_step C r index =
    (case getByIndex (int index) (r_fields r) of None \<Rightarrow> []
     | Some f \<Rightarrow> if isKeyIdField f then []
       else (case getValueByName (f_name f) r of None \<Rightarrow> []
         | Some v \<Rightarrow> f_name f @ ''='' @ value_toSql C (f_type f) v
             @ (if int index < int (fs_count (r_fields r)) - 1 then '', '' else [])))"

definition toSqlUpdate :: "'d libc \<Rightarrow> string \<Rightarrow> sqlrecord \<Rightarrow> string" where
  "toSqlUpdate C tableName r =
    ''update '' @ tableName @ '' set ''
      @ concat (map (toSqlUpdate_step C r) [0..<fs_count (r_fields r)])
      @ (case getKeyIdValue r of None \<Rightarrow> [] | Some v \<Rightarrow> '' where _ID = '' @ value_toSql C type_int v)"

definition equalsColumnValue :: "'d libc \<Rightarrow> sqlrecord option \<Rightarrow> string \<Rightarrow> sqlrecord \<Rightarrow> bool" where
  "equalsColumnValue C other fieldName this =
    (case other of None \<Rightarrow> False
     | Some o2 \<Rightarrow> (case getValueByName fieldName this of None \<Rightarrow> False
       | Some v1 \<Rightarrow> (case getValueByName fieldName o2 of None \<Rightarrow> False | Some v2 \<Rightarrow> value_equals C v1 v2)))"

text \<open>The loop of \<open>equalsValues\<close> goes on unless two values differ.\<close>

definition equalsValues :: "'d libc \<Rightarrow> sqlrecord option \<Rightarrow> sqlrecord \<Rightarrow> bool" where
  "equalsValues C other this =
    (case other of None \<Rightarrow> False
     | Some o2 \<Rightarrow> list_all (\<lambda>f. isKeyIdField f \<or>
         (case getValueByName (f_name f) this of None \<Rightarrow> True
          | Some v1 \<Rightarrow> (case getValueByName (f_name f) o2 of None \<Rightarrow> True | Some v2 \<Rightarrow> value_equals C v1 v2)))
         (fs_vec (r_fields this)))"

subsection \<open>Integers as text\<close>

lemma length_dec_nat: "n < 10 ^ k \<Longrightarrow> 0 < k \<Longrightarrow> length (dec_nat n) \<le> k"
proof (induction n arbitrary: k rule: dec_nat.induct)
  case (1 n)
  show ?case
  proof (cases "n < 10")
    case True
    then show ?thesis using 1(3) by (subst dec_nat.simps) simp
  next
    case False
    then have "k \<noteq> 1" using 1(2) by (intro notI) simp
    then obtain j where k: "k = Suc j" "0 < j" using 1(3) by (cases k) auto
    then have "length (dec_nat (n div 10)) \<le> j" using 1(1)[OF False] 1(2) by (auto simp: less_mult_imp_div_less mult.commute)
    with False k show ?thesis by (subst dec_nat.simps) simp
  qed
qed

lemma length_dec_int: "- (2 ^ 63) \<le> i \<Longrightarrow> i < 2 ^ 63 \<Longrightarrow> length (dec_int i) \<le> 31"
proof -
  assume "- (2 ^ 63) \<le> i" "i < 2 ^ 63"
  then have "nat (- i) < 10 ^ 30" "nat i < 10 ^ 30" by auto
  then show ?thesis using length_dec_nat[of "nat (- i)" 30] length_dec_nat[of "nat i" 30] by (auto simp: dec_int_def)
qed

lemma value_asInteger_setInteger: "value_asInteger (value_setInteger i v) = int32 i"
proof -
  have r: "- (2 ^ 63) \<le> int32 i" "int32 i < 2 ^ 63" using int32_range[of i] by auto
  then show ?thesis
    using length_dec_int[OF r] atoll_dec_int[OF r] by (simp add: value_asInteger_def value_setInteger_def)
qed

lemma value_toSql_setInteger:
  "v_type v = type_int \<Longrightarrow> value_toSql C type_int (value_setInteger i v) = dec_int (int32 i)"
proof -
  have r: "- (2 ^ 63) \<le> int32 i" "int32 i < 2 ^ 63" using int32_range[of i] by auto
  then show "v_type v = type_int \<Longrightarrow> ?thesis"
    using length_dec_int[OF r] by (simp add: value_toSql_def value_setInteger_def value_asString_def)
qed

subsection \<open>Statements\<close>

lemma array_loop_Ok:
  assumes "array_loop k def fs = Ok fs'" "k = int (length (fs_vec fs))"
  shows "\<exists>fl. fs_vec fs' = fs_vec fs @ map (\<lambda>(i, f). f\<lparr>f_index := int i\<rparr>) (enumerate (length (fs_vec fs)) fl) \<and>
    fl = takeWhile (\<lambda>f. \<not> isEndingField f) def \<and>
    fs_map fs' = foldl (\<lambda>m f. m(f_name f \<mapsto> f)) (fs_map fs)
      (map (\<lambda>(i, f). f\<lparr>f_index := int i\<rparr>) (enumerate (length (fs_vec fs)) fl))"
  using assms
proof (induction k def fs rule: array_loop.induct)
  case (2 k f def fs)
  show ?case
  proof (cases "isEndingField f")
    case True
    with 2 show ?thesis by simp
  next
    case False
    with 2 show ?thesis by (auto simp: add.commute)
  qed
qed simp

text \<open>A set of fields as a table has it: every name once, every index its position.\<close>

definition indexed :: "fieldset \<Rightarrow> bool" where
  "indexed fs \<longleftrightarrow> (\<forall>i<fs_count fs. f_index (fs_vec fs ! i) = int i \<and> fs_map fs (f_name (fs_vec fs ! i)) = Some (fs_vec fs ! i))"

lemma foldl_names:
  "distinct (map f_name fl) \<Longrightarrow> i < length fl \<Longrightarrow> foldl (\<lambda>m f. m(f_name f \<mapsto> f)) m fl (f_name (fl ! i)) = Some (fl ! i)"
proof (induction fl rule: rev_induct)
  case (snoc f fl)
  have "f_name (fl ! i) \<noteq> f_name f" if "i < length fl"
    using snoc.prems(1) nth_mem[OF that] by (auto simp: image_iff)
  with snoc show ?case by (cases "i = length fl") (auto simp: nth_append)
qed simp

lemma indexed_array:
  assumes "FieldSet_of_array (Some def) = Ok fs" "distinct (map f_name (fs_vec fs))"
  shows "indexed fs"
proof -
  from assms(1) have "array_loop 0 def \<lparr>fs_vec = [], fs_map = Map.empty\<rparr> = Ok fs" by (simp add: FieldSet_of_array_def)
  from array_loop_Ok[OF this] obtain fl where
    vec: "fs_vec fs = map (\<lambda>(i, f). f\<lparr>f_index := int i\<rparr>) (enumerate 0 fl)" and
    map: "fs_map fs = foldl (\<lambda>m f. m(f_name f \<mapsto> f)) Map.empty (fs_vec fs)" by auto
  show ?thesis
    using foldl_names[OF assms(2)] map by (auto simp: indexed_def fs_count_def vec nth_enumerate_eq)
qed

lemma getValueByName_indexed:
  assumes "indexed fs" "r_fields r = fs" "length (r_values r) = fs_count fs" "i < fs_count fs"
  shows "getValueByName (f_name (fs_vec fs ! i)) r = Some (r_values r ! i)"
  using assms by (auto simp: indexed_def getValueByName_def getByName_def getValue_def)

lemma record_toSql_indexed:
  assumes "indexed fs" "r_fields r = fs" "length (r_values r) = fs_count fs"
  shows "record_toSql C r = join '', '' (map2 (\<lambda>f v. value_toSql C (f_type f) v) (fs_vec fs) (r_values r))"
proof -
  let ?ps = "zip (fs_vec fs) (r_values r)"
  have n: "length ?ps = fs_count fs" using assms(3) by (simp add: fs_count_def)
  have "record_toSql C r = concat (map (\<lambda>i. (case ?ps ! i of (f, v) \<Rightarrow> value_toSql C (f_type f) v) @
      (if int i < int (length ?ps) - 1 then '', '' else [])) [0..<length ?ps])"
    unfolding record_toSql_def n assms(2)
    using assms getValueByName_indexed[OF assms]
    by (intro arg_cong[where f = concat] map_cong refl)
       (auto simp: toSql_step_def getByIndex_def fs_count_def)
  also have "\<dots> = join '', '' (map (\<lambda>(f, v). value_toSql C (f_type f) v) ?ps)"
    by (rule separated_loop)
  finally show ?thesis .
qed

lemma no_values:
  assumes "\<forall>f\<in>set (fs_vec fs). f_index f = -1" "r_fields r = FieldSet_copy (fs_vec fs)"
  shows "getValueByName n r = None" and "getKeyIdValue r = None"
proof -
  have "find P xs = Some f \<Longrightarrow> f \<in> set xs" for P and f :: field and xs by (auto simp: find_Some_iff)
  then show "getValueByName n r = None" "getKeyIdValue r = None"
    using assms getByName_copy[of n "fs_vec fs"]
    by (auto simp: getValueByName_def getKeyIdValue_def getValue_def FieldSet_copy_def split: option.split) force+
qed

lemma reparsed_index [simp]: "f_index (reparsed f) = -1"
  by (simp add: reparsed_def Field_of_use_def Field_def)

lemma FieldSet_copy_vec [simp]: "fs_vec (FieldSet_copy fl) = fl"
  by (simp add: FieldSet_copy_def)

definition demo_libc :: "int libc" where
  "demo_libc = \<lparr>lc_strftime = (\<lambda>_ _. None), lc_atof = atoll, lc_fmt8 = dec_int, lc_eq = (=), lc_zero = 0\<rparr>"

lemma update_key_last:
  "\<exists>fs. FieldSet_of_array (Some [Field ''n'' type_int 0 FIELD_DEFAULT, Field_of_use FIELD_KEY, Field_of_use DEFINITION_END]) = Ok fs \<and>
     toSqlUpdate demo_libc ''t'' (record_setInteger 1 5 (record_setInteger 0 7 (new_record fs))) = ''update t set n=7,  where _ID = 5''"
  by (simp add: FieldSet_of_array_def isEndingField_def Field_def Field_of_use_def) code_simp

subsection \<open>Properties\<close>



text \<open>Fields that were parsed from a definition all have the index -1, so no record over them gives a
  value by name: the INSERT statement has an empty list of values, and the UPDATE statement sets nothing and
  has no WHERE clause.\<close>

theorem parsed_fields_lose_values:
  assumes "\<forall>f\<in>set (fs_vec fs). plain_field f"
    and "FieldSet_createFromDefinition (FieldSet_getDefinition fs) = Some gs" and "r_fields r = gs"
  shows "getValueByName n r = None \<and>
    toSqlInsert C tab r = ''insert into '' @ tab @ '' ('' @ FieldSet_toString gs @ '') values ()'' \<and>
    toSqlUpdate C tab r = ''update '' @ tab @ '' set ''"
proof -
  have gs: "gs = FieldSet_copy (map reparsed (fs_vec fs))"
    using FieldSet_reparsed[OF assms(1)] assms(2) by simp
  then have none: "getValueByName n r = None" "getKeyIdValue r = None" for n
    using no_values[of gs r] assms(3) by auto
  have "toSql_step C r i = []" "toSqlUpdate_step C r i = []" for i
    by (simp_all add: toSql_step_def toSqlUpdate_step_def none split: option.split)
  then have "record_toSql C r = []" "concat (map (toSqlUpdate_step C r) [0..<fs_count (r_fields r)]) = []"
    by (simp_all add: record_toSql_def)
  then show ?thesis using none assms(3) by (simp add: toSqlInsert_def toSqlUpdate_def)
qed

theorem parsed_fields_lose_values_witness:
  "\<exists>fs gs r. FieldSet_of_array (Some demo_fields) = Ok fs \<and>
     FieldSet_createFromDefinition (FieldSet_getDefinition fs) = Some gs \<and>
     r = record_setString 1 ''a'' (record_setInteger 0 7 (new_record gs)) \<and> getValueByName ''path'' r = None \<and>
     toSqlInsert demo_libc ''files'' r = ''insert into files (_ID, path, hidden) values ()''"
proof -
  obtain fs where fs: "FieldSet_of_array (Some demo_fields) = Ok fs"
      and vec: "fs_vec fs = [(Field_of_use FIELD_KEY)\<lparr>f_index := 0\<rparr>,
      (Field ''path'' type_text (flag_not_null + flag_unique) FIELD_DEFAULT)\<lparr>f_index := 1\<rparr>,
      (Field ''hidden'' type_bool flag_unique FIELD_DEFAULT)\<lparr>f_index := 2\<rparr>]"
    by (auto simp: FieldSet_of_array_def demo_fields_def isEndingField_def Field_def Field_of_use_def)
  have plain: "\<forall>f\<in>set (fs_vec fs). plain_field f"
    unfolding vec by (simp add: plain_field_def word_def isspace_def Field_def Field_of_use_def)
  define gs where "gs = FieldSet_copy (map reparsed (fs_vec fs))"
  define r where "r = record_setString 1 ''a'' (record_setInteger 0 7 (new_record gs))"
  have rf: "r_fields r = gs"
    by (simp add: r_def record_setString_def record_setInteger_def set_at_def getValue_def new_record_def initColumnCount_def)
  have "FieldSet_toString gs = ''_ID, path, hidden''"
    by (simp add: FieldSet_toString_def comma_loop_join gs_def vec reparsed_def isPrimaryKey_def flag_defs Field_def Field_of_use_def)
  then show ?thesis
    using parsed_fields_lose_values[OF plain FieldSet_reparsed[OF plain], of r "''path''" demo_libc "''files''"]
      fs rf FieldSet_reparsed[OF plain] by (auto simp: r_def gs_def)
qed

text \<open>An integer or time stored in a value comes back reduced to 32 bits: the conversion \<open>%d\<close> of
  \<open>setInteger\<close> prints only the lower half of a 64 bit number.\<close>

theorem setInteger_32_bits:
  "value_asInteger (value_setInteger i v) = int32 i \<and>
   value_asTime (value_setTime t v) = time_of (int32 (tm_value t)) \<and>
   value_asInteger (value_setInteger (2 ^ 32) v) = 0"
proof -
  have "int32 (2 ^ 32) = 0" by (simp add: int32_def)
  then show ?thesis
    using value_asInteger_setInteger by (simp add: value_asTime_def value_setTime_def time_asInteger_def)
qed

end
