(* ===== verification/Sql_Tables.thy ===== *)
theory Sql_Tables
  imports Sql_Records
begin

text \<open>
  \<open>easySQLite/SqlRecordSet.cpp\<close> and \<open>SqlTable.cpp\<close>: queries and tables.  A record set or
  table is run together with the state of the engine, \<open>'e\<close>; the engine's \<open>sqlite3_exec\<close>
  is a parameter of every operation that queries.  It takes a statement and yields the
  result code, the rows it hands to the callback (columns that are NULL are \<open>None\<close>) and
  the error text.

  The lemmas show that the records of a table keep the column types of its fields through
  all operations.
\<close>

type_synonym 'e engine = "string \<Rightarrow> 'e \<Rightarrow> (int \<times> string option list list \<times> string option) \<times> 'e"

definition SQLITE_OK :: int where "SQLITE_OK = 0"
definition SQLITE_ERROR :: int where "SQLITE_ERROR = 1"

subsection \<open>RecordSet\<close>

record recordset =
  rs_fields :: fieldset
  rs_records :: "sqlrecord list"
  rs_result :: int
  rs_err :: string

definition new_recordset :: "fieldset \<Rightarrow> recordset" where
  "new_recordset fs = \<lparr>rs_fields = fs, rs_records = [], rs_result = SQLITE_ERROR, rs_err = []\<rparr>"

text \<open>The constructor from another set of fields copies it.\<close>

definition recordset_of :: "fieldset \<Rightarrow> recordset" where
  "recordset_of fs = new_recordset (FieldSet_copy (fs_vec fs))"

definition rs_close :: "recordset \<Rightarrow> recordset" where
  "rs_close rs = rs\<lparr>rs_err := [], rs_records := [], rs_result := SQLITE_ERROR\<rparr>"

definition isResult :: "recordset \<Rightarrow> bool" where
  "isResult rs \<longleftrightarrow> rs_result rs = SQLITE_OK"

definition rs_count :: "recordset \<Rightarrow> nat" where
  "rs_count rs = length (rs_records rs)"

text \<open>The loop of \<open>on_next_record\<close> over the columns of a row.\<close>

fun init_columns :: "fieldset \<Rightarrow> nat \<Rightarrow> string option list \<Rightarrow> sqlrecord \<Rightarrow> sqlrecord" where
  "init_columns fs index [] r = r"
| "init_columns fs index (value # values) r =
    init_columns fs (Suc index) values
      (case getByIndex (int index) fs of None \<Rightarrow> r | Some f \<Rightarrow> initColumnValue index value (f_type f) r)"

definition on_next_record :: "string option list \<Rightarrow> recordset \<Rightarrow> recordset" where
  "on_next_record values rs =
    rs\<lparr>rs_records := rs_records rs
      @ [init_columns (rs_fields rs) 0 values (initColumnCount (length values) (new_record (rs_fields rs)))]\<rparr>"

definition rs_query :: "'e engine \<Rightarrow> string \<Rightarrow> ('e \<times> recordset, bool) comp" where
  "rs_query exec sql = (\<lambda>(e, rs).
     case exec (c_str sql) e of ((code, rows, error), e) \<Rightarrow>
       (let rs = (fold on_next_record rows (rs_close rs))\<lparr>rs_result := code\<rparr>
        in if isResult rs then (Ok True, (e, rs))
           else (case error of
                   None \<Rightarrow> (Halt NullDeref, (e, rs))
                 | Some msg \<Rightarrow>
                    (let rs = (if msg \<noteq> [] then rs\<lparr>rs_err := msg\<rparr> else rs)
                     in (Exn (SqlException (''RecordSet::query: '' @ rs_err rs)), (e, rs))))))"

definition rs_getRecord :: "int \<Rightarrow> recordset \<Rightarrow> sqlrecord option" where
  "rs_getRecord record_index rs =
    (if record_index \<ge> 0 \<and> record_index < int (length (rs_records rs))
     then Some (rs_records rs ! nat record_index) else None)"

definition rs_toString :: "'d libc \<Rightarrow> recordset \<Rightarrow> string" where
  "rs_toString C rs = concat (map (\<lambda>i. case rs_getRecord (int i) rs of None \<Rightarrow> []
     | Some r \<Rightarrow> intToStr (int32 (int i + 1)) @ ''. '' @ record_toString C r @ [CHR 0x0D, CHR 0x0A]) [0..<rs_count rs])"

definition rs_getTopRecord :: "recordset \<Rightarrow> sqlrecord option" where
  "rs_getTopRecord rs = (if isResult rs then rs_getRecord 0 rs else None)"

definition getTopRecordFirstValue :: "recordset \<Rightarrow> sqlvalue option" where
  "getTopRecordFirstValue rs =
    (if isResult rs then (case rs_getRecord 0 rs of None \<Rightarrow> None | Some r \<Rightarrow> getValue 0 r) else None)"

subsection \<open>Table\<close>

record sqltable =
  tb_name :: string
  tb_rs :: recordset

definition new_table :: "string \<Rightarrow> fieldset \<Rightarrow> sqltable" where
  "new_table tableName fs = \<lparr>tb_name = tableName, tb_rs = recordset_of fs\<rparr>"

definition new_table_array :: "string \<Rightarrow> field list option \<Rightarrow> sqltable outcome" where
  "new_table_array tableName def =
    (case FieldSet_of_array def of
       Ok fs \<Rightarrow> Ok \<lparr>tb_name = tableName, tb_rs = new_recordset fs\<rparr> | Exn e \<Rightarrow> Exn e | Halt h \<Rightarrow> Halt h)"

text \<open>\<open>_recordset\<close> of the table, and a local \<open>RecordSet rs(_db, _recordset.fields())\<close>.\<close>

definition on_recordset :: "('e \<times> recordset, 'a) comp \<Rightarrow> ('e \<times> sqltable, 'a) comp" where
  "on_recordset m = (\<lambda>(e, t). case m (e, tb_rs t) of (r, (e, rs)) \<Rightarrow> (r, (e, t\<lparr>tb_rs := rs\<rparr>)))"

definition on_local :: "('e \<times> recordset, 'a) comp \<Rightarrow> ('e \<times> sqltable, 'a) comp" where
  "on_local m = (\<lambda>(e, t). case m (e, recordset_of (rs_fields (tb_rs t))) of (r, (e, rs)) \<Rightarrow> (r, (e, t)))"

definition Table_getDefinition :: "sqltable \<Rightarrow> string" where
  "Table_getDefinition t =
    ''CREATE TABLE '' @ tb_name t @ '' ('' @ FieldSet_getDefinition (rs_fields (tb_rs t)) @ '')''"

definition Table_toString :: "sqltable \<Rightarrow> string" where
  "Table_toString t = (let fs = rs_fields (tb_rs t) in
    concat (map (\<lambda>i. case getByIndex (int i) fs of None \<Rightarrow> []
      | Some f \<Rightarrow> intToStr (int32 (int i + 1)) @ ''. '' @ Field_getDefinition f
          @ (if int i < int (fs_count fs) - 1 then [CHR 0x0D, CHR 0x0A] else [])) [0..<fs_count fs]))"

definition Table_query :: "'e engine \<Rightarrow> string \<Rightarrow> ('e \<times> sqltable, bool) comp" where
  "Table_query exec queryStr = on_recordset (rs_query exec queryStr)"

definition where_clause :: "string \<Rightarrow> string" where
  "where_clause whereCondition = (if whereCondition = [] then [] else '' where '' @ whereCondition)"

definition Table_open :: "'e engine \<Rightarrow> ('e \<times> sqltable, bool) comp" where
  "Table_open exec = bnd (gets (\<lambda>(e, t). tb_name t)) (\<lambda>n. Table_query exec (''select * from '' @ n))"

definition Table_open_where :: "'e engine \<Rightarrow> string \<Rightarrow> ('e \<times> sqltable, bool) comp" where
  "Table_open_where exec whereCondition = bnd (gets (\<lambda>(e, t). tb_name t)) (\<lambda>n.
     Table_query exec (''select * from '' @ n @ where_clause whereCondition))"

definition Table_open_sorted :: "'e engine \<Rightarrow> string \<Rightarrow> string \<Rightarrow> ('e \<times> sqltable, bool) comp" where
  "Table_open_sorted exec whereCondition sortBy = bnd (gets (\<lambda>(e, t). tb_name t)) (\<lambda>n.
     Table_query exec (''select * from '' @ n @ where_clause whereCondition
       @ (if sortBy = [] then [] else '' order by '' @ sortBy)))"

definition Table_truncate :: "'e engine \<Rightarrow> ('e \<times> sqltable, bool) comp" where
  "Table_truncate exec = bnd (gets (\<lambda>(e, t). tb_name t)) (\<lambda>n. Table_query exec (''delete from '' @ n))"

definition Table_remove :: "'e engine \<Rightarrow> ('e \<times> sqltable, bool) comp" where
  "Table_remove exec = bnd (gets (\<lambda>(e, t). tb_name t)) (\<lambda>n. Table_query exec (''drop table '' @ n))"

definition deleteRecords :: "'e engine \<Rightarrow> string \<Rightarrow> ('e \<times> sqltable, bool) comp" where
  "deleteRecords exec whereCondition = bnd (gets (\<lambda>(e, t). tb_name t)) (\<lambda>n.
     on_local (rs_query exec (''delete from '' @ n @ where_clause whereCondition)))"

text \<open>The number in the first column of the first row, of a query that returned true.\<close>

definition query_number :: "'e engine \<Rightarrow> string \<Rightarrow> ('e \<times> sqltable, int option) comp" where
  "query_number exec sql = on_local (bnd (rs_query exec sql) (\<lambda>b.
     if b then gets (\<lambda>(e, rs). map_option value_asInteger (getTopRecordFirstValue rs)) else ret None))"

definition totalRecordCount :: "'e engine \<Rightarrow> ('e \<times> sqltable, int) comp" where
  "totalRecordCount exec = bnd (gets (\<lambda>(e, t). tb_name t)) (\<lambda>n.
     bnd (query_number exec (''select count(*) from '' @ n)) (\<lambda>v.
       ret (case v of Some k \<Rightarrow> int32 k | None \<Rightarrow> -1)))"

definition Table_exists :: "'e engine \<Rightarrow> ('e \<times> sqltable, bool) comp" where
  "Table_exists exec = bnd (gets (\<lambda>(e, t). tb_name t)) (\<lambda>n.
     bnd (query_number exec (''select count(*) from sqlite_master where type = '' @ [CHR 0x27] @ ''table'' @ [CHR 0x27]
         @ '' and name = '' @ [CHR 0x27] @ n @ [CHR 0x27])) (\<lambda>v.
       ret (case v of Some k \<Rightarrow> k > 0 | None \<Rightarrow> False)))"

definition Table_create :: "'e engine \<Rightarrow> ('e \<times> sqltable, bool) comp" where
  "Table_create exec = bnd (Table_exists exec) (\<lambda>ex.
     if ex then ret True
     else bnd (gets (\<lambda>(e, t). Table_getDefinition t)) (Table_query exec))"

definition recordCount :: "sqltable \<Rightarrow> nat" where
  "recordCount t = rs_count (tb_rs t)"

definition Table_getRecord :: "int \<Rightarrow> sqltable \<Rightarrow> sqlrecord option" where
  "Table_getRecord record_index t = rs_getRecord record_index (tb_rs t)"

definition Table_getTopRecord :: "sqltable \<Rightarrow> sqlrecord option" where
  "Table_getTopRecord t = Table_getRecord 0 t"

definition getRecordByKeyId :: "'e engine \<Rightarrow> int \<Rightarrow> ('e \<times> sqltable, sqlrecord option) comp" where
  "getRecordByKeyId exec keyId = bnd (gets (\<lambda>(e, t). tb_name t)) (\<lambda>n.
     bnd (Table_query exec (''select * from '' @ n @ '' where _ID = '' @ intToStr keyId)) (\<lambda>b.
       gets (\<lambda>(e, t). if b \<and> rs_count (tb_rs t) > 0 then rs_getRecord 0 (tb_rs t) else None)))"

definition addRecord :: "'d libc \<Rightarrow> 'e engine \<Rightarrow> sqlrecord option \<Rightarrow> ('e \<times> sqltable, bool) comp" where
  "addRecord C exec rec = (case rec of None \<Rightarrow> ret False
     | Some r \<Rightarrow> bnd (gets (\<lambda>(e, t). tb_name t)) (\<lambda>n. on_local (rs_query exec (toSqlInsert C n r))))"

definition updateRecord :: "'d libc \<Rightarrow> 'e engine \<Rightarrow> sqlrecord option \<Rightarrow> ('e \<times> sqltable, bool) comp" where
  "updateRecord C exec rec = (case rec of None \<Rightarrow> ret False
     | Some r \<Rightarrow> bnd (gets (\<lambda>(e, t). tb_name t)) (\<lambda>n. on_local (rs_query exec (toSqlUpdate C n r))))"

fun copy_loop :: "'d libc \<Rightarrow> 'e engine \<Rightarrow> sqlrecord list \<Rightarrow> ('e \<times> sqltable, bool) comp" where
  "copy_loop C exec [] = ret True"
| "copy_loop C exec (r # rs) = bnd (addRecord C exec (Some r)) (\<lambda>b. if \<not> b then ret False else copy_loop C exec rs)"

definition copyRecords :: "'d libc \<Rightarrow> 'e engine \<Rightarrow> sqltable \<Rightarrow> ('e \<times> sqltable, bool) comp" where
  "copyRecords C exec source = copy_loop C exec (rs_records (tb_rs source))"

definition Table_createFromDefinition :: "string \<Rightarrow> string \<Rightarrow> sqltable option" where
  "Table_createFromDefinition tableName fieldsDefinition =
    map_option (new_table tableName) (FieldSet_createFromDefinition fieldsDefinition)"

text \<open>\<open>backup\<close> works on two tables: this one and the source.\<close>

definition on_this :: "('e \<times> sqltable, 'a) comp \<Rightarrow> ('e \<times> sqltable \<times> sqltable, 'a) comp" where
  "on_this m = (\<lambda>(e, this, source). case m (e, this) of (r, (e, this)) \<Rightarrow> (r, (e, this, source)))"

definition on_source :: "('e \<times> sqltable, 'a) comp \<Rightarrow> ('e \<times> sqltable \<times> sqltable, 'a) comp" where
  "on_source m = (\<lambda>(e, this, source). case m (e, source) of (r, (e, source)) \<Rightarrow> (r, (e, this, source)))"

definition backup :: "'d libc \<Rightarrow> 'e engine \<Rightarrow> ('e \<times> sqltable \<times> sqltable, bool) comp" where
  "backup C exec =
    bnd (on_this (Table_exists exec)) (\<lambda>ex.
    sqn (if ex then on_this (Table_remove exec) else ret True) (
    bnd (on_this (Table_create exec)) (\<lambda>created.
    if \<not> created then ret False else
    bnd (on_source (Table_open exec)) (\<lambda>opened.
    if \<not> opened then ret False else
    bnd (gets (\<lambda>(e, this, source). source)) (\<lambda>source.
    bnd (on_this (copyRecords C exec source)) (\<lambda>copied.
    if \<not> copied then ret False else
    bnd (on_source (totalRecordCount exec)) (\<lambda>n.
    bnd (on_this (totalRecordCount exec)) (\<lambda>k. ret (n = k)))))))))"

subsection \<open>The columns of a record\<close>

lemma replicate_new: "replicate n new_value ! i = new_value" if "i < n"
  using that by simp

lemma init_record_values:
  "r_values (initColumnCount n (new_record fs)) = replicate n new_value" "r_fields (initColumnCount n (new_record fs)) = fs"
  by (simp_all add: initColumnCount_def new_record_def min_def replicate_add [symmetric])

definition column :: "fieldset \<Rightarrow> string option list \<Rightarrow> nat \<Rightarrow> sqlvalue" where
  "column fs row i =
    (if i < fs_count fs then setValue (row ! i) (f_type (fs_vec fs ! i)) new_value else new_value)"

lemma init_columns_fields [simp]: "r_fields (init_columns fs k row r) = r_fields r"
  by (induction row arbitrary: k r) (auto simp: initColumnValue_def split: option.split)

lemma init_columns_length [simp]: "length (r_values (init_columns fs k row r)) = length (r_values r)"
  by (induction row arbitrary: k r) (auto simp: initColumnValue_def split: option.split)

lemma init_columns_nth:
  "k + length row \<le> length (r_values r) \<Longrightarrow> i < length (r_values r) \<Longrightarrow>
   r_values (init_columns fs k row r) ! i =
     (if k \<le> i \<and> i < k + length row \<and> i < fs_count fs
      then setValue (row ! (i - k)) (f_type (fs_vec fs ! i)) (r_values r ! i) else r_values r ! i)"
proof (induction row arbitrary: k r)
  case (Cons v row)
  let ?r = "case getByIndex (int k) fs of None \<Rightarrow> r | Some f \<Rightarrow> initColumnValue k v (f_type f) r"
  have len: "length (r_values ?r) = length (r_values r)"
    by (simp add: initColumnValue_def split: option.split)
  have at: "r_values ?r ! i = (if i = k \<and> k < fs_count fs then setValue v (f_type (fs_vec fs ! k)) (r_values r ! k) else r_values r ! i)"
    using Cons.prems by (simp add: initColumnValue_def getByIndex_def)
  show ?case
    using Cons.IH[of "Suc k" ?r] Cons.prems len at
    by (cases "i = k") (auto simp: nth_Cons' not_less_eq_eq)
qed auto

lemma on_next_record_columns:
  "\<exists>r. rs_records (on_next_record row rs) = rs_records rs @ [r] \<and> r_fields r = rs_fields rs \<and>
     r_values r = map (column (rs_fields rs) row) [0..<length row]"
proof -
  let ?r = "init_columns (rs_fields rs) 0 row (initColumnCount (length row) (new_record (rs_fields rs)))"
  have "r_values ?r = map (column (rs_fields rs) row) [0..<length row]"
    by (rule nth_equalityI) (simp_all add: init_record_values init_columns_nth column_def)
  then show ?thesis
    by (intro exI[of _ ?r]) (simp add: on_next_record_def init_record_values)
qed

text \<open>A record has the types of the columns of its fields; behind the last field the type is
  undefined; a NULL has no text and a blob never has.\<close>

definition typed_record :: "fieldset \<Rightarrow> sqlrecord \<Rightarrow> bool" where
  "typed_record fs r \<longleftrightarrow> r_fields r = fs \<and> (\<forall>i<length (r_values r).
     v_type (r_values r ! i) = (if i < fs_count fs then f_type (fs_vec fs ! i) else type_undefined) \<and>
     (v_null (r_values r ! i) \<or> v_type (r_values r ! i) = type_blob \<longrightarrow> v_value (r_values r ! i) = []))"

definition typed :: "fieldset \<Rightarrow> recordset \<Rightarrow> bool" where
  "typed fs rs \<longleftrightarrow> rs_fields rs = fs \<and> (\<forall>r\<in>set (rs_records rs). typed_record fs r)"

lemma column_typed:
  "v_type (column fs row i) = (if i < fs_count fs then f_type (fs_vec fs ! i) else type_undefined) \<and>
   (v_null (column fs row i) \<or> v_type (column fs row i) = type_blob \<longrightarrow> v_value (column fs row i) = [])"
  by (simp add: column_def setValue_def new_value_def Let_def split: option.split)

lemma typed_new: "typed fs (new_recordset fs)"
  by (simp add: typed_def new_recordset_def)

lemma typed_close: "typed fs rs \<Longrightarrow> typed fs (rs_close rs)"
  by (simp add: typed_def rs_close_def)

lemma typed_next: "typed fs rs \<Longrightarrow> typed fs (on_next_record row rs)"
proof -
  assume t: "typed fs rs"
  obtain r where r: "rs_records (on_next_record row rs) = rs_records rs @ [r]" "r_fields r = rs_fields rs"
      "r_values r = map (column (rs_fields rs) row) [0..<length row]"
    using on_next_record_columns by blast
  then have "typed_record fs r" using t column_typed by (simp add: typed_record_def typed_def)
  then show ?thesis using t r(1) by (simp add: typed_def) (simp add: on_next_record_def)
qed

lemma typed_rows: "typed fs rs \<Longrightarrow> typed fs (fold on_next_record rows rs)"
  by (induction rows arbitrary: rs) (simp_all add: typed_next)

lemma typed_result: "typed fs rs \<Longrightarrow> typed fs (rs\<lparr>rs_result := c\<rparr>)" "typed fs rs \<Longrightarrow> typed fs (rs\<lparr>rs_err := m\<rparr>)"
  by (simp_all add: typed_def)

lemma rs_query_typed: "keeps (\<lambda>(e, rs). typed fs rs) (rs_query exec sql)"
  unfolding keeps_def rs_query_def
  by (auto simp: Let_def typed_result typed_rows typed_close split: prod.split option.split)

definition typed_table :: "fieldset \<Rightarrow> ('e \<times> sqltable) \<Rightarrow> bool" where
  "typed_table fs = (\<lambda>(e, t). typed fs (tb_rs t))"

named_theorems typed_intros \<open>the operations of a table keep its records typed\<close>

lemmas [typed_intros] = keeps_ret keeps_gets keeps_bnd keeps_sqn keeps_if

lemma on_recordset_typed:
  "keeps (\<lambda>(e, rs). typed fs rs) m \<Longrightarrow> keeps (typed_table fs) (on_recordset m)"
proof -
  assume K: "keeps (\<lambda>(e, rs). typed fs rs) m"
  have "typed_table fs (snd (on_recordset m (e, t)))" if "typed_table fs (e, t)" for e t
    using keepsD[OF K, of "(e, tb_rs t)"] that
    by (cases "m (e, tb_rs t)") (fastforce simp: on_recordset_def typed_table_def)
  then show ?thesis by (auto simp: keeps_def)
qed

lemma on_local_typed [typed_intros]: "keeps (typed_table fs) (on_local m)"
  unfolding keeps_def on_local_def typed_table_def by (auto split: prod.split)

lemma Table_query_typed [typed_intros]: "keeps (typed_table fs) (Table_query exec q)"
  unfolding Table_query_def by (rule on_recordset_typed[OF rs_query_typed])

lemmas table_defs = Table_open_def Table_open_where_def Table_open_sorted_def Table_truncate_def Table_remove_def
  deleteRecords_def query_number_def totalRecordCount_def Table_exists_def Table_create_def getRecordByKeyId_def

lemma table_operations_typed [typed_intros]:
  "keeps (typed_table fs) (Table_open exec)" "keeps (typed_table fs) (Table_open_where exec w)"
  "keeps (typed_table fs) (Table_open_sorted exec w srt)" "keeps (typed_table fs) (Table_truncate exec)"
  "keeps (typed_table fs) (Table_remove exec)" "keeps (typed_table fs) (deleteRecords exec w)"
  "keeps (typed_table fs) (totalRecordCount exec)" "keeps (typed_table fs) (Table_exists exec)"
  "keeps (typed_table fs) (Table_create exec)" "keeps (typed_table fs) (getRecordByKeyId exec k)"
  unfolding table_defs by (intro typed_intros)+

lemma record_operations_typed [typed_intros]:
  "keeps (typed_table fs) (addRecord C exec r)" "keeps (typed_table fs) (updateRecord C exec r)"
  unfolding addRecord_def updateRecord_def by (cases r; simp; intro typed_intros)+

lemma copy_loop_typed [typed_intros]: "keeps (typed_table fs) (copy_loop C exec rs)"
  by (induction rs) (simp_all add: typed_intros)

lemma copyRecords_typed [typed_intros]: "keeps (typed_table fs) (copyRecords C exec source)"
  unfolding copyRecords_def by (rule copy_loop_typed)

definition typed_tables :: "fieldset \<Rightarrow> fieldset \<Rightarrow> ('e \<times> sqltable \<times> sqltable) \<Rightarrow> bool" where
  "typed_tables fs gs = (\<lambda>(e, this, source). typed fs (tb_rs this) \<and> typed gs (tb_rs source))"

lemma on_tables_typed [typed_intros]:
  "keeps (typed_table fs) m \<Longrightarrow> keeps (typed_tables fs gs) (on_this m)"
  "keeps (typed_table gs) m \<Longrightarrow> keeps (typed_tables fs gs) (on_source m)"
proof -
  assume K: "keeps (typed_table fs) m"
  have "typed_tables fs gs (snd (on_this m (e, t, u)))" if "typed_tables fs gs (e, t, u)" for e t u
    using keepsD[OF K, of "(e, t)"] that
    by (cases "m (e, t)") (fastforce simp: on_this_def typed_table_def typed_tables_def)
  then show "keeps (typed_tables fs gs) (on_this m)" by (auto simp: keeps_def)
next
  assume K: "keeps (typed_table gs) m"
  have "typed_tables fs gs (snd (on_source m (e, t, u)))" if "typed_tables fs gs (e, t, u)" for e t u
    using keepsD[OF K, of "(e, u)"] that
    by (cases "m (e, u)") (fastforce simp: on_source_def typed_table_def typed_tables_def)
  then show "keeps (typed_tables fs gs) (on_source m)" by (auto simp: keeps_def)
qed

lemma backup_typed: "keeps (typed_tables fs gs) (backup C exec)"
  unfolding backup_def by (intro typed_intros)

subsection \<open>Counting with a blob in the first column\<close>

lemma typed_first_value:
  assumes "typed fs rs" "fs_vec fs = f # fl" "f_type f = type_blob" "getTopRecordFirstValue rs = Some v"
  shows "value_asInteger v = 0"
proof -
  obtain r where r: "rs_getRecord 0 rs = Some r" "getValue 0 r = Some v"
    using assms(4) by (auto simp: getTopRecordFirstValue_def split: if_splits option.splits)
  then have "r \<in> set (rs_records rs)" "0 < length (r_values r)" "v = r_values r ! 0"
    by (auto simp: rs_getRecord_def getValue_def split: if_splits)
  then have "v_value v = []"
    using assms(1-3) by (auto simp: typed_def typed_record_def fs_count_def)
  then show ?thesis by (simp add: value_asInteger_def atoll_def c_str_def)
qed

lemma query_number_blob:
  assumes "fs_vec (rs_fields (tb_rs t)) = f # fl" "f_type f = type_blob"
  shows "query_number exec sql (e, t) = (Ok (Some k), s) \<Longrightarrow> k = 0"
proof -
  let ?fs = "FieldSet_copy (f # fl)"
  let ?rs = "recordset_of (rs_fields (tb_rs t))"
  assume q: "query_number exec sql (e, t) = (Ok (Some k), s)"
  obtain r e' rs where m: "rs_query exec sql (e, ?rs) = (r, (e', rs))" by (metis prod.exhaust)
  have "typed ?fs ?rs" using assms(1) typed_new by (simp add: recordset_of_def)
  then have "typed ?fs rs" using keepsD[OF rs_query_typed, of ?fs "(e, ?rs)" exec sql r "(e', rs)"] m by simp
  moreover have "\<exists>v. getTopRecordFirstValue rs = Some v \<and> value_asInteger v = k"
    using q m by (auto simp: query_number_def on_local_def run_simps split: prod.splits outcome.splits if_splits)
  ultimately show "k = 0"
    using typed_first_value[of ?fs rs f fl] assms(2) by auto
qed

lemma Table_exists_blob:
  assumes "fs_vec (rs_fields (tb_rs t)) = f # fl" "f_type f = type_blob"
  shows "fst (Table_exists exec (e, t)) \<noteq> Ok True"
proof
  assume "fst (Table_exists exec (e, t)) = Ok True"
  then obtain sql k s where "query_number exec sql (e, t) = (Ok (Some k), s)" "k > 0"
    by (auto simp: Table_exists_def run_simps split: prod.splits outcome.splits option.splits)
  with query_number_blob[OF assms] show False by fastforce
qed

subsection \<open>Properties\<close>

text \<open>C27: Whatever the engine delivers, a column of a record of a table has the type of the field at its
  place, the columns behind the last field have none, and NULLs and blobs have no text: a new table is such,
  and every operation keeps it, also when it ends in an exception.\<close>

theorem table_columns_typed:
  "typed_table fs (e, \<lparr>tb_name = n, tb_rs = new_recordset fs\<rparr>) \<and>
   keeps (typed_table fs) (Table_query exec q) \<and>
   keeps (typed_table fs) (Table_open exec) \<and> keeps (typed_table fs) (Table_open_where exec w) \<and>
   keeps (typed_table fs) (Table_open_sorted exec w srt) \<and> keeps (typed_table fs) (Table_truncate exec) \<and>
   keeps (typed_table fs) (Table_remove exec) \<and> keeps (typed_table fs) (deleteRecords exec w) \<and>
   keeps (typed_table fs) (totalRecordCount exec) \<and> keeps (typed_table fs) (Table_exists exec) \<and>
   keeps (typed_table fs) (Table_create exec) \<and> keeps (typed_table fs) (getRecordByKeyId exec k) \<and>
   keeps (typed_table fs) (addRecord C exec r) \<and> keeps (typed_table fs) (updateRecord C exec r) \<and>
   keeps (typed_table fs) (copyRecords C exec source) \<and> keeps (typed_tables fs gs) (backup C exec)"
  using typed_new[of fs] by (intro conjI typed_intros backup_typed) (simp add: typed_table_def)

text \<open>A table whose first field is a BLOB is never found to exist, because the count that the query of
  \<open>exists\<close> delivers is read through this field, whose text \<open>setValue\<close> drops.\<close>

theorem blob_table_never_exists:
  assumes "fs_vec (rs_fields (tb_rs t)) = f # fl" and "f_type f = type_blob"
  shows "fst (Table_exists exec (e, t)) \<noteq> Ok True"
  by (rule Table_exists_blob[OF assms])

definition one_row :: "string \<Rightarrow> 'e \<Rightarrow> (int \<times> string option list list \<times> string option) \<times> 'e" where
  "one_row sql e = ((0, [[Some ''1'']], None), e)"

theorem blob_table_never_exists_witness:
  "\<exists>t. new_table_array ''t'' (Some [Field ''data'' type_blob 0 FIELD_DEFAULT, Field_of_use DEFINITION_END]) = Ok t \<and>
     fst (Table_exists one_row ((), t)) \<noteq> Ok True"
proof -
  obtain t where t: "new_table_array ''t'' (Some [Field ''data'' type_blob 0 FIELD_DEFAULT, Field_of_use DEFINITION_END]) = Ok t"
      "fs_vec (rs_fields (tb_rs t)) = [(Field ''data'' type_blob 0 FIELD_DEFAULT)\<lparr>f_index := 0\<rparr>]"
    by (auto simp: new_table_array_def FieldSet_of_array_def isEndingField_def Field_def Field_of_use_def new_recordset_def)
  then show ?thesis
    using blob_table_never_exists[OF t(2), of one_row "()"] by (auto simp: Field_def)
qed

end
