(* ===== verification/Dedup_Types.thy ===== *)
theory Dedup_Types
  imports Prelude "HOL-Library.RBT"
begin

text \<open>
  \<open>dedup_types.h\<close> and \<open>dedup_types.cpp\<close>: the objects the database layer and the block
  cache share, the comparator of the cache's set, and the interfaces of the libraries
  that are not part of the repository.

  Those interfaces are the parameter \<open>env\<close> of every definition: the operations of
  libcds' \<open>SkipListSet\<close> (a git submodule) on the blocks of a file and on the cached
  storage blocks, the row id SQLite picks for a new row, \<open>branch_path\<close> and \<open>leaf\<close> of
  boost's \<open>path\<close>, the block size options, and whether \<open>assert\<close> is compiled in.  The
  locales state the documented behaviour the code relies on, and are interpreted on
  red-black trees, the greatest row id plus one, and splitting at the last slash.

  A \<open>weak_ptr\<close> is the identity of the object it observes: the storage block number,
  which no operation changes and under which the cache's set holds the object, and the
  number \<open>sb_oid\<close> the object got when it was created.  An object stays alive as long as
  the cache's set holds it.
\<close>

subsection \<open>Objects\<close>

text \<open>\<open>storage_block\<close>: one block of the storage file in memory.  An empty vector is a
  block whose data have not been read.\<close>

record storage_block =
  sb_oid :: nat
  sb_num :: int
  sb_use :: int
  sb_hash :: "byte list option"
  sb_data :: "byte list"
  sb_dirty :: bool
  sb_loaded :: bool
  sb_atime :: int

definition new_storage_block :: "nat \<Rightarrow> int \<Rightarrow> int \<Rightarrow> storage_block" where
  "new_storage_block oid now num =
    \<lparr>sb_oid = oid, sb_num = num, sb_use = 0, sb_hash = None, sb_data = [],
     sb_dirty = False, sb_loaded = False, sb_atime = now\<rparr>"

definition sb_access :: "int \<Rightarrow> storage_block \<Rightarrow> storage_block" where
  "sb_access now b = b\<lparr>sb_atime := now\<rparr>"

text \<open>\<open>block_info\<close>: what a file handle knows about one block of its file.\<close>

record block_info =
  bi_num :: int
  bi_snum :: int
  bi_hash :: "byte list option"
  bi_locked :: bool
  bi_loaded :: bool
  bi_empty :: bool
  bi_sblock :: "(int \<times> nat) option"

definition new_block_info :: "int \<Rightarrow> block_info" where
  "new_block_info n =
    \<lparr>bi_num = n, bi_snum = 0, bi_hash = None, bi_locked = False, bi_loaded = False,
     bi_empty = True, bi_sblock = None\<rparr>"

definition block_info_less :: "block_info \<Rightarrow> block_info \<Rightarrow> bool" where
  "block_info_less a b \<longleftrightarrow> bi_num a < bi_num b"

text \<open>The fields of \<open>struct stat\<close> the program uses.\<close>

record stat =
  st_ino :: int
  st_size :: int
  st_mode :: "32 word"
  st_uid :: int
  st_gid :: int
  st_mtime :: int
  st_ctime :: int

record 'fm file_info =
  fi_refcount :: int
  fi_name :: string
  fi_depth :: int
  fi_st :: stat
  fi_blocks :: 'fm

subsection \<open>storage_block_comparator\<close>

definition storage_block_compare :: "storage_block option \<Rightarrow> storage_block option \<Rightarrow> int" where
  "storage_block_compare a b =
    (case (a, b) of
      (None, Some _) \<Rightarrow> -1
    | (Some _, None) \<Rightarrow> 1
    | (None, None) \<Rightarrow> 0
    | (Some x, Some y) \<Rightarrow>
        if sb_num x < sb_num y then -1
        else if sb_num x > sb_num y then 1
        else 0)"

lemma storage_block_compare_antisym: "storage_block_compare a b = - storage_block_compare b a"
  by (auto simp: storage_block_compare_def split: option.splits)

lemma storage_block_compare_trans:
  "storage_block_compare a b \<le> 0 \<Longrightarrow> storage_block_compare b c \<le> 0 \<Longrightarrow> storage_block_compare a c \<le> 0"
  by (auto simp: storage_block_compare_def split: option.splits if_splits)

lemma storage_block_compare_zero:
  "storage_block_compare (Some x) (Some y) = 0 \<longleftrightarrow> sb_num x = sb_num y"
  by (simp add: storage_block_compare_def)

subsection \<open>Reference counts of file_info\<close>

text \<open>\<open>intrusive_ptr_release\<close> deletes the object (\<open>None\<close>) when the last reference goes.\<close>

definition intrusive_ptr_add_ref :: "'fm file_info \<Rightarrow> 'fm file_info" where
  "intrusive_ptr_add_ref p = p\<lparr>fi_refcount := fi_refcount p + 1\<rparr>"

definition intrusive_ptr_release :: "'fm file_info \<Rightarrow> 'fm file_info option" where
  "intrusive_ptr_release p =
    (let p = p\<lparr>fi_refcount := fi_refcount p - 1\<rparr> in if fi_refcount p = 0 then None else Some p)"

lemma release_add_ref:
  "0 < fi_refcount p \<Longrightarrow> intrusive_ptr_release (intrusive_ptr_add_ref p) = Some p"
  by (simp add: intrusive_ptr_release_def intrusive_ptr_add_ref_def)

subsection \<open>The library interfaces\<close>

text \<open>A concurrent ordered set of libcds, keyed by its comparator: \<open>find\<close>, \<open>ensure\<close>
  (whose functor leaves the item as \<open>put\<close>), \<open>extract\<close>/\<open>erase\<close>, and iteration.\<close>

record ('k, 'v, 'm) cds_set =
  cs_empty :: 'm
  cs_find :: "'m \<Rightarrow> 'k \<Rightarrow> 'v option"
  cs_put :: "'k \<Rightarrow> 'v \<Rightarrow> 'm \<Rightarrow> 'm"
  cs_erase :: "'k \<Rightarrow> 'm \<Rightarrow> 'm"
  cs_items :: "'m \<Rightarrow> ('k \<times> 'v) list"

locale cds =
  fixes C :: "('k::linorder, 'v, 'm) cds_set"
  assumes find_empty: "cs_find C (cs_empty C) = Map.empty"
    and find_put: "cs_find C (cs_put C k v m) = (cs_find C m)(k \<mapsto> v)"
    and find_erase: "cs_find C (cs_erase C k m) = (cs_find C m)(k := None)"
    and map_of_items: "map_of (cs_items C m) = cs_find C m"
    and sorted_items: "sorted_wrt (<) (map fst (cs_items C m))"
begin

lemmas cds_simps = find_empty find_put find_erase

lemma distinct_items: "distinct (map fst (cs_items C m))"
  using sorted_items[of m] by (simp add: strict_sorted_iff)

lemma items_iff: "(k, v) \<in> set (cs_items C m) \<longleftrightarrow> cs_find C m k = Some v"
  using distinct_items[of m] by (simp add: map_of_items[symmetric])

lemma finite_dom: "finite (dom (cs_find C m))"
  by (simp add: map_of_items[symmetric] finite_dom_map_of)

lemma length_items: "length (cs_items C m) = card (dom (cs_find C m))"
  using distinct_items[of m]
  by (metis dom_map_of_conv_image_fst distinct_card length_map map_of_items set_map)

end

definition rbt_cds :: "('k::linorder, 'v, ('k, 'v) RBT.rbt) cds_set" where
  "rbt_cds = \<lparr>cs_empty = RBT.empty, cs_find = RBT.lookup, cs_put = RBT.insert,
    cs_erase = RBT.delete, cs_items = RBT.entries\<rparr>"

interpretation rbt_set: cds "rbt_cds :: ('k::linorder, 'v, ('k, 'v) RBT.rbt) cds_set"
  by unfold_locales
    (simp_all add: rbt_cds_def RBT.map_of_entries strict_sorted_iff RBT.sorted_entries RBT.distinct_entries)

text \<open>SQLite's choice of the row id of a new row, from the row ids in use.\<close>

locale rowids =
  fixes newid :: "int list \<Rightarrow> int"
  assumes newid_fresh: "newid ids \<notin> set ids"
    and newid_pos: "0 < newid ids"

definition max_rowid :: "int list \<Rightarrow> int" where
  "max_rowid ids = foldr max ids 0 + 1"

lemma foldr_max_ge: "x \<in> set xs \<Longrightarrow> x \<le> foldr max xs (b :: int)"
  by (induction xs) auto

lemma foldr_max_base: "b \<le> foldr max xs (b :: int)"
  by (induction xs) auto

interpretation max_rowids: rowids max_rowid
proof unfold_locales
  show "max_rowid ids \<notin> set ids" for ids
    using foldr_max_ge[of "max_rowid ids" ids 0] by (auto simp: max_rowid_def)
  show "0 < max_rowid ids" for ids
    using foldr_max_base[of 0 ids] by (simp add: max_rowid_def)
qed

text \<open>Boost's \<open>path\<close> on the absolute, normalised paths the FUSE layer passes.\<close>

locale boost_path =
  fixes branch leaf :: "string \<Rightarrow> string"
  assumes branch_child: "CHR ''/'' \<notin> set name \<Longrightarrow> name \<noteq> [] \<Longrightarrow> dir \<noteq> [] \<Longrightarrow> last dir \<noteq> CHR ''/''
      \<Longrightarrow> branch (dir @ CHR ''/'' # name) = dir"
    and branch_root: "CHR ''/'' \<notin> set name \<Longrightarrow> name \<noteq> [] \<Longrightarrow> branch (CHR ''/'' # name) = ''/''"
    and leaf_child: "CHR ''/'' \<notin> set name \<Longrightarrow> name \<noteq> [] \<Longrightarrow> leaf (dir @ CHR ''/'' # name) = name"

definition last_leaf :: "string \<Rightarrow> string" where
  "last_leaf p = rev (takeWhile (\<lambda>c. c \<noteq> CHR ''/'') (rev p))"

definition last_branch :: "string \<Rightarrow> string" where
  "last_branch p =
    (let d = rev (tl (dropWhile (\<lambda>c. c \<noteq> CHR ''/'') (rev p))) in if d = [] then ''/'' else d)"

interpretation last_slash: boost_path last_branch last_leaf
  by unfold_locales
    (auto simp: last_branch_def last_leaf_def Let_def takeWhile_append dropWhile_append)

record ('fm, 'sm) env =
  e_fblocks :: "(int, block_info, 'fm) cds_set"
  e_sblocks :: "(int, storage_block, 'sm) cds_set"
  e_newid :: "int list \<Rightarrow> int"
  e_branch :: "string \<Rightarrow> string"
  e_leaf :: "string \<Rightarrow> string"
  e_bits :: nat                \<comment> \<open>\<open>block_size_bits\<close> of \<open>dedupfs_options\<close>\<close>
  e_db_block_size :: int       \<comment> \<open>\<open>DataBase::block_size\<close>, read through a wrong pointer\<close>
  e_ndebug :: bool             \<comment> \<open>\<open>assert\<close> is disabled\<close>
  e_garbage :: "32 word"       \<comment> \<open>the \<open>st_mode\<close> of a \<open>file_info\<close> nobody initialised\<close>

text \<open>What the program relies on: the laws of the two sets, fresh row ids, and a block
  size that fits an \<open>int\<close>.\<close>

locale dedup_env =
  fixes E :: "('fm, 'sm) env"
  assumes fblocks_cds: "cds (e_fblocks E)"
    and sblocks_cds: "cds (e_sblocks E)"
    and rowids_newid: "rowids (e_newid E)"
    and bits_bound: "e_bits E \<le> 30"

sublocale dedup_env \<subseteq> fb: cds "e_fblocks E"
  by (rule fblocks_cds)

sublocale dedup_env \<subseteq> sb: cds "e_sblocks E"
  by (rule sblocks_cds)

sublocale dedup_env \<subseteq> rowids "e_newid E"
  by (rule rowids_newid)

text \<open>The environment with the concrete libraries; \<open>main\<close> uses blocks of \<open>2 ^ 16\<close> bytes.\<close>

definition std_env :: "nat \<Rightarrow> ((int, block_info) RBT.rbt, (int, storage_block) RBT.rbt) env" where
  "std_env bits =
    \<lparr>e_fblocks = rbt_cds, e_sblocks = rbt_cds, e_newid = max_rowid, e_branch = last_branch,
     e_leaf = last_leaf, e_bits = bits, e_db_block_size = 2 ^ bits, e_ndebug = True, e_garbage = 0\<rparr>"

lemma std_env_sel [simp]:
  "e_fblocks (std_env b) = rbt_cds" "e_sblocks (std_env b) = rbt_cds" "e_newid (std_env b) = max_rowid"
  "e_branch (std_env b) = last_branch" "e_leaf (std_env b) = last_leaf" "e_bits (std_env b) = b"
  "e_db_block_size (std_env b) = 2 ^ b" "e_ndebug (std_env b)" "e_garbage (std_env b) = 0"
  by (simp_all add: std_env_def)

lemma dedup_env_std: "b \<le> 30 \<Longrightarrow> dedup_env (std_env b)"
  by (rule dedup_env.intro) (simp_all add: rbt_set.cds_axioms max_rowids.rowids_axioms)

interpretation std16: dedup_env "std_env 16"
  by (rule dedup_env_std) simp

text \<open>The same with the laws of boost's paths, for what walks the name space.\<close>

locale fuse_env = dedup_env E + boost_path "e_branch E" "e_leaf E"
  for E :: "('fm, 'sm) env"

lemma fuse_env_std: "b \<le> 30 \<Longrightarrow> fuse_env (std_env b)"
  using dedup_env_std last_slash.boost_path_axioms by (simp add: fuse_env_def)

interpretation fuse16: fuse_env "std_env 16"
  by (rule fuse_env_std) simp

end
