(* ===== verification/Sql_Store.thy ===== *)
theory Sql_Store
  imports Dedup_Types
begin

text \<open>
  The database of \<open>database.cpp\<close>: the three tables of \<open>DataBase::init\<close>, the SQL
  statements of \<open>prepareStatements\<close> and of the member functions as operations on lists
  of rows, and connections with transactions.

  The statement texts are part of the source; their meaning here is that of SQL:
  \<open>WHERE\<close> selects rows, \<open>UPDATE\<close> and \<open>DELETE\<close> act on every selected row, \<open>REPLACE\<close>
  deletes the rows its uniqueness constraint conflicts with, \<open>LIKE\<close> matches \<open>%\<close> and
  \<open>_\<close> and ignores ASCII case, a left join without a partner gives NULL.  What the
  engine decides alone is a parameter: row ids (\<open>e_newid\<close>) and failures.  The field
  \<open>db_script\<close> lists the outcome of each coming statement (\<open>None\<close> for success), so that
  every failure of every statement is an input of the model; after its end all
  statements succeed.  A failing statement changes no row.
\<close>

subsection \<open>Tables\<close>

record file_row =
  fr_id :: int
  fr_path :: string
  fr_depth :: int
  fr_size :: int
  fr_mode :: "32 word"
  fr_uid :: int
  fr_gid :: int
  fr_mtime :: int
  fr_ctime :: int
  fr_link_target :: "string option"

record block_row =
  br_id :: int
  br_file :: int
  br_offset :: int
  br_hash :: "byte list"

record hash_row =
  hr_id :: int
  hr_hash :: "byte list"
  hr_use :: int

record tables =
  t_files :: "file_row list"
  t_blocks :: "block_row list"
  t_hashes :: "hash_row list"

text \<open>The tables after \<open>CREATE TABLE IF NOT EXISTS\<close> on a new file.\<close>

definition init_tables :: tables where
  "init_tables = \<lparr>t_files = [], t_blocks = [], t_hashes = []\<rparr>"

subsection \<open>LIKE\<close>

definition ascii_lower :: "char \<Rightarrow> char" where
  "ascii_lower c = (let n = of_char c :: nat in if 65 \<le> n \<and> n \<le> 90 then char_of (n + 32) else c)"

fun sql_like :: "string \<Rightarrow> string \<Rightarrow> bool" where
  "sql_like [] s = (s = [])"
| "sql_like (p # ps) s =
    (if p = CHR ''%'' then
       sql_like ps s \<or> (case s of [] \<Rightarrow> False | _ # t \<Rightarrow> sql_like (p # ps) t)
     else (case s of [] \<Rightarrow> False
       | c # t \<Rightarrow> (p = CHR ''_'' \<or> ascii_lower p = ascii_lower c) \<and> sql_like ps t))"

subsection \<open>The statements of prepareStatements\<close>

definition stGetByPath :: "string \<Rightarrow> tables \<Rightarrow> file_row option" where
  "stGetByPath path T = find (\<lambda>r. fr_path r = path) (t_files T)"

text \<open>\<open>Some None\<close> is a row of \<open>file_blocks\<close> whose hash has no row in \<open>block_hashes\<close>.\<close>

definition stGetFileBlock :: "int \<Rightarrow> int \<Rightarrow> tables \<Rightarrow> hash_row option option" where
  "stGetFileBlock file offset T =
    map_option (\<lambda>b. find (\<lambda>h. hr_hash h = br_hash b) (t_hashes T))
      (find (\<lambda>b. br_file b = file \<and> br_offset b = offset) (t_blocks T))"

definition stDeleteFileBlock :: "int \<Rightarrow> int \<Rightarrow> tables \<Rightarrow> tables" where
  "stDeleteFileBlock file offset T =
    T\<lparr>t_blocks := filter (\<lambda>b. \<not> (br_file b = file \<and> br_offset b = offset)) (t_blocks T)\<rparr>"

definition stDecreaseUseCount :: "byte list \<Rightarrow> tables \<Rightarrow> tables" where
  "stDecreaseUseCount hash T =
    T\<lparr>t_hashes := map (\<lambda>h. if hr_hash h = hash then h\<lparr>hr_use := hr_use h - 1\<rparr> else h) (t_hashes T)\<rparr>"

definition stSelectBlockHash :: "byte list \<Rightarrow> tables \<Rightarrow> hash_row option" where
  "stSelectBlockHash hash T = find (\<lambda>h. hr_hash h = hash) (t_hashes T)"

definition stIncreaseUseCount :: "byte list \<Rightarrow> tables \<Rightarrow> tables" where
  "stIncreaseUseCount hash T =
    T\<lparr>t_hashes := map (\<lambda>h. if hr_hash h = hash then h\<lparr>hr_use := hr_use h + 1\<rparr> else h) (t_hashes T)\<rparr>"

definition stSetUseCount :: "int \<Rightarrow> int \<Rightarrow> tables \<Rightarrow> tables" where
  "stSetUseCount use rid T =
    T\<lparr>t_hashes := map (\<lambda>h. if hr_id h = rid then h\<lparr>hr_use := use\<rparr> else h) (t_hashes T)\<rparr>"

definition stUpdateBlockHash :: "byte list \<Rightarrow> int \<Rightarrow> tables \<Rightarrow> tables" where
  "stUpdateBlockHash hash rid T =
    T\<lparr>t_hashes := map (\<lambda>h. if hr_id h = rid then h\<lparr>hr_hash := hash\<rparr> else h) (t_hashes T)\<rparr>"

definition stInsertBlockHash :: "int \<Rightarrow> byte list \<Rightarrow> tables \<Rightarrow> tables" where
  "stInsertBlockHash rid hash T = T\<lparr>t_hashes := t_hashes T @ [\<lparr>hr_id = rid, hr_hash = hash, hr_use = 1\<rparr>]\<rparr>"

definition stReplaceFileBlock :: "int \<Rightarrow> int \<Rightarrow> int \<Rightarrow> byte list \<Rightarrow> tables \<Rightarrow> tables" where
  "stReplaceFileBlock rid file offset hash T =
    T\<lparr>t_blocks := filter (\<lambda>b. \<not> (br_file b = file \<and> br_offset b = offset)) (t_blocks T)
       @ [\<lparr>br_id = rid, br_file = file, br_offset = offset, br_hash = hash\<rparr>]\<rparr>"

definition stUpdateFileSize :: "int \<Rightarrow> int \<Rightarrow> tables \<Rightarrow> tables" where
  "stUpdateFileSize newSize rid T =
    T\<lparr>t_files := map (\<lambda>r. if fr_id r = rid then r\<lparr>fr_size := newSize\<rparr> else r) (t_files T)\<rparr>"

lemmas stmt_defs = stGetByPath_def stGetFileBlock_def stDeleteFileBlock_def stDecreaseUseCount_def
  stSelectBlockHash_def stIncreaseUseCount_def stSetUseCount_def stUpdateBlockHash_def
  stInsertBlockHash_def stReplaceFileBlock_def stUpdateFileSize_def

subsection \<open>Connections\<close>

record sqldb =
  db_tabs :: tables
  db_saved :: "tables option"       \<comment> \<open>the tables at \<open>BEGIN\<close> of an open transaction\<close>
  db_last :: int                     \<comment> \<open>\<open>sqlite3_last_insert_rowid\<close>\<close>
  db_script :: "cpp_exn option list"

definition init_db :: "tables \<Rightarrow> sqldb" where
  "init_db T = \<lparr>db_tabs = T, db_saved = None, db_last = 0, db_script = []\<rparr>"

text \<open>One statement: it fails as the script says, or acts on the connection; \<open>Inl\<close> is a
  constraint the statement violates.\<close>

definition exec :: "(sqldb \<Rightarrow> cpp_exn + 'a \<times> sqldb) \<Rightarrow> (sqldb, 'a) comp" where
  "exec f = (\<lambda>d.
    case db_script d of
      Some e # rest \<Rightarrow> (Exn e, d\<lparr>db_script := rest\<rparr>)
    | script \<Rightarrow>
        (let d = d\<lparr>db_script := tl script\<rparr> in
         case f d of Inl e \<Rightarrow> (Exn e, d) | Inr (x, d') \<Rightarrow> (Ok x, d')))"

definition sql_query :: "(tables \<Rightarrow> 'a) \<Rightarrow> (sqldb, 'a) comp" where
  "sql_query f = exec (\<lambda>d. Inr (f (db_tabs d), d))"

definition sql_update :: "(tables \<Rightarrow> tables) \<Rightarrow> (sqldb, unit) comp" where
  "sql_update f = exec (\<lambda>d. Inr ((), d\<lparr>db_tabs := f (db_tabs d)\<rparr>))"

text \<open>An \<open>INSERT\<close> or \<open>REPLACE\<close>: \<open>pick\<close> is the new row id.\<close>

definition sql_insert :: "(tables \<Rightarrow> int) \<Rightarrow> (int \<Rightarrow> tables \<Rightarrow> tables) \<Rightarrow> (sqldb, unit) comp" where
  "sql_insert pick f = exec (\<lambda>d. let rid = pick (db_tabs d) in
    Inr ((), d\<lparr>db_tabs := f rid (db_tabs d), db_last := rid\<rparr>))"

definition sql_error :: cpp_exn where
  "sql_error = SqlException ''RecordSet::query''"

definition transactionBegin :: "(sqldb, unit) comp" where
  "transactionBegin = exec (\<lambda>d. case db_saved d of
      Some _ \<Rightarrow> Inl sql_error
    | None \<Rightarrow> Inr ((), d\<lparr>db_saved := Some (db_tabs d)\<rparr>))"

definition transactionCommit :: "(sqldb, unit) comp" where
  "transactionCommit = exec (\<lambda>d. case db_saved d of
      None \<Rightarrow> Inl sql_error
    | Some _ \<Rightarrow> Inr ((), d\<lparr>db_saved := None\<rparr>))"

definition transactionRollback :: "(sqldb, unit) comp" where
  "transactionRollback = exec (\<lambda>d. case db_saved d of
      None \<Rightarrow> Inl sql_error
    | Some T \<Rightarrow> Inr ((), d\<lparr>db_tabs := T, db_saved := None\<rparr>))"

definition lastInsertId :: "(sqldb, int) comp" where
  "lastInsertId = gets db_last"

subsection \<open>Running statements\<close>

lemma exec_ok [run_simps]:
  "db_script d = [] \<Longrightarrow> exec f d = (case f d of Inl e \<Rightarrow> (Exn e, d) | Inr (x, d') \<Rightarrow> (Ok x, d'))"
  by (cases d) (auto simp: exec_def Let_def split: sum.split)

lemma exec_fail: "db_script d = Some e # rest \<Longrightarrow> exec f d = (Exn e, d\<lparr>db_script := rest\<rparr>)"
  by (simp add: exec_def)

lemma returns_sql_query [wp_simps]:
  "db_script d = [] \<Longrightarrow> returns (sql_query f) d P = P (f (db_tabs d)) d"
  by (simp add: returns_def sql_query_def exec_ok)

lemma returns_sql_update [wp_simps]:
  "db_script d = [] \<Longrightarrow> returns (sql_update f) d P = P () (d\<lparr>db_tabs := f (db_tabs d)\<rparr>)"
  by (simp add: returns_def sql_update_def exec_ok)

lemma returns_sql_insert [wp_simps]:
  "db_script d = [] \<Longrightarrow> returns (sql_insert pick f) d P =
    P () (d\<lparr>db_tabs := f (pick (db_tabs d)) (db_tabs d), db_last := pick (db_tabs d)\<rparr>)"
  by (simp add: returns_def sql_insert_def exec_ok Let_def)

lemma returns_begin [wp_simps]:
  "db_script d = [] \<Longrightarrow> returns transactionBegin d P =
    (db_saved d = None \<and> P () (d\<lparr>db_saved := Some (db_tabs d)\<rparr>))"
  by (auto simp: returns_def transactionBegin_def exec_ok split: option.splits)

lemma returns_commit [wp_simps]:
  "db_script d = [] \<Longrightarrow> returns transactionCommit d P =
    (db_saved d \<noteq> None \<and> P () (d\<lparr>db_saved := None\<rparr>))"
  by (auto simp: returns_def transactionCommit_def exec_ok split: option.splits)

lemma returns_lastInsertId [wp_simps]: "returns lastInsertId d P = P (db_last d) d"
  by (simp add: lastInsertId_def returns_gets)

text \<open>What one statement can do to a connection: keep its rows, or act once.\<close>

lemma exec_cases:
  obtains (fail) e where "exec f d = (Exn e, d\<lparr>db_script := tl (db_script d)\<rparr>)"
  | (run) x d' where "f (d\<lparr>db_script := tl (db_script d)\<rparr>) = Inr (x, d')" and "exec f d = (Ok x, d')"
  by (cases "db_script d"; cases "hd (db_script d)"; cases "f (d\<lparr>db_script := tl (db_script d)\<rparr>)")
     (auto simp: exec_def Let_def split: list.splits)

subsection \<open>Row lemmas\<close>

lemma find_Some_set: "find P xs = Some x \<Longrightarrow> x \<in> set xs \<and> P x"
  by (auto simp: find_Some_iff)

lemma find_distinct_key:
  assumes "distinct (map f xs)" and "x \<in> set xs"
  shows "find (\<lambda>y. f y = f x) xs = Some x"
  using assms by (induction xs) (auto simp: image_iff)

lemma find_key_None: "find (\<lambda>y. f y = k) xs = None \<longleftrightarrow> k \<notin> f ` set xs"
  by (auto simp: find_None_iff)

lemma find_key_Some:
  "distinct (map f xs) \<Longrightarrow> find (\<lambda>y. f y = k) xs = Some x \<longleftrightarrow> x \<in> set xs \<and> f x = k"
  using find_distinct_key[of f xs x] by (auto dest: find_Some_set)

lemma find_filter: "find P (filter Q xs) = find (\<lambda>x. P x \<and> Q x) xs"
  by (induction xs) auto

lemma find_append: "find P (xs @ ys) = (case find P xs of None \<Rightarrow> find P ys | Some x \<Rightarrow> Some x)"
  by (induction xs) auto

end
