(* ===== verification/Sql_Stmt.thy ===== *)
theory Sql_Stmt
  imports Sql_Tables Sql_Store
begin

unbundle bit_operations_syntax

text \<open>
  \<open>easySQLite/SqlPreparedStmt.cpp\<close> and \<open>SqlDatabase.cpp\<close>: prepared statements with their
  retry loops, and opening, closing and the transactions of a database.  The functions of
  SQLite are the record \<open>api\<close>, acting on the state \<open>'e\<close> of the engine; result codes are
  those of \<open>sqlite3.h\<close>, extended codes carry the primary code in their low byte.  A retry
  loop ends only if the engine lets it, so its result is an option.

  The lemmas show when the loops end and with what, and that the transactions of the class
  \<open>Database\<close> are those of the connections in \<open>Sql_Store\<close>.
\<close>

subsection \<open>The functions of SQLite\<close>

definition SQLITE_BUSY :: int where "SQLITE_BUSY = 5"
definition SQLITE_LOCKED :: int where "SQLITE_LOCKED = 6"
definition SQLITE_ROW :: int where "SQLITE_ROW = 100"
definition SQLITE_DONE :: int where "SQLITE_DONE = 101"
definition SQLITE_NULL :: int where "SQLITE_NULL = 5"

lemmas sqlite_codes = SQLITE_OK_def SQLITE_ERROR_def SQLITE_BUSY_def SQLITE_LOCKED_def SQLITE_ROW_def SQLITE_DONE_def SQLITE_NULL_def

record ('e, 'd) api =
  api_prepare :: "string \<Rightarrow> 'e \<Rightarrow> int \<times> 'e"
  api_step :: "'e \<Rightarrow> int \<times> 'e"
  api_reset :: "'e \<Rightarrow> 'e"
  api_finalize :: "'e \<Rightarrow> 'e"
  api_errmsg :: "'e \<Rightarrow> string"
  api_column_count :: "'e \<Rightarrow> int"
  api_column_type :: "int \<Rightarrow> 'e \<Rightarrow> int"
  api_column_int :: "int \<Rightarrow> 'e \<Rightarrow> int"
  api_column_double :: "int \<Rightarrow> 'e \<Rightarrow> 'd"
  api_column_text :: "int \<Rightarrow> 'e \<Rightarrow> string option"
  api_column_blob :: "int \<Rightarrow> 'e \<Rightarrow> byte list"
  api_bind_int :: "int \<Rightarrow> int \<Rightarrow> 'e \<Rightarrow> 'e"
  api_bind_double :: "int \<Rightarrow> 'd \<Rightarrow> 'e \<Rightarrow> 'e"
  api_bind_text :: "int \<Rightarrow> string \<Rightarrow> 'e \<Rightarrow> 'e"
  api_bind_blob :: "int \<Rightarrow> byte list \<Rightarrow> 'e \<Rightarrow> 'e"
  api_bind_null :: "int \<Rightarrow> 'e \<Rightarrow> 'e"

subsection \<open>PreparedStmt\<close>

text \<open>The member \<open>_columnCount\<close>; the statement itself is part of the engine.\<close>

record stmt =
  st_columnCount :: int

definition stmt_getError :: "('e, 'd) api \<Rightarrow> 'e \<Rightarrow> string" where
  "stmt_getError A e = api_errmsg A e"

definition is_locked :: "int \<Rightarrow> bool" where
  "is_locked res \<longleftrightarrow> res = SQLITE_LOCKED \<or> res = SQLITE_BUSY"

partial_function (option) prepare_loop :: "('e, 'd) api \<Rightarrow> string \<Rightarrow> 'e \<Rightarrow> (int \<times> 'e) option" where
  [code]: "prepare_loop A sql e =
    (if is_locked (fst (api_prepare A sql e)) then prepare_loop A sql (snd (api_prepare A sql e))
     else Some (api_prepare A sql e))"

definition PreparedStmt :: "('e, 'd) api \<Rightarrow> string \<Rightarrow> 'e \<Rightarrow> (stmt outcome \<times> 'e) option" where
  "PreparedStmt A sql e = map_option (\<lambda>(err, e).
     (if err \<noteq> SQLITE_OK then Exn (SqlException (''Error creating prepared statement: '' @ stmt_getError A e))
      else Ok \<lparr>st_columnCount = -2\<rparr>, e)) (prepare_loop A (c_str sql) e)"

definition stmt_reset :: "('e, 'd) api \<Rightarrow> ('e \<times> stmt, unit) comp" where
  "stmt_reset A = modify (\<lambda>(e, st). (api_reset A e, st\<lparr>st_columnCount := -1\<rparr>))"

definition step :: "('e, 'd) api \<Rightarrow> ('e \<times> stmt, int) comp" where
  "step A = (\<lambda>(e, st). case api_step A e of (res, e) \<Rightarrow> (Ok res, (e, st)))"

definition throw_error :: "('e, 'd) api \<Rightarrow> ('e \<times> stmt, 'a) comp" where
  "throw_error A = bnd (gets (\<lambda>(e, st). stmt_getError A e)) (\<lambda>msg.
     throw (SqlException (''Error executing prepared statement: '' @ msg)))"

definition stmt_next :: "('e, 'd) api \<Rightarrow> ('e \<times> stmt, bool) comp" where
  "stmt_next A = bnd (step A) (\<lambda>res.
     if res = SQLITE_ROW
     then sqn (modify (\<lambda>(e, st). (e, st\<lparr>st_columnCount := api_column_count A e\<rparr>))) (ret True)
     else if res = SQLITE_DONE
     then sqn (modify (\<lambda>(e, st). (e, st\<lparr>st_columnCount := 0\<rparr>))) (ret False)
     else throw_error A)"

text \<open>The loop of \<open>executeUpdate\<close>: it steps at least once, and again while it may retry.\<close>

partial_function (option) step_loop :: "('e, 'd) api \<Rightarrow> bool \<Rightarrow> 'e \<Rightarrow> (int \<times> 'e) option" where
  [code]: "step_loop A retry e =
    (if retry \<and> is_locked (fst (api_step A e) AND 0xFF) then step_loop A retry (snd (api_step A e))
     else Some (api_step A e))"

definition after_step :: "('e, 'd) api \<Rightarrow> int \<Rightarrow> ('e \<times> stmt, unit) comp" where
  "after_step A res =
    (if res = SQLITE_DONE \<or> res = SQLITE_ROW then stmt_reset A
     else if is_locked (res AND 0xFF) then throw DatabaseLockedException
     else throw_error A)"

definition executeUpdate :: "('e, 'd) api \<Rightarrow> bool \<Rightarrow> 'e \<times> stmt \<Rightarrow> (unit outcome \<times> ('e \<times> stmt)) option" where
  "executeUpdate A retry = (\<lambda>(e, st).
     case step_loop A retry e of None \<Rightarrow> None | Some (res, e) \<Rightarrow> Some (after_step A res (e, st)))"

definition checkColumn :: "int \<Rightarrow> ('e \<times> stmt, unit) comp" where
  "checkColumn index = bnd (gets (\<lambda>(e, st). st_columnCount st)) (\<lambda>n.
     if n < 0 then throw (SqlException ''Wrong state'')
     else if index \<ge> n then throw (SqlException ''Wrong column number'') else ret ())"

definition stmt_getInt :: "('e, 'd) api \<Rightarrow> int \<Rightarrow> ('e \<times> stmt, int) comp" where
  "stmt_getInt A index = gets (\<lambda>(e, st). int32 (api_column_int A index e))"

definition stmt_getInt64 :: "('e, 'd) api \<Rightarrow> int \<Rightarrow> ('e \<times> stmt, int) comp" where
  "stmt_getInt64 A index = gets (\<lambda>(e, st). api_column_int A index e)"

definition stmt_getDouble :: "('e, 'd) api \<Rightarrow> int \<Rightarrow> ('e \<times> stmt, 'd) comp" where
  "stmt_getDouble A index = gets (\<lambda>(e, st). api_column_double A index e)"

text \<open>\<open>string((const char*) NULL)\<close> for a column that is NULL.\<close>

definition stmt_getString :: "('e, 'd) api \<Rightarrow> int \<Rightarrow> ('e \<times> stmt, string) comp" where
  "stmt_getString A index = bnd (gets (\<lambda>(e, st). api_column_text A index e)) (\<lambda>t.
     case t of None \<Rightarrow> halt NullDeref | Some s \<Rightarrow> ret (c_str s))"

definition stmt_getBlob :: "('e, 'd) api \<Rightarrow> int \<Rightarrow> ('e \<times> stmt, byte list) comp" where
  "stmt_getBlob A index = gets (\<lambda>(e, st). api_column_blob A index e)"

definition stmt_isNull :: "('e, 'd) api \<Rightarrow> int \<Rightarrow> ('e \<times> stmt, bool) comp" where
  "stmt_isNull A index = gets (\<lambda>(e, st). api_column_type A index e = SQLITE_NULL)"

definition on_engine :: "('e \<Rightarrow> 'e) \<Rightarrow> ('e \<times> stmt, unit) comp" where
  "on_engine f = modify (\<lambda>(e, st). (f e, st))"

definition bindInt :: "('e, 'd) api \<Rightarrow> int \<Rightarrow> int \<Rightarrow> ('e \<times> stmt, unit) comp" where
  "bindInt A index v = on_engine (api_bind_int A index (int32 v))"

definition bindInt64 :: "('e, 'd) api \<Rightarrow> int \<Rightarrow> int \<Rightarrow> ('e \<times> stmt, unit) comp" where
  "bindInt64 A index v = on_engine (api_bind_int A index (int64 v))"

definition bindDouble :: "('e, 'd) api \<Rightarrow> int \<Rightarrow> 'd \<Rightarrow> ('e \<times> stmt, unit) comp" where
  "bindDouble A index v = on_engine (api_bind_double A index v)"

definition bindString :: "('e, 'd) api \<Rightarrow> int \<Rightarrow> string \<Rightarrow> ('e \<times> stmt, unit) comp" where
  "bindString A index v = on_engine (api_bind_text A index v)"

definition bindBlob :: "('e, 'd) api \<Rightarrow> int \<Rightarrow> byte list \<Rightarrow> ('e \<times> stmt, unit) comp" where
  "bindBlob A index v = on_engine (api_bind_blob A index v)"

definition bindNull :: "('e, 'd) api \<Rightarrow> int \<Rightarrow> ('e \<times> stmt, unit) comp" where
  "bindNull A index = on_engine (api_bind_null A index)"

subsection \<open>Database\<close>

text \<open>The handle \<open>_db\<close>, if it is not null, and what opening it gave.\<close>

record 'h database =
  d_handle :: "'h option"
  d_result :: int
  d_err :: string

definition isOpen :: "'h database \<Rightarrow> bool" where
  "isOpen d \<longleftrightarrow> d_result d = SQLITE_OK"

definition Database_close :: "('h \<Rightarrow> 'e \<Rightarrow> 'e) \<Rightarrow> 'e \<times> 'h database \<Rightarrow> 'e \<times> 'h database" where
  "Database_close sqlite3_close = (\<lambda>(e, d). case d_handle d of None \<Rightarrow> (e, d)
     | Some h \<Rightarrow> (sqlite3_close h e, d\<lparr>d_handle := None, d_err := [], d_result := SQLITE_ERROR\<rparr>))"

definition Database_new :: "'h database" where
  "Database_new = \<lparr>d_handle = None, d_result = SQLITE_ERROR, d_err = []\<rparr>"

text \<open>\<open>sqlite3_open\<close> yields a code, a handle even if it fails (unless memory runs out), and
  the error text of that handle.\<close>

definition Database_open ::
  "('h \<Rightarrow> 'e \<Rightarrow> 'e) \<Rightarrow> (string \<Rightarrow> 'e \<Rightarrow> (int \<times> 'h option \<times> string) \<times> 'e) \<Rightarrow> string
   \<Rightarrow> ('e \<times> 'h database, bool) comp" where
  "Database_open sqlite3_close sqlite3_open filename = (\<lambda>s.
     case Database_close sqlite3_close s of (e, d) \<Rightarrow>
     (case sqlite3_open (c_str filename) e of ((code, h, msg), e) \<Rightarrow>
       (let d = d\<lparr>d_result := code, d_handle := h\<rparr>
        in if isOpen d then (Ok True, (e, d))
           else (let d = d\<lparr>d_err := msg\<rparr>
                 in (Exn (SqlException (''Database::open: '' @ d_err d)), (e, d))))))"

datatype transaction_mode = tr_deferred | tr_immediate | tr_exclusive

definition begin_text :: "transaction_mode \<Rightarrow> string" where
  "begin_text mode = ''BEGIN'' @ (if mode = tr_immediate then '' IMMEDIATE'' else [])
     @ (if mode = tr_exclusive then '' EXCLUSIVE'' else []) @ '' TRANSACTION''"

text \<open>A query of a local \<open>RecordSet rs(_db)\<close>, whose set of fields is empty.\<close>

definition plain_query :: "'e engine \<Rightarrow> string \<Rightarrow> ('e, bool) comp" where
  "plain_query eng q = (\<lambda>e. case FieldSet_of_array None of
       Ok fs \<Rightarrow> (case rs_query eng q (e, new_recordset fs) of (r, (e, rs)) \<Rightarrow> (r, e))
     | Exn x \<Rightarrow> (Exn x, e) | Halt h \<Rightarrow> (Halt h, e))"

definition Database_transactionBegin :: "'e engine \<Rightarrow> transaction_mode \<Rightarrow> ('e, bool) comp" where
  "Database_transactionBegin eng mode = bnd (plain_query eng (begin_text mode)) (\<lambda>b. if b then ret True else ret False)"

definition Database_transactionCommit :: "'e engine \<Rightarrow> ('e, bool) comp" where
  "Database_transactionCommit eng = bnd (plain_query eng ''COMMIT TRANSACTION'') (\<lambda>b. if b then ret True else ret False)"

definition Database_transactionRollback :: "'e engine \<Rightarrow> ('e, bool) comp" where
  "Database_transactionRollback eng = bnd (plain_query eng ''ROLLBACK TRANSACTION'') (\<lambda>b. if b then ret True else ret False)"

subsection \<open>The retry loop\<close>

text \<open>The state of the engine after \<open>n\<close> steps, and the code of the step it makes then.\<close>

definition stepped :: "('e, 'd) api \<Rightarrow> nat \<Rightarrow> 'e \<Rightarrow> 'e" where
  "stepped A n = (\<lambda>e. snd (api_step A e)) ^^ n"

definition busy_at :: "('e, 'd) api \<Rightarrow> nat \<Rightarrow> 'e \<Rightarrow> bool" where
  "busy_at A n e \<longleftrightarrow> is_locked (fst (api_step A (stepped A n e)) AND 0xFF)"

lemma stepped_0 [simp]: "stepped A 0 e = e"
  by (simp add: stepped_def)

lemma stepped_Suc: "stepped A (Suc n) e = stepped A n (snd (api_step A e))"
  by (simp add: stepped_def funpow_Suc_right del: funpow.simps)

lemma step_loop_returns:
  "\<forall>k<n. busy_at A k e \<Longrightarrow> \<not> busy_at A n e \<Longrightarrow> step_loop A True e = Some (api_step A (stepped A n e))"
proof (induction n arbitrary: e)
  case 0
  then show ?case by (subst step_loop.simps) (simp add: busy_at_def)
next
  case (Suc n)
  let ?e = "snd (api_step A e)"
  have "busy_at A 0 e" "\<forall>k<n. busy_at A k ?e" "\<not> busy_at A n ?e"
    using Suc.prems by (auto simp: busy_at_def stepped_Suc dest: spec[of _ "Suc k" for k])
  then show ?case
    using Suc.IH[of ?e] by (subst step_loop.simps) (simp add: busy_at_def stepped_Suc)
qed


lemma step_loop_None:
  assumes "\<forall>n. busy_at A n e"
  shows "step_loop A True e = None"
proof (rule ccontr)
  assume "step_loop A True e \<noteq> None"
  then obtain r where "step_loop A True e = Some r" by blast
  then have "True \<longrightarrow> (\<exists>n. \<not> busy_at A n e)"
  proof (rule step_loop.raw_induct[rotated, where P = "\<lambda>A retry e r. retry \<longrightarrow> (\<exists>n. \<not> busy_at A n e)"], goal_cases)
    case (1 f A retry e r)
    show ?case
    proof (cases "retry \<and> is_locked (fst (api_step A e) AND 0xFF)")
      case True
      then have "retry \<longrightarrow> (\<exists>n. \<not> busy_at A n (snd (api_step A e)))"
        using 1 by (metis (no_types, lifting))
      then show ?thesis using True stepped_Suc by (metis busy_at_def)
    next
      case False
      then show ?thesis by (auto simp: busy_at_def intro!: exI[of _ 0])
    qed
  qed
  with assms show False by simp
qed

lemma first_free: "\<not> busy_at A n e \<Longrightarrow> \<exists>m. (\<forall>k<m. busy_at A k e) \<and> \<not> busy_at A m e"
  using exists_least_iff[of "\<lambda>n. \<not> busy_at A n e"] by auto

lemma step_loop_True:
  "step_loop A True e = None \<longleftrightarrow> (\<forall>n. busy_at A n e)"
proof (cases "\<forall>n. busy_at A n e")
  case True
  then show ?thesis by (simp add: step_loop_None)
next
  case False
  then obtain n where "\<not> busy_at A n e" by blast
  from first_free[OF this] obtain m where "\<forall>k<m. busy_at A k e" "\<not> busy_at A m e" by blast
  then have "step_loop A True e = Some (api_step A (stepped A m e))" by (rule step_loop_returns)
  with False show ?thesis by simp
qed

lemma step_loop_free: "step_loop A True e = Some (res, e') \<Longrightarrow> \<not> is_locked (res AND 0xFF)"
proof -
  assume s: "step_loop A True e = Some (res, e')"
  then have "\<not> (\<forall>n. busy_at A n e)" using step_loop_True[of A e] by simp
  then obtain n where "\<not> busy_at A n e" by blast
  from first_free[OF this] obtain m where m: "\<forall>k<m. busy_at A k e" "\<not> busy_at A m e" by blast
  then have "(res, e') = api_step A (stepped A m e)" using step_loop_returns[OF m] s by simp
  then show ?thesis using m(2) unfolding busy_at_def by (metis fst_conv)
qed

lemma step_loop_once: "step_loop A False e = Some (api_step A e)"
  by (subst step_loop.simps) simp

lemma after_step_exn:
  "fst (after_step A res s) = Exn DatabaseLockedException \<longleftrightarrow> is_locked (res AND 0xFF)"
proof -
  have "\<not> is_locked (SQLITE_DONE AND 0xFF)" "\<not> is_locked (SQLITE_ROW AND 0xFF)"
    by (simp_all add: is_locked_def sqlite_codes)
  then show ?thesis
    by (cases s) (auto simp: after_step_def stmt_reset_def throw_error_def run_simps)
qed

subsection \<open>The transactions of a connection\<close>

text \<open>The engine of a connection of \<open>Sql_Store\<close>, for the statements that control transactions.\<close>

definition answer :: "(sqldb, unit) comp \<Rightarrow> sqldb \<Rightarrow> (int \<times> string option list list \<times> string option) \<times> sqldb" where
  "answer m d = (case m d of
       (Ok _, d) \<Rightarrow> ((SQLITE_OK, [], None), d)
     | (_, d) \<Rightarrow> ((SQLITE_ERROR, [], Some ''error''), d))"

definition connection_engine :: "sqldb engine" where
  "connection_engine sql =
    (if sql = ''BEGIN TRANSACTION'' \<or> sql = ''BEGIN IMMEDIATE TRANSACTION'' \<or> sql = ''BEGIN EXCLUSIVE TRANSACTION''
     then answer transactionBegin
     else if sql = ''COMMIT TRANSACTION'' then answer transactionCommit
     else if sql = ''ROLLBACK TRANSACTION'' then answer transactionRollback
     else (\<lambda>d. ((SQLITE_ERROR, [], Some ''syntax error''), d)))"

text \<open>The results of the class \<open>Database\<close> for the results of the model: true, or a \<open>sql::Exception\<close>.\<close>

definition as_query :: "(sqldb, unit) comp \<Rightarrow> (sqldb, bool) comp" where
  "as_query m = (\<lambda>d. case m d of
       (Ok _, d) \<Rightarrow> (Ok True, d)
     | (_, d) \<Rightarrow> (Exn (SqlException ''RecordSet::query: error''), d))"

lemma plain_query_answer:
  "connection_engine q = answer m \<Longrightarrow> c_str q = q \<Longrightarrow> plain_query connection_engine q = as_query m"
  by (auto simp: fun_eq_iff plain_query_def rs_query_def FieldSet_of_array_def answer_def as_query_def isResult_def
      sqlite_codes Let_def new_recordset_def rs_close_def split: prod.split outcome.split)

subsection \<open>Properties\<close>

text \<open>C28: \<open>executeUpdate(true)\<close> loops forever exactly if every step finds the database locked or busy, also by
  an extended code; it never throws \<open>DatabaseLockedException\<close>.  Without retrying it makes one step and throws
  \<open>DatabaseLockedException\<close> exactly if this step finds the database locked.\<close>

theorem executeUpdate_retries:
  "(executeUpdate A True (e, st) = None \<longleftrightarrow> (\<forall>n. busy_at A n e)) \<and>
   (\<forall>r. executeUpdate A True (e, st) = Some r \<longrightarrow> fst r \<noteq> Exn DatabaseLockedException) \<and>
   (\<exists>r. executeUpdate A False (e, st) = Some r \<and> (fst r = Exn DatabaseLockedException \<longleftrightarrow> busy_at A 0 e))"
proof (intro conjI allI impI)
  show "executeUpdate A True (e, st) = None \<longleftrightarrow> (\<forall>n. busy_at A n e)"
    using step_loop_True[of A e] by (auto simp: executeUpdate_def split: option.split)
  show "fst r \<noteq> Exn DatabaseLockedException" if "executeUpdate A True (e, st) = Some r" for r
    using that step_loop_free[of A e] by (auto simp: executeUpdate_def after_step_exn split: option.splits)
  show "\<exists>r. executeUpdate A False (e, st) = Some r \<and> (fst r = Exn DatabaseLockedException \<longleftrightarrow> busy_at A 0 e)"
    by (cases "api_step A e") (simp add: executeUpdate_def step_loop_once after_step_exn busy_at_def)
qed

text \<open>An engine that is locked for a number of steps.\<close>

definition locked_api :: "(nat, int) api" where
  "locked_api = \<lparr>api_prepare = (\<lambda>_ e. (0, e)),
     api_step = (\<lambda>e. case e of 0 \<Rightarrow> (SQLITE_DONE, 0) | Suc n \<Rightarrow> (if even n then SQLITE_BUSY else 262, n)),
     api_reset = id, api_finalize = id, api_errmsg = (\<lambda>_. []), api_column_count = (\<lambda>_. 0), api_column_type = (\<lambda>_ _. 0),
     api_column_int = (\<lambda>_ _. 0), api_column_double = (\<lambda>_ _. 0), api_column_text = (\<lambda>_ _. None),
     api_column_blob = (\<lambda>_ _. []), api_bind_int = (\<lambda>_ _ e. e), api_bind_double = (\<lambda>_ _ e. e),
     api_bind_text = (\<lambda>_ _ e. e), api_bind_blob = (\<lambda>_ _ e. e), api_bind_null = (\<lambda>_ e. e)\<rparr>"

theorem executeUpdate_retries_witness:
  "(\<exists>r. executeUpdate locked_api True (3, \<lparr>st_columnCount = -2\<rparr>) = Some r \<and> fst r \<noteq> Exn DatabaseLockedException) \<and>
   (\<exists>r. executeUpdate locked_api False (2, \<lparr>st_columnCount = -2\<rparr>) = Some r \<and> fst r = Exn DatabaseLockedException)"
proof -
  have "\<not> busy_at locked_api 3 3" "busy_at locked_api 0 2"
    by (simp_all add: busy_at_def stepped_def locked_api_def is_locked_def sqlite_codes eval_nat_numeral)
  then show ?thesis
    using executeUpdate_retries[of locked_api 3 "\<lparr>st_columnCount = -2\<rparr>"]
      executeUpdate_retries[of locked_api 2 "\<lparr>st_columnCount = -2\<rparr>"] by blast
qed

text \<open>On the engine of a connection the member functions of \<open>Database\<close> for transactions, with the text
  they build for every mode, do what the connections under the file system do: the same state afterwards, true
  for success and \<open>sql::Exception\<close> for a failure.\<close>

theorem transactions_refine:
  "Database_transactionBegin connection_engine mode = as_query transactionBegin \<and>
   Database_transactionCommit connection_engine = as_query transactionCommit \<and>
   Database_transactionRollback connection_engine = as_query transactionRollback"
proof -
  have id: "bnd m (\<lambda>b. if b then ret True else ret False) = m" for m :: "(sqldb, bool) comp"
    by (auto simp: fun_eq_iff run_simps split: prod.split outcome.split)
  have "c_str (begin_text mode) = begin_text mode" by (cases mode) (simp_all add: begin_text_def c_str_def)
  moreover have "connection_engine (begin_text mode) = answer transactionBegin"
    by (cases mode) (simp_all add: begin_text_def connection_engine_def)
  moreover have "connection_engine ''COMMIT TRANSACTION'' = answer transactionCommit"
    "connection_engine ''ROLLBACK TRANSACTION'' = answer transactionRollback"
    by (simp_all add: connection_engine_def)
  ultimately show ?thesis
    by (simp add: Database_transactionBegin_def Database_transactionCommit_def Database_transactionRollback_def
        id plain_query_answer c_str_def)
qed

end
