(* ===== verification/Db_Files.thy ===== *)
theory Db_Files
  imports Sql_Store
begin

text \<open>
  The part of class \<open>DataBase\<close> (\<open>database.cpp\<close>) that keeps the name space: \<open>getByPath\<close>,
  \<open>create\<close>, \<open>remove\<close>, \<open>rename\<close>, \<open>utime\<close>, \<open>dirEmpty\<close>, \<open>readdir\<close> and what the constructor does
  to the rows.  They run on a connection; \<open>now\<close> is the value of \<open>time\<close>.

  A \<open>file_info\<close> that \<open>getByPath\<close> returns for a path without a row has an uninitialised
  mode (\<open>e_garbage\<close>).  Dates pass through \<open>bindInt\<close>, which takes an \<open>int\<close>.
\<close>

unbundle bit_operations_syntax

subsection \<open>Modes and errors\<close>

definition S_IFMT :: "32 word" where "S_IFMT = 0xF000"
definition S_IFDIR :: "32 word" where "S_IFDIR = 0x4000"
definition S_IFREG :: "32 word" where "S_IFREG = 0x8000"

definition S_ISDIR :: "32 word \<Rightarrow> bool" where "S_ISDIR m \<longleftrightarrow> m AND S_IFMT = S_IFDIR"
definition S_ISREG :: "32 word \<Rightarrow> bool" where "S_ISREG m \<longleftrightarrow> m AND S_IFMT = S_IFREG"

definition ENOENT :: int where "ENOENT = 2"
definition EIO :: int where "EIO = 5"
definition EBUSY :: int where "EBUSY = 16"
definition EEXIST :: int where "EEXIST = 17"
definition ENOTDIR :: int where "ENOTDIR = 20"
definition EISDIR :: int where "EISDIR = 21"
definition EINVAL :: int where "EINVAL = 22"
definition ENOSYS :: int where "ENOSYS = 38"
definition ENOTEMPTY :: int where "ENOTEMPTY = 39"

lemmas errno_defs = ENOENT_def EIO_def EBUSY_def EEXIST_def ENOTDIR_def EISDIR_def EINVAL_def
  ENOSYS_def ENOTEMPTY_def

subsection \<open>The statements\<close>

definition stInsertFile :: "int \<Rightarrow> string \<Rightarrow> int \<Rightarrow> 32 word \<Rightarrow> int \<Rightarrow> tables \<Rightarrow> tables" where
  "stInsertFile rid path depth mode t T = T\<lparr>t_files := t_files T @
     [\<lparr>fr_id = rid, fr_path = path, fr_depth = depth, fr_size = 0, fr_mode = mode, fr_uid = 0, fr_gid = 0,
       fr_mtime = t, fr_ctime = t, fr_link_target = None\<rparr>]\<rparr>"

definition stDeleteFile :: "string \<Rightarrow> tables \<Rightarrow> tables" where
  "stDeleteFile path T = T\<lparr>t_files := filter (\<lambda>r. fr_path r \<noteq> path) (t_files T)\<rparr>"

definition stSelectLike :: "string \<Rightarrow> tables \<Rightarrow> file_row list" where
  "stSelectLike pat T = filter (\<lambda>r. sql_like pat (fr_path r)) (t_files T)"

definition stSelectChildren :: "string \<Rightarrow> int \<Rightarrow> tables \<Rightarrow> file_row list" where
  "stSelectChildren pat depth T = filter (\<lambda>r. sql_like pat (fr_path r) \<and> fr_depth r = depth) (t_files T)"

definition stSetPath :: "string \<Rightarrow> (int \<Rightarrow> int) \<Rightarrow> int \<Rightarrow> tables \<Rightarrow> tables" where
  "stSetPath path depth rid T =
    T\<lparr>t_files := map (\<lambda>r. if fr_id r = rid then r\<lparr>fr_path := path, fr_depth := depth (fr_depth r)\<rparr> else r) (t_files T)\<rparr>"

definition stSetMtime :: "int \<Rightarrow> string \<Rightarrow> tables \<Rightarrow> tables" where
  "stSetMtime t path T = T\<lparr>t_files := map (\<lambda>r. if fr_path r = path then r\<lparr>fr_mtime := t\<rparr> else r) (t_files T)\<rparr>"

text \<open>An \<open>INSERT\<close> or \<open>UPDATE\<close> of \<open>files\<close> under \<open>CONSTRAINT path_uniq UNIQUE (path)\<close>.\<close>

definition sql_write_files :: "(tables \<Rightarrow> tables) \<Rightarrow> (sqldb, unit) comp" where
  "sql_write_files f = exec (\<lambda>d.
    if distinct (map fr_path (t_files (f (db_tabs d)))) then Inr ((), d\<lparr>db_tabs := f (db_tabs d)\<rparr>)
    else Inl sql_error)"

subsection \<open>The operations\<close>

definition stat_of :: "file_row \<Rightarrow> stat" where
  "stat_of r = \<lparr>st_ino = fr_id r, st_size = fr_size r, st_mode = fr_mode r, st_uid = fr_uid r,
     st_gid = fr_gid r, st_mtime = fr_mtime r, st_ctime = fr_ctime r\<rparr>"

definition getByPath :: "('fm, 'sm) env \<Rightarrow> string \<Rightarrow> (sqldb, 'fm file_info) comp" where
  "getByPath E filename =
    bnd (sql_query (stGetByPath filename)) (\<lambda>row.
    ret (case row of
        Some r \<Rightarrow> \<lparr>fi_refcount = 1, fi_name = filename, fi_depth = fr_depth r, fi_st = stat_of r,
                   fi_blocks = cs_empty (e_fblocks E)\<rparr>
      | None \<Rightarrow> \<lparr>fi_refcount = 1, fi_name = [], fi_depth = 0,
                 fi_st = \<lparr>st_ino = 0, st_size = 0, st_mode = e_garbage E, st_uid = 0, st_gid = 0,
                          st_mtime = 0, st_ctime = 0\<rparr>,
                 fi_blocks = cs_empty (e_fblocks E)\<rparr>))"

abbreviation fi_ino :: "'fm file_info \<Rightarrow> int" where "fi_ino f \<equiv> st_ino (fi_st f)"
abbreviation fi_mode :: "'fm file_info \<Rightarrow> 32 word" where "fi_mode f \<equiv> st_mode (fi_st f)"

definition create :: "('fm, 'sm) env \<Rightarrow> int \<Rightarrow> string \<Rightarrow> 32 word \<Rightarrow> (sqldb, int) comp" where
  "create E now filename mode =
    bnd (if filename \<noteq> ''/'' then
           bnd (getByPath E (e_branch E filename)) (\<lambda>dir.
           if fi_ino dir = 0 then ret (Inl (- ENOENT))
           else if fi_mode dir AND S_IFMT \<noteq> S_IFDIR then ret (Inl (- ENOTDIR))
           else ret (Inr (fi_depth dir + 1)))
         else ret (Inr 0)) (\<lambda>res.
    case res of
      Inl err \<Rightarrow> ret err
    | Inr depth \<Rightarrow>
        bnd (getByPath E filename) (\<lambda>fi.
        if fi_ino fi \<noteq> 0 then ret (- EEXIST)
        else
          sqn (bnd (gets (\<lambda>d. e_newid E (map fr_id (t_files (db_tabs d))))) (\<lambda>rid.
               sql_write_files (stInsertFile rid filename depth mode (int32 now))))
         (ret 0)))"

definition remove :: "string \<Rightarrow> (sqldb, int) comp" where
  "remove filename = sqn (sql_update (stDeleteFile filename)) (ret 0)"

definition utime :: "string \<Rightarrow> int \<Rightarrow> (sqldb, int) comp" where
  "utime filename modtime = sqn (sql_update (stSetMtime (int32 modtime) filename)) (ret 0)"

text \<open>\<open>*name.string().rbegin()\<close> has no meaning for an empty name.\<close>

definition child_pattern :: "string \<Rightarrow> (sqldb, string) comp" where
  "child_pattern name =
    (if name = [] then halt NullDeref
     else if last name = CHR ''/'' then ret (name @ ''%'')
     else ret (name @ ''/%''))"

definition dirEmpty :: "'fm file_info \<Rightarrow> (sqldb, bool) comp" where
  "dirEmpty dir =
    bnd (child_pattern (fi_name dir)) (\<lambda>pat.
    bnd (sql_query (stSelectChildren pat (fi_depth dir + 1))) (\<lambda>rows.
    ret (length rows = 0)))"

definition readdir :: "('fm, 'sm) env \<Rightarrow> 'fm file_info \<Rightarrow> (sqldb, 'fm file_info list) comp" where
  "readdir E directory =
    bnd (child_pattern (fi_name directory)) (\<lambda>pat.
    bnd (sql_query (stSelectChildren pat (fi_depth directory + 1))) (\<lambda>rows.
    ret (map (\<lambda>r. \<lparr>fi_refcount = 1, fi_name = fr_path r, fi_depth = fi_depth directory + 1,
                   fi_st = stat_of r, fi_blocks = cs_empty (e_fblocks E)\<rparr>) rows)))"

text \<open>The loop of \<open>rename\<close> over the rows below a directory.\<close>

primrec rename_loop :: "string \<Rightarrow> string \<Rightarrow> int \<Rightarrow> file_row list \<Rightarrow> (sqldb, unit) comp" where
  "rename_loop oldPath newPath depthDiff [] = ret ()"
| "rename_loop oldPath newPath depthDiff (r # rows) =
    sqn (sql_write_files (stSetPath (newPath @ drop (length oldPath) (fr_path r)) (\<lambda>d. d + depthDiff) (fr_id r)))
   (rename_loop oldPath newPath depthDiff rows)"

definition rename :: "('fm, 'sm) env \<Rightarrow> string \<Rightarrow> string \<Rightarrow> (sqldb, int) comp" where
  "rename E oldPath newPath =
    bnd (getByPath E oldPath) (\<lambda>oldFile.
    if fi_ino oldFile = 0 then ret (- ENOENT) else
    bnd (getByPath E (e_branch E newPath)) (\<lambda>destDir.
    if fi_ino destDir = 0 then ret (- ENOENT)
    else if \<not> S_ISDIR (fi_mode destDir) then ret (- ENOTDIR) else
    bnd (getByPath E newPath) (\<lambda>newFile.
    bnd (if fi_ino newFile \<noteq> 0 then
           bnd (if S_ISDIR (fi_mode oldFile) then
                  bnd (if S_ISDIR (fi_mode newFile)
                       then bnd (dirEmpty newFile) (\<lambda>e. ret (\<not> e)) else ret False) (\<lambda>full.
                  if full then ret (- ENOTEMPTY)
                  else if \<not> S_ISDIR (fi_mode newFile) then ret (- ENOTDIR)
                  else if take (length oldPath) newPath = oldPath then ret (- EINVAL)
                  else ret 0)
                else if S_ISDIR (fi_mode newFile) then ret (- EISDIR)
                else ret 0) (\<lambda>err.
           if err \<noteq> 0 then ret err
           else bnd (remove newPath) (\<lambda>res. if res \<noteq> 0 then ret (- EBUSY) else ret 0))
         else ret 0) (\<lambda>err.
    if err \<noteq> 0 then ret err
    else
      sqn (if S_ISDIR (fi_mode oldFile) then
             bnd (sql_query (stSelectLike (oldPath @ ''/%''))) (\<lambda>rows.
             rename_loop oldPath newPath (fi_depth destDir + 1 - fi_depth oldFile) rows)
           else ret ())
     (sqn (sql_write_files (stSetPath newPath (\<lambda>_. fi_depth destDir + 1) (fi_ino oldFile)))
     (ret 0))))))"

text \<open>What the constructor does to the rows: the root directory, if it is not there yet.\<close>

definition DataBase_new :: "('fm, 'sm) env \<Rightarrow> int \<Rightarrow> (sqldb, unit) comp" where
  "DataBase_new E now =
    try_catch (bnd (create E now ''/'' (S_IFDIR OR 0x1ED)) (\<lambda>_. ret ())) (\<lambda>e. ret ())"

subsection \<open>The tree\<close>

text \<open>Ids and paths are unique, and every row but the root has a row of a directory as its parent.\<close>

definition row_ok :: "('fm, 'sm) env \<Rightarrow> file_row set \<Rightarrow> file_row \<Rightarrow> bool" where
  "row_ok E R r \<longleftrightarrow> 0 < fr_id r
   \<and> (if fr_path r = ''/'' then fr_depth r = 0
      else \<exists>p\<in>R. fr_path p = e_branch E (fr_path r) \<and> S_ISDIR (fr_mode p) \<and> fr_depth r = fr_depth p + 1)"

definition tree_ok :: "('fm, 'sm) env \<Rightarrow> tables \<Rightarrow> bool" where
  "tree_ok E T \<longleftrightarrow> distinct (map fr_id (t_files T)) \<and> distinct (map fr_path (t_files T))
   \<and> (\<forall>r\<in>set (t_files T). row_ok E (set (t_files T)) r)"

lemma tree_okD:
  assumes "tree_ok E T"
  shows "distinct (map fr_id (t_files T))" "distinct (map fr_path (t_files T))"
    "r \<in> set (t_files T) \<Longrightarrow> row_ok E (set (t_files T)) r" "r \<in> set (t_files T) \<Longrightarrow> 0 < fr_id r"
  using assms by (auto simp: tree_ok_def row_ok_def)

lemma path_Some: "tree_ok E T \<Longrightarrow> stGetByPath p T = Some r \<longleftrightarrow> r \<in> set (t_files T) \<and> fr_path r = p"
  by (simp add: stGetByPath_def find_key_Some tree_okD)

lemma path_None: "stGetByPath p T = None \<longleftrightarrow> p \<notin> fr_path ` set (t_files T)"
  by (simp add: stGetByPath_def find_key_None)

lemma row_eq_fid: "tree_ok E T \<Longrightarrow> r \<in> set (t_files T) \<Longrightarrow> r' \<in> set (t_files T) \<Longrightarrow> fr_id r = fr_id r' \<longleftrightarrow> r = r'"
  by (auto simp: tree_ok_def distinct_map inj_on_def)

lemma row_eq_path: "tree_ok E T \<Longrightarrow> r \<in> set (t_files T) \<Longrightarrow> r' \<in> set (t_files T) \<Longrightarrow> fr_path r = fr_path r' \<longleftrightarrow> r = r'"
  by (auto simp: tree_ok_def distinct_map inj_on_def)

subsection \<open>Running the operations\<close>

definition file_of :: "('fm, 'sm) env \<Rightarrow> string \<Rightarrow> file_row option \<Rightarrow> 'fm file_info" where
  "file_of E path row =
    (case row of
        Some r \<Rightarrow> \<lparr>fi_refcount = 1, fi_name = path, fi_depth = fr_depth r, fi_st = stat_of r,
                   fi_blocks = cs_empty (e_fblocks E)\<rparr>
      | None \<Rightarrow> \<lparr>fi_refcount = 1, fi_name = [], fi_depth = 0,
                 fi_st = \<lparr>st_ino = 0, st_size = 0, st_mode = e_garbage E, st_uid = 0, st_gid = 0,
                          st_mtime = 0, st_ctime = 0\<rparr>,
                 fi_blocks = cs_empty (e_fblocks E)\<rparr>)"

lemma returns_getByPath [wp_simps]:
  "db_script d = [] \<Longrightarrow> returns (getByPath E p) d P = P (file_of E p (stGetByPath p (db_tabs d))) d"
  by (simp add: getByPath_def wp_simps file_of_def)

lemma returns_write_files [wp_simps]:
  "db_script d = [] \<Longrightarrow> returns (sql_write_files f) d P =
    (distinct (map fr_path (t_files (f (db_tabs d)))) \<and> P () (d\<lparr>db_tabs := f (db_tabs d)\<rparr>))"
  by (simp add: returns_def sql_write_files_def exec_ok)

lemma fi_ino_file_of:
  assumes "tree_ok E T"
  shows "fi_ino (file_of E p (stGetByPath p T)) = 0 \<longleftrightarrow> stGetByPath p T = None"
proof (cases "stGetByPath p T")
  case (Some r)
  with path_Some[OF assms, of p r] tree_okD(4)[OF assms, of r] show ?thesis by (simp add: file_of_def stat_of_def)
qed (simp add: file_of_def)

lemma file_of_Some [simp]:
  "fi_ino (file_of E p (Some r)) = fr_id r" "fi_mode (file_of E p (Some r)) = fr_mode r"
  "fi_depth (file_of E p (Some r)) = fr_depth r" "fi_name (file_of E p (Some r)) = p"
  by (simp_all add: file_of_def stat_of_def)

lemma file_of_None [simp]: "fi_ino (file_of E p None) = 0"
  by (simp add: file_of_def)

text \<open>What \<open>create\<close> answers, from the rows.\<close>

definition create_result :: "('fm, 'sm) env \<Rightarrow> string \<Rightarrow> tables \<Rightarrow> int" where
  "create_result E p T =
    (let parent = stGetByPath (e_branch E p) T in
     if p \<noteq> ''/'' \<and> parent = None then - ENOENT
     else if p \<noteq> ''/'' \<and> \<not> S_ISDIR (fr_mode (the parent)) then - ENOTDIR
     else if stGetByPath p T \<noteq> None then - EEXIST
     else 0)"

definition created_row :: "('fm, 'sm) env \<Rightarrow> int \<Rightarrow> string \<Rightarrow> 32 word \<Rightarrow> tables \<Rightarrow> file_row" where
  "created_row E now p mode T =
    \<lparr>fr_id = e_newid E (map fr_id (t_files T)), fr_path = p,
     fr_depth = (if p = ''/'' then 0 else fr_depth (the (stGetByPath (e_branch E p) T)) + 1),
     fr_size = 0, fr_mode = mode, fr_uid = 0, fr_gid = 0, fr_mtime = int32 now, fr_ctime = int32 now, fr_link_target = None\<rparr>"

lemma create_ok:
  assumes t: "tree_ok E (db_tabs d)" and "db_script d = []"
  shows "returns (create E now p mode) d (\<lambda>x d'. x = create_result E p (db_tabs d)
    \<and> d' = (if x = 0 then d\<lparr>db_tabs := (db_tabs d)\<lparr>t_files := t_files (db_tabs d) @ [created_row E now p mode (db_tabs d)]\<rparr>\<rparr> else d))"
proof -
  have u: "stGetByPath p (db_tabs d) = None \<Longrightarrow> p \<notin> fr_path ` set (t_files (db_tabs d))" by (simp add: path_None)
  have pos: "fr_id r \<noteq> 0" if "stGetByPath q (db_tabs d) = Some r" for q r
    using that path_Some[OF t] tree_okD(4)[OF t] by fastforce
  show ?thesis
    using assms u tree_okD(2)[OF t] pos
    by (cases "stGetByPath (e_branch E p) (db_tabs d)"; cases "stGetByPath p (db_tabs d)"; cases "p = ''/''")
      (auto simp: create_def wp_simps create_result_def created_row_def stInsertFile_def errno_defs S_ISDIR_def Let_def)
qed

context dedup_env
begin

lemma create_tree:
  assumes t: "tree_ok E T" and r: "create_result E p T = 0"
  shows "tree_ok E (T\<lparr>t_files := t_files T @ [created_row E now p mode T]\<rparr>)"
proof -
  let ?r = "created_row E now p mode T"
  have new: "p \<notin> fr_path ` set (t_files T)" using r by (auto simp: create_result_def Let_def path_None errno_defs split: if_splits)
  have id: "fr_id ?r \<notin> fr_id ` set (t_files T)" "0 < fr_id ?r"
    using newid_fresh[of "map fr_id (t_files T)"] newid_pos[of "map fr_id (t_files T)"] by (auto simp: created_row_def)
  have "row_ok E (insert ?r (set (t_files T))) ?r"
  proof (cases "p = ''/''")
    case True
    with id show ?thesis by (simp add: row_ok_def created_row_def)
  next
    case False
    with r obtain q where q: "stGetByPath (e_branch E p) T = Some q" "S_ISDIR (fr_mode q)"
      by (auto simp: create_result_def Let_def errno_defs split: if_splits)
    with path_Some[OF t] have "q \<in> set (t_files T)" "fr_path q = e_branch E p" by auto
    with id False q show ?thesis by (auto simp: row_ok_def created_row_def)
  qed
  moreover have "row_ok E (insert ?r (set (t_files T))) x" if "x \<in> set (t_files T)" for x
    using tree_okD(3)[OF t that] by (auto simp: row_ok_def)
  ultimately show ?thesis
    using t new id by (auto simp: tree_ok_def) (auto simp: created_row_def)
qed

end

subsection \<open>Patterns and children\<close>

lemma like_all: "sql_like ''%'' s"
  by (induction s) auto

lemma like_below: "sql_like (p @ ''/%'') (p @ CHR ''/'' # x)"
proof (induction p)
  case Nil
  show ?case using like_all[of x] by simp
next
  case (Cons c p)
  then show ?case by (cases "c = CHR ''%''") (auto split: list.split)
qed

text \<open>The paths the kernel passes: the root, or a name below a path without a slash at its end.\<close>

definition fs_path :: "string \<Rightarrow> bool" where
  "fs_path p \<longleftrightarrow> p = ''/''
   \<or> (\<exists>d name. p = d @ CHR ''/'' # name \<and> name \<noteq> [] \<and> CHR ''/'' \<notin> set name \<and> (d = [] \<or> last d \<noteq> CHR ''/''))"

definition paths_ok :: "tables \<Rightarrow> bool" where
  "paths_ok T \<longleftrightarrow> (\<forall>r\<in>set (t_files T). fs_path (fr_path r))"

definition pattern_of :: "string \<Rightarrow> string" where
  "pattern_of d = (if last d = CHR ''/'' then d @ ''%'' else d @ ''/%'')"

lemma child_pattern_ok: "d \<noteq> [] \<Longrightarrow> child_pattern d = ret (pattern_of d)"
  by (simp add: child_pattern_def pattern_of_def)

lemma returns_dirEmpty:
  assumes "db_script d = []" and "fi_name dir \<noteq> []"
  shows "returns (dirEmpty dir) d P =
    P (stSelectChildren (pattern_of (fi_name dir)) (fi_depth dir + 1) (db_tabs d) = []) d"
  using assms by (simp add: dirEmpty_def child_pattern_ok wp_simps)

context fuse_env
begin

lemma branch_cases:
  assumes "fs_path p" and "p \<noteq> ''/''"
  obtains d name where "p = d @ CHR ''/'' # name" "name \<noteq> []" "CHR ''/'' \<notin> set name"
    "e_branch E p = (if d = [] then ''/'' else d)" "d \<noteq> [] \<longrightarrow> last d \<noteq> CHR ''/''"
proof -
  from assms obtain d name where p: "p = d @ CHR ''/'' # name" "name \<noteq> []" "CHR ''/'' \<notin> set name"
      "d = [] \<or> last d \<noteq> CHR ''/''" by (auto simp: fs_path_def)
  then have "e_branch E p = (if d = [] then ''/'' else d)"
    using branch_child[of name d] branch_root[of name] by auto
  with p that show thesis by blast
qed

text \<open>Every child of a directory matches the pattern for it.\<close>

lemma child_like:
  assumes "fs_path p" and "p \<noteq> ''/''"
  shows "sql_like (pattern_of (e_branch E p)) p"
proof -
  from branch_cases[OF assms] obtain d name where *: "p = d @ CHR ''/'' # name" "e_branch E p = (if d = [] then ''/'' else d)"
      "d \<noteq> [] \<longrightarrow> last d \<noteq> CHR ''/''" .
  show ?thesis
  proof (cases "d = []")
    case True
    with * like_all[of name] show ?thesis by (simp add: pattern_of_def)
  next
    case False
    with * like_below[of d name] show ?thesis by (simp add: pattern_of_def)
  qed
qed

lemma child_selected:
  assumes t: "tree_ok E T" "paths_ok T" and r: "r \<in> set (t_files T)" "fr_path r \<noteq> ''/''"
    and p: "p \<in> set (t_files T)" "fr_path p = e_branch E (fr_path r)"
  shows "r \<in> set (stSelectChildren (pattern_of (fr_path p)) (fr_depth p + 1) T)"
proof -
  from tree_okD(3)[OF t(1) r(1)] r(2) obtain q where "q \<in> set (t_files T)" "fr_path q = e_branch E (fr_path r)" "fr_depth r = fr_depth q + 1"
    by (auto simp: row_ok_def)
  with row_eq_path[OF t(1) this(1) p(1)] p(2) have "fr_depth r = fr_depth p + 1" by simp
  moreover have "sql_like (pattern_of (fr_path p)) (fr_path r)"
    using child_like[of "fr_path r"] t(2) r p(2) by (simp add: paths_ok_def)
  ultimately show ?thesis using r(1) by (simp add: stSelectChildren_def)
qed

lemma delete_tree:
  assumes t: "tree_ok E T" and leaf: "\<And>r. r \<in> set (t_files T) \<Longrightarrow> fr_path r \<noteq> ''/'' \<Longrightarrow> e_branch E (fr_path r) \<noteq> p"
  shows "tree_ok E (stDeleteFile p T)"
proof -
  have "row_ok E (set (t_files (stDeleteFile p T))) r" if "r \<in> set (t_files T)" for r
  proof (cases "fr_path r = ''/''")
    case True
    with tree_okD(3)[OF t that] show ?thesis by (simp add: row_ok_def)
  next
    case False
    with tree_okD(3)[OF t that] obtain q where q: "q \<in> set (t_files T)" "fr_path q = e_branch E (fr_path r)"
        "S_ISDIR (fr_mode q)" "fr_depth r = fr_depth q + 1" "0 < fr_id r" by (auto simp: row_ok_def)
    with leaf[OF that False] have "q \<in> set (t_files (stDeleteFile p T))" by (simp add: stDeleteFile_def)
    with q False show ?thesis by (auto simp: row_ok_def)
  qed
  with t show ?thesis by (auto simp: tree_ok_def stDeleteFile_def distinct_map inj_on_def)
qed

text \<open>A path that is not a directory has no children.\<close>

lemma file_leaf:
  assumes t: "tree_ok E T" and f: "f \<in> set (t_files T)" "\<not> S_ISDIR (fr_mode f)"
    and r: "r \<in> set (t_files T)" "fr_path r \<noteq> ''/''"
  shows "e_branch E (fr_path r) \<noteq> fr_path f"
proof
  assume b: "e_branch E (fr_path r) = fr_path f"
  from tree_okD(3)[OF t r(1)] r(2) obtain q where "q \<in> set (t_files T)" "fr_path q = e_branch E (fr_path r)" "S_ISDIR (fr_mode q)"
    by (auto simp: row_ok_def)
  with b row_eq_path[OF t this(1) f(1)] f(2) show False by simp
qed

lemma readdir_complete:
  assumes t: "tree_ok E (db_tabs d)" "paths_ok (db_tabs d)" and sc: "db_script d = []"
    and p: "p \<in> set (t_files (db_tabs d))" and dir: "fi_name dir = fr_path p" "fi_depth dir = fr_depth p"
  shows "returns (readdir E dir) d (\<lambda>files d'. d' = d
    \<and> (\<forall>r\<in>set (t_files (db_tabs d)). fr_path r \<noteq> ''/'' \<longrightarrow> e_branch E (fr_path r) = fr_path p \<longrightarrow>
         (\<exists>f\<in>set files. fi_name f = fr_path r \<and> fi_st f = stat_of r)))"
proof -
  have "fr_path p \<noteq> []" using t(2) p by (auto simp: paths_ok_def fs_path_def)
  then show ?thesis
    using sc dir child_selected[OF t _ _ p] by (simp add: readdir_def child_pattern_ok wp_simps) (metis imageI)
qed

end

subsection \<open>Renaming\<close>

text \<open>The rows that follow a renamed directory, and all rows after the loop and after the call.\<close>

definition below_row :: "string \<Rightarrow> string \<Rightarrow> int \<Rightarrow> file_row \<Rightarrow> file_row" where
  "below_row oldPath newPath diff r =
     r\<lparr>fr_path := newPath @ drop (length oldPath) (fr_path r), fr_depth := fr_depth r + diff\<rparr>"

definition loop_row :: "string \<Rightarrow> string \<Rightarrow> int \<Rightarrow> file_row set \<Rightarrow> file_row \<Rightarrow> file_row" where
  "loop_row oldPath newPath diff R r = (if r \<in> R then below_row oldPath newPath diff r else r)"

definition renamed_row :: "string \<Rightarrow> string \<Rightarrow> file_row \<Rightarrow> file_row \<Rightarrow> file_row \<Rightarrow> file_row" where
  "renamed_row oldPath newPath dest src r =
     (if fr_id r = fr_id src then r\<lparr>fr_path := newPath, fr_depth := fr_depth dest + 1\<rparr>
      else if S_ISDIR (fr_mode src) \<and> sql_like (oldPath @ ''/%'') (fr_path r)
      then below_row oldPath newPath (fr_depth dest + 1 - fr_depth src) r
      else r)"

text \<open>No path the call produces is in use, and none is produced twice.\<close>

definition rename_free :: "string \<Rightarrow> string \<Rightarrow> file_row \<Rightarrow> tables \<Rightarrow> bool" where
  "rename_free oldPath newPath src T \<longleftrightarrow>
     distinct (map fr_path (t_files T) @ newPath #
       (if S_ISDIR (fr_mode src)
        then map (\<lambda>r. newPath @ drop (length oldPath) (fr_path r)) (stSelectLike (oldPath @ ''/%'') T) else []))"

lemma below_row_id [simp]: "fr_id (below_row p q c r) = fr_id r" "fr_mode (below_row p q c r) = fr_mode r"
  by (simp_all add: below_row_def)

lemma loop_row_id [simp]: "fr_id (loop_row p q c R r) = fr_id r"
  by (simp add: loop_row_def)

lemma distinct_loop:
  assumes "distinct (map fr_path F @ map (\<lambda>r. q @ drop (length p) (fr_path r)) L)" and "R \<subseteq> set L"
  shows "distinct (map fr_path (map (loop_row p q c R) F))"
proof -
  have d: "distinct F" "inj_on fr_path (set F)" "inj_on (\<lambda>r. q @ drop (length p) (fr_path r)) (set L)"
    and disj: "r \<in> set F \<Longrightarrow> l \<in> set L \<Longrightarrow> fr_path r \<noteq> q @ drop (length p) (fr_path l)" for r l
    using assms(1) by (auto simp: distinct_map)
  have "r = r'" if "r \<in> set F" "r' \<in> set F" and eq: "fr_path (loop_row p q c R r) = fr_path (loop_row p q c R r')" for r r'
  proof (cases "r \<in> R"; cases "r' \<in> R")
    assume "r \<in> R" "r' \<in> R"
    with eq assms(2) inj_onD[OF d(3)] show ?thesis by (auto simp: loop_row_def below_row_def)
  next
    assume "r \<in> R" "r' \<notin> R"
    with eq disj[OF that(2), of r] assms(2) show ?thesis by (auto simp: loop_row_def below_row_def)
  next
    assume "r \<notin> R" "r' \<in> R"
    with eq disj[OF that(1), of r'] assms(2) show ?thesis by (auto simp: loop_row_def below_row_def)
  next
    assume "r \<notin> R" "r' \<notin> R"
    with eq inj_onD[OF d(2)] that show ?thesis by (simp add: loop_row_def)
  qed
  then show ?thesis using d(1) by (simp add: distinct_map inj_on_def)
qed

lemma rename_loop_ok:
  assumes ids: "distinct (map fr_id F)" and free: "distinct (map fr_path F @ map (\<lambda>r. q @ drop (length p) (fr_path r)) L)"
    and L: "distinct L" "set L \<subseteq> set F" and rows: "L = don @ rows"
    and d: "db_script d = []" "t_files (db_tabs d) = map (loop_row p q c (set don)) F"
  shows "returns (rename_loop p q c rows) d (\<lambda>_ d'. d' = d\<lparr>db_tabs := (db_tabs d)\<lparr>t_files := map (loop_row p q c (set L)) F\<rparr>\<rparr>)"
  using rows d
proof (induction rows arbitrary: don d)
  case Nil
  then have "map (loop_row p q c (set L)) F = t_files (db_tabs d)" by simp
  then show ?case by (simp add: wp_simps)
next
  case (Cons r rows)
  have r: "r \<in> set F" "r \<notin> set don" using Cons.prems(1) L by auto
  have eq: "(\<lambda>x. if fr_id x = fr_id r then x\<lparr>fr_path := q @ drop (length p) (fr_path r), fr_depth := fr_depth x + c\<rparr> else x) (loop_row p q c (set don) x)
      = loop_row p q c (set (don @ [r])) x" if "x \<in> set F" for x
    using ids r that by (auto simp: loop_row_def below_row_def distinct_map inj_on_def)
  let ?T = "stSetPath (q @ drop (length p) (fr_path r)) (\<lambda>d. d + c) (fr_id r) (db_tabs d)"
  have T: "?T = (db_tabs d)\<lparr>t_files := map (loop_row p q c (set (don @ [r]))) F\<rparr>"
    using eq by (simp add: stSetPath_def Cons.prems(3))
  have dist: "distinct (map fr_path (t_files ?T))"
  proof -
    have "set (don @ [r]) \<subseteq> set L" using Cons.prems(1) by auto
    from distinct_loop[OF free this, of c] show ?thesis unfolding T by simp
  qed
  have "returns (rename_loop p q c rows) (d\<lparr>db_tabs := ?T\<rparr>) (\<lambda>_ d'. d' = (d\<lparr>db_tabs := ?T\<rparr>)\<lparr>db_tabs := (db_tabs (d\<lparr>db_tabs := ?T\<rparr>))\<lparr>t_files := map (loop_row p q c (set L)) F\<rparr>\<rparr>)"
    by (rule Cons.IH[of "don @ [r]"]) (use Cons.prems in \<open>simp_all add: T\<close>)
  with dist Cons.prems(2) show ?case by (simp add: wp_simps T)
qed

lemma rename_distinct:
  assumes t: "tree_ok E T" and src: "src \<in> set (t_files T)" and free: "rename_free p q src T"
  shows "distinct (map fr_path (map (renamed_row p q dest src) (t_files T)))"
proof -
  let ?diff = "fr_depth dest + 1 - fr_depth src"
  let ?L = "if S_ISDIR (fr_mode src) then stSelectLike (p @ ''/%'') T else []"
  have free': "distinct (map fr_path (t_files T) @ map (\<lambda>r. q @ drop (length p) (fr_path r)) ?L)"
    using free by (auto simp: rename_free_def)
  have ne: "fr_path (loop_row p q ?diff (set ?L) r) \<noteq> q" if "r \<in> set (t_files T)" for r
    using free that by (auto simp: rename_free_def loop_row_def below_row_def split: if_splits)
  have ren: "fr_path (renamed_row p q dest src r) = (if r = src then q else fr_path (loop_row p q ?diff (set ?L) r))"
    if "r \<in> set (t_files T)" for r
    using that row_eq_fid[OF t that src] by (auto simp: renamed_row_def loop_row_def stSelectLike_def)
  have dl: "distinct (map fr_path (map (loop_row p q ?diff (set ?L)) (t_files T)))"
    by (rule distinct_loop[OF free']) simp
  have "inj_on (\<lambda>r. fr_path (loop_row p q ?diff (set ?L) r)) (set (t_files T))" and F: "distinct (t_files T)"
    using dl tree_okD(1)[OF t] by (simp_all add: distinct_map o_def)
  then have "inj_on (\<lambda>r. fr_path (renamed_row p q dest src r)) (set (t_files T))"
    unfolding inj_on_def by (metis ren ne)
  with F show ?thesis by (simp add: distinct_map o_def)
qed

lemma rename_absent_ok:
  assumes t: "tree_ok E T" and d: "db_tabs d = T" "db_script d = []"
    and src: "src \<in> set (t_files T)" "fr_path src = p" and dest: "dest \<in> set (t_files T)" "fr_path dest = e_branch E q"
      "S_ISDIR (fr_mode dest)"
    and free: "rename_free p q src T"
  shows "returns (rename E p q) d (\<lambda>x d'. x = 0 \<and> d' = d\<lparr>db_tabs := T\<lparr>t_files := map (renamed_row p q dest src) (t_files T)\<rparr>\<rparr>)"
proof -
  let ?diff = "fr_depth dest + 1 - fr_depth src"
  let ?L = "if S_ISDIR (fr_mode src) then stSelectLike (p @ ''/%'') T else []"
  have g: "stGetByPath p T = Some src" "stGetByPath (e_branch E q) T = Some dest"
    using path_Some[OF t] src dest by auto
  have n: "stGetByPath q T = None" using free by (auto simp: path_None rename_free_def)
  have pos: "fr_id src \<noteq> 0" "fr_id dest \<noteq> 0" using tree_okD(4)[OF t src(1)] tree_okD(4)[OF t dest(1)] by auto
  have L: "distinct ?L" "set ?L \<subseteq> set (t_files T)"
    using tree_okD(1)[OF t] by (auto simp: stSelectLike_def distinct_map)
  have free': "distinct (map fr_path (t_files T) @ map (\<lambda>r. q @ drop (length p) (fr_path r)) ?L)"
    using free by (auto simp: rename_free_def)
  let ?d = "d\<lparr>db_tabs := T\<lparr>t_files := map (loop_row p q ?diff (set ?L)) (t_files T)\<rparr>\<rparr>"
  have id: "loop_row p q ?diff {} = (\<lambda>r. r)" by (simp add: loop_row_def fun_eq_iff)
  have loop: "returns (if S_ISDIR (fr_mode src) then bnd (sql_query (stSelectLike (p @ ''/%''))) (\<lambda>rows. rename_loop p q ?diff rows) else ret ()) d
      (\<lambda>_ d'. d' = ?d)"
  proof (cases "S_ISDIR (fr_mode src)")
    case True
    have "returns (rename_loop p q ?diff ?L) d (\<lambda>_ d'. d' = ?d)"
      using rename_loop_ok[OF tree_okD(1)[OF t] free' L, of "[]" ?L d ?diff] d by (simp add: id)
    with True d show ?thesis by (simp add: wp_simps)
  qed (use d in \<open>simp add: wp_simps id\<close>)
  have last: "stSetPath q (\<lambda>_. fr_depth dest + 1) (fr_id src) (db_tabs ?d) = T\<lparr>t_files := map (renamed_row p q dest src) (t_files T)\<rparr>"
    using tree_okD(1)[OF t] src(1)
    by (auto simp: stSetPath_def renamed_row_def loop_row_def stSelectLike_def distinct_map inj_on_def below_row_def)
  have dist: "distinct (map fr_path (map (renamed_row p q dest src) (t_files T)))"
    by (rule rename_distinct[OF t src(1) free])
  have "returns (if S_ISDIR (fr_mode src) then bnd (sql_query (stSelectLike (p @ ''/%''))) (\<lambda>rows. rename_loop p q ?diff rows) else ret ()) d
      (\<lambda>_ u. returns (sqn (sql_write_files (stSetPath q (\<lambda>_. fr_depth dest + 1) (fr_id src))) (ret 0)) u
        (\<lambda>x d'. x = 0 \<and> d' = d\<lparr>db_tabs := T\<lparr>t_files := map (renamed_row p q dest src) (t_files T)\<rparr>\<rparr>))"
    by (rule returns_weaken[OF loop]) (use d dist last in \<open>simp add: wp_simps\<close>)
  then show ?thesis
    unfolding rename_def
    by (simp add: returns_getByPath d g n pos dest(3) returns_bnd returns_ret returns_sqn cong: if_cong)
qed

lemma renamed_row_id [simp]: "fr_id (renamed_row p q dest src r) = fr_id r" "fr_mode (renamed_row p q dest src r) = fr_mode r"
  by (simp_all add: renamed_row_def)

lemma fs_path_nonempty: "fs_path p \<Longrightarrow> p \<noteq> []"
  by (auto simp: fs_path_def)

lemma fs_path_last: "fs_path p \<Longrightarrow> p \<noteq> ''/'' \<Longrightarrow> last p \<noteq> CHR ''/''"
  using last_in_set by (fastforce simp: fs_path_def)

lemma fs_path_append:
  assumes "fs_path q" "q \<noteq> ''/''" and "fs_path (p @ CHR ''/'' # x)" "p \<noteq> ''/''" "p \<noteq> []"
  shows "fs_path (q @ CHR ''/'' # x)"
proof -
  have "p @ CHR ''/'' # x \<noteq> ''/''" using assms(5) by (cases p) auto
  with assms(3) obtain d name where *: "p @ CHR ''/'' # x = d @ CHR ''/'' # name" "name \<noteq> []" "CHR ''/'' \<notin> set name"
      "d = [] \<or> last d \<noteq> CHR ''/''" by (auto simp: fs_path_def)
  have "fs_path (q @ CHR ''/'' # x)" if "x = name"
    using that * fs_path_last[OF assms(1,2)] by (auto simp: fs_path_def)
  moreover have "fs_path (q @ CHR ''/'' # x)" if "x = y @ CHR ''/'' # name" "d = p @ CHR ''/'' # y" for y
  proof -
    have "y \<noteq> []" "last y \<noteq> CHR ''/''" using * that by (auto split: if_splits)
    with that * have "q @ CHR ''/'' # x = (q @ CHR ''/'' # y) @ CHR ''/'' # name" "last (q @ CHR ''/'' # y) \<noteq> CHR ''/''" by auto
    with * show ?thesis unfolding fs_path_def by blast
  qed
  ultimately show ?thesis
    using *(1,3) by (auto simp: append_eq_append_conv2 Cons_eq_append_conv append_eq_Cons_conv)
qed

context fuse_env
begin

text \<open>The parent of a path below \<open>p\<close> is \<open>p\<close> or lies below \<open>p\<close>, and moving moves it along.\<close>

lemma branch_below:
  assumes f: "fs_path (p @ CHR ''/'' # x)" and p: "fs_path p" "p \<noteq> ''/''" and q: "fs_path q" "q \<noteq> ''/''"
  obtains (top) "e_branch E (p @ CHR ''/'' # x) = p" "e_branch E (q @ CHR ''/'' # x) = q"
  | (deep) y where "e_branch E (p @ CHR ''/'' # x) = p @ CHR ''/'' # y" "e_branch E (q @ CHR ''/'' # x) = q @ CHR ''/'' # y"
proof -
  have np: "p @ CHR ''/'' # x \<noteq> ''/''" using fs_path_nonempty[OF p(1)] by (cases p) auto
  from branch_cases[OF f np] obtain d name where *: "p @ CHR ''/'' # x = d @ CHR ''/'' # name" "name \<noteq> []"
      "CHR ''/'' \<notin> set name" "e_branch E (p @ CHR ''/'' # x) = (if d = [] then ''/'' else d)" "d \<noteq> [] \<longrightarrow> last d \<noteq> CHR ''/''" .
  note lq = fs_path_last[OF q] and nq = fs_path_nonempty[OF q(1)] and pn = fs_path_nonempty[OF p(1)]
  from *(1,3) consider "x = name" "d = p" | y where "x = y @ CHR ''/'' # name" "d = p @ CHR ''/'' # y"
    by (auto simp: append_eq_append_conv2 Cons_eq_append_conv append_eq_Cons_conv)
  then show thesis
  proof cases
    case 1
    with * pn branch_child[OF *(3,2) nq lq] show thesis by (intro top) auto
  next
    case (2 y)
    with * have "last (q @ CHR ''/'' # y) \<noteq> CHR ''/''" by (auto split: if_splits)
    with 2 * branch_child[OF *(3,2), of "q @ CHR ''/'' # y"] show thesis by (intro deep[of y]) auto
  qed
qed

end

text \<open>A rename of \<open>src\<close> (at \<open>p\<close>) to \<open>q\<close> below \<open>dest\<close>, where the pattern matches nothing but what lies below \<open>p\<close>.\<close>

definition renames :: "('fm, 'sm) env \<Rightarrow> tables \<Rightarrow> string \<Rightarrow> string \<Rightarrow> file_row \<Rightarrow> file_row \<Rightarrow> bool" where
  "renames E T p q dest src \<longleftrightarrow> tree_ok E T \<and> paths_ok T
   \<and> src \<in> set (t_files T) \<and> fr_path src = p \<and> p \<noteq> ''/''
   \<and> dest \<in> set (t_files T) \<and> fr_path dest = e_branch E q \<and> S_ISDIR (fr_mode dest)
   \<and> fs_path q \<and> q \<noteq> ''/'' \<and> dest \<noteq> src \<and> \<not> sql_like (p @ ''/%'') (fr_path dest)
   \<and> (\<forall>r\<in>set (t_files T). sql_like (p @ ''/%'') (fr_path r) \<longrightarrow> (\<exists>x. fr_path r = p @ CHR ''/'' # x))"

context fuse_env
begin

lemma renamesD:
  assumes "renames E T p q dest src"
  shows "tree_ok E T" "paths_ok T" "src \<in> set (t_files T)" "fr_path src = p" "p \<noteq> ''/''"
    "dest \<in> set (t_files T)" "fr_path dest = e_branch E q" "S_ISDIR (fr_mode dest)" "fs_path q" "q \<noteq> ''/''" "fs_path p"
    "r \<in> set (t_files T) \<Longrightarrow> sql_like (p @ ''/%'') (fr_path r) \<Longrightarrow> \<exists>x. fr_path r = p @ CHR ''/'' # x"
    "r \<in> set (t_files T) \<Longrightarrow> fs_path (fr_path r)"
  using assms by (auto simp: renames_def paths_ok_def)

lemma renames_rows:
  assumes R: "renames E T p q dest src"
  shows "renamed_row p q dest src src = src\<lparr>fr_path := q, fr_depth := fr_depth dest + 1\<rparr>"
    and "dest \<in> renamed_row p q dest src ` set (t_files T)"
    and "r \<in> set (t_files T) \<Longrightarrow> sql_like (p @ ''/%'') (fr_path r) \<Longrightarrow> S_ISDIR (fr_mode src) \<Longrightarrow>
       renamed_row p q dest src r = below_row p q (fr_depth dest + 1 - fr_depth src) r"
    and "r \<in> set (t_files T) \<Longrightarrow> r \<noteq> src \<Longrightarrow> \<not> (S_ISDIR (fr_mode src) \<and> sql_like (p @ ''/%'') (fr_path r)) \<Longrightarrow>
       renamed_row p q dest src r = r"
proof -
  have id: "fr_id r = fr_id src \<longleftrightarrow> r = src" if "r \<in> set (t_files T)" for r
    using row_eq_fid[OF renamesD(1)[OF R] that renamesD(3)[OF R]] .
  have nsrc: "\<not> sql_like (p @ ''/%'') (fr_path src)" using renamesD(12)[OF R renamesD(3)[OF R]] renamesD(4)[OF R] by auto
  show "renamed_row p q dest src src = src\<lparr>fr_path := q, fr_depth := fr_depth dest + 1\<rparr>" by (simp add: renamed_row_def)
  have "renamed_row p q dest src dest = dest"
    using R id[of dest] by (auto simp: renames_def renamed_row_def)
  then show "dest \<in> renamed_row p q dest src ` set (t_files T)" using renamesD(6)[OF R] by force
  show "renamed_row p q dest src r = below_row p q (fr_depth dest + 1 - fr_depth src) r"
    if "r \<in> set (t_files T)" "sql_like (p @ ''/%'') (fr_path r)" "S_ISDIR (fr_mode src)"
    using that nsrc id by (auto simp: renamed_row_def)
  show "renamed_row p q dest src r = r"
    if "r \<in> set (t_files T)" "r \<noteq> src" "\<not> (S_ISDIR (fr_mode src) \<and> sql_like (p @ ''/%'') (fr_path r))"
    using that id by (auto simp: renamed_row_def)
qed

lemma parent_row:
  assumes "tree_ok E T" and "r \<in> set (t_files T)" and "fr_path r \<noteq> ''/''"
  obtains par where "par \<in> set (t_files T)" "fr_path par = e_branch E (fr_path r)" "S_ISDIR (fr_mode par)"
    "fr_depth r = fr_depth par + 1"
  using tree_okD(3)[OF assms(1,2)] assms(3) by (auto simp: row_ok_def)

text \<open>The moved directory, what lies below it, and every other row are in order after the rename.\<close>

lemma renamed_src_ok:
  assumes R: "renames E T p q dest src"
  shows "row_ok E (renamed_row p q dest src ` set (t_files T)) (renamed_row p q dest src src)"
proof -
  have "\<exists>p'\<in>renamed_row p q dest src ` set (t_files T). fr_path p' = e_branch E q \<and> S_ISDIR (fr_mode p')
      \<and> fr_depth dest + 1 = fr_depth p' + 1"
    using renamesD(7,8)[OF R] by (intro bexI[OF _ renames_rows(2)[OF R]]) simp
  with tree_okD(4)[OF renamesD(1,3)[OF R]] renamesD(10)[OF R]
  show ?thesis unfolding renames_rows(1)[OF R] row_ok_def by simp
qed

lemma renamed_below_ok:
  assumes R: "renames E T p q dest src" and r: "r \<in> set (t_files T)"
    and like: "S_ISDIR (fr_mode src)" "sql_like (p @ ''/%'') (fr_path r)"
  shows "row_ok E (renamed_row p q dest src ` set (t_files T)) (renamed_row p q dest src r)
    \<and> fs_path (fr_path (renamed_row p q dest src r))"
proof -
  let ?R = "renamed_row p q dest src" and ?F = "set (t_files T)"
  note t = renamesD(1)[OF R] and q = renamesD(9,10)[OF R] and p = renamesD(11,5)[OF R]
  obtain x where x: "fr_path r = p @ CHR ''/'' # x" using renamesD(12)[OF R r like(2)] by auto
  have "fr_path r \<noteq> ''/''" using x fs_path_nonempty[OF p(1)] by (cases p) auto
  from parent_row[OF t r this] obtain par where par: "par \<in> ?F" "fr_path par = e_branch E (fr_path r)"
    "S_ISDIR (fr_mode par)" "fr_depth r = fr_depth par + 1" .
  note Rr = renames_rows(3)[OF R r like(2,1)]
  have pathR: "fr_path (?R r) = q @ CHR ''/'' # x" by (simp add: Rr below_row_def x)
  have fp: "fs_path (q @ CHR ''/'' # x)"
    using fs_path_append[OF q _ p(2) fs_path_nonempty[OF p(1)]] renamesD(13)[OF R r] x by simp
  from renamesD(13)[OF R r] have fx: "fs_path (p @ CHR ''/'' # x)" by (simp add: x)
  have "\<exists>p'\<in>?R ` ?F. fr_path p' = e_branch E (q @ CHR ''/'' # x) \<and> S_ISDIR (fr_mode p') \<and> fr_depth (?R r) = fr_depth p' + 1"
    using fx p q
  proof (cases rule: branch_below)
    case top
    with par x row_eq_path[OF t par(1) renamesD(3)[OF R]] renamesD(4)[OF R] have "par = src" by simp
    with top par show ?thesis
      by (intro bexI[OF _ imageI[OF renamesD(3)[OF R]]]) (simp add: renames_rows(1)[OF R] Rr below_row_def)
  next
    case (deep y)
    with par x have py: "fr_path par = p @ CHR ''/'' # y" by simp
    have "?R par = below_row p q (fr_depth dest + 1 - fr_depth src) par"
      by (rule renames_rows(3)[OF R par(1) _ like(1)]) (simp add: py like_below)
    with deep py par show ?thesis by (intro bexI[OF _ imageI[OF par(1)]]) (auto simp: Rr below_row_def)
  qed
  with tree_okD(4)[OF t r] pathR fp q fs_path_nonempty[OF q(1)] show ?thesis by (cases q) (auto simp: row_ok_def)
qed

lemma renamed_other_ok:
  assumes R: "renames E T p q dest src" and r: "r \<in> set (t_files T)" "r \<noteq> src"
    and other: "\<not> (S_ISDIR (fr_mode src) \<and> sql_like (p @ ''/%'') (fr_path r))"
  shows "row_ok E (renamed_row p q dest src ` set (t_files T)) r"
proof (cases "fr_path r = ''/''")
  case True
  with tree_okD(3)[OF renamesD(1)[OF R] r(1)] show ?thesis by (simp add: row_ok_def)
next
  case nr: False
  let ?R = "renamed_row p q dest src"
  from parent_row[OF renamesD(1)[OF R] r(1) nr] obtain par where par: "par \<in> set (t_files T)" "fr_path par = e_branch E (fr_path r)"
    "S_ISDIR (fr_mode par)" "fr_depth r = fr_depth par + 1" .
  from branch_cases[OF renamesD(13)[OF R r(1)] nr] obtain d name where *: "fr_path r = d @ CHR ''/'' # name"
    "e_branch E (fr_path r) = (if d = [] then ''/'' else d)" by metis
  have nsp: "par \<noteq> src"
  proof
    assume "par = src"
    with par renamesD(4,5)[OF R] * other like_below[of p name] show False by (auto split: if_splits)
  qed
  have "\<not> (S_ISDIR (fr_mode src) \<and> sql_like (p @ ''/%'') (fr_path par))"
  proof
    assume like: "S_ISDIR (fr_mode src) \<and> sql_like (p @ ''/%'') (fr_path par)"
    then obtain x where x: "fr_path par = p @ CHR ''/'' # x" using renamesD(12)[OF R par(1)] by auto
    with par(2) * fs_path_nonempty[OF renamesD(11)[OF R]] have "d = p @ CHR ''/'' # x" by (cases p) (auto split: if_splits)
    with * other like like_below[of p "x @ CHR ''/'' # name"] show False by simp
  qed
  then have "?R par = par" by (rule renames_rows(4)[OF R par(1) nsp])
  with par(1) have "par \<in> ?R ` set (t_files T)" by force
  with par tree_okD(4)[OF renamesD(1)[OF R] r(1)] nr show ?thesis by (auto simp: row_ok_def)
qed

lemma rename_tree:
  assumes t: "tree_ok E T" "paths_ok T"
    and src: "src \<in> set (t_files T)" "fr_path src = p" "p \<noteq> ''/''"
    and dest: "dest \<in> set (t_files T)" "fr_path dest = e_branch E q" "S_ISDIR (fr_mode dest)"
    and q: "fs_path q" "q \<noteq> ''/''" and dist: "distinct (map fr_path (map (renamed_row p q dest src) (t_files T)))"
    and outside: "dest \<noteq> src" "\<not> sql_like (p @ ''/%'') (fr_path dest)"
    and exact: "\<And>r. r \<in> set (t_files T) \<Longrightarrow> sql_like (p @ ''/%'') (fr_path r) \<Longrightarrow> \<exists>x. fr_path r = p @ CHR ''/'' # x"
  shows "tree_ok E (T\<lparr>t_files := map (renamed_row p q dest src) (t_files T)\<rparr>)
    \<and> paths_ok (T\<lparr>t_files := map (renamed_row p q dest src) (t_files T)\<rparr>)"
proof -
  let ?R = "renamed_row p q dest src"
  have R: "renames E T p q dest src"
    using t src dest q outside exact by (simp add: renames_def)
  have ok: "row_ok E (?R ` set (t_files T)) (?R r) \<and> fs_path (fr_path (?R r))" if r: "r \<in> set (t_files T)" for r
  proof (cases "r = src")
    case True
    with renamed_src_ok[OF R] q(1) show ?thesis by (simp add: renames_rows(1)[OF R])
  next
    case False
    show ?thesis
    proof (cases "S_ISDIR (fr_mode src) \<and> sql_like (p @ ''/%'') (fr_path r)")
      case False
      with renamed_other_ok[OF R r \<open>r \<noteq> src\<close>] renames_rows(4)[OF R r \<open>r \<noteq> src\<close>] renamesD(13)[OF R r] show ?thesis by simp
    qed (use renamed_below_ok[OF R r] in blast)
  qed
  have "distinct (map fr_id (map ?R (t_files T)))" using tree_okD(1)[OF t(1)] by (simp add: o_def)
  with dist ok show ?thesis by (auto simp: tree_ok_def paths_ok_def)
qed

end

subsection \<open>Properties\<close>

definition demo_row :: "int \<Rightarrow> string \<Rightarrow> int \<Rightarrow> 32 word \<Rightarrow> file_row" where
  "demo_row i p dep m = \<lparr>fr_id = i, fr_path = p, fr_depth = dep, fr_size = 0, fr_mode = m, fr_uid = 0, fr_gid = 0,
     fr_mtime = 0, fr_ctime = 0, fr_link_target = None\<rparr>"

lemma ascii_lower_A [simp]: "ascii_lower CHR ''A'' = CHR ''a''"
  by code_simp

definition demo_tree :: tables where
  "demo_tree = \<lparr>t_files = [demo_row 1 ''/'' 0 S_IFDIR, demo_row 2 ''/a'' 1 S_IFDIR, demo_row 3 ''/A'' 1 S_IFDIR,
     demo_row 4 ''/A/x'' 2 S_IFREG, demo_row 5 ''/b'' 1 S_IFDIR], t_blocks = [], t_hashes = []\<rparr>"

lemma demo_row_sel [simp]:
  "fr_id (demo_row i p dep m) = i" "fr_path (demo_row i p dep m) = p" "fr_depth (demo_row i p dep m) = dep"
  "fr_mode (demo_row i p dep m) = m"
  by (simp_all add: demo_row_def)

lemma S_IS_simps [simp]: "S_ISDIR S_IFDIR" "\<not> S_ISDIR S_IFREG" "S_ISREG S_IFREG" "\<not> S_ISREG S_IFDIR"
  by (simp_all add: S_ISDIR_def S_ISREG_def S_IFMT_def S_IFDIR_def S_IFREG_def)

lemma demo_tree_ok: "tree_ok (std_env 4) demo_tree"
  by (simp add: tree_ok_def row_ok_def demo_tree_def last_branch_def)

lemma demo_paths_ok: "paths_ok demo_tree"
proof -
  have "fs_path (CHR ''/'' # [c])" if "c \<noteq> CHR ''/''" for c
    unfolding fs_path_def by (rule disjI2, rule exI[of _ "[]"], rule exI[of _ "[c]"]) (use that in simp)
  moreover have "fs_path ''/A/x''"
    unfolding fs_path_def by (rule disjI2, rule exI[of _ "''/A''"], rule exI[of _ "''x''"]) simp
  ultimately show ?thesis by (simp add: paths_ok_def demo_tree_def fs_path_def)
qed

text \<open>C9: Creating a file or a directory: on a well-formed tree, when no statement fails, the answer
  is -ENOENT if the parent is missing, -ENOTDIR if it is no directory, -EEXIST if the path is
  in use, and 0 otherwise; exactly in the last case one row is added, with a fresh id, one
  level below its parent, of size 0 and of the given mode; and the tree is well-formed.\<close>

theorem create_tree_ok:
  assumes "dedup_env E" and "tree_ok E (db_tabs d)" and "db_script d = []"
  shows "returns (create E now p mode) d (\<lambda>x d'. x = create_result E p (db_tabs d)
    \<and> tree_ok E (db_tabs d')
    \<and> d' = (if x = 0 then d\<lparr>db_tabs := (db_tabs d)\<lparr>t_files := t_files (db_tabs d) @ [created_row E now p mode (db_tabs d)]\<rparr>\<rparr> else d))"
  by (rule returns_weaken[OF create_ok[OF assms(2,3)]])
    (use dedup_env.create_tree[OF assms(1,2)] assms(2) in auto)

theorem create_tree_ok_witness:
  "returns (create (std_env 4) 7 ''/b/c'' S_IFREG) (init_db demo_tree) (\<lambda>x d'. x = 0 \<and> tree_ok (std_env 4) (db_tabs d'))"
  by (rule returns_weaken[OF create_tree_ok[OF dedup_env_std]])
    (use demo_tree_ok in \<open>auto simp: init_db_def create_result_def stGetByPath_def demo_tree_def last_branch_def\<close>)

text \<open>C15: Listing a directory is complete: on a well-formed tree every file and directory whose
  parent is the directory is among the entries, with its own attributes.\<close>

theorem readdir_lists_children:
  assumes "fuse_env E" and "tree_ok E (db_tabs d)" and "paths_ok (db_tabs d)" and "db_script d = []"
    and "p \<in> set (t_files (db_tabs d))" and "fi_name dir = fr_path p" and "fi_depth dir = fr_depth p"
  shows "returns (readdir E dir) d (\<lambda>files d'. d' = d
    \<and> (\<forall>r\<in>set (t_files (db_tabs d)). fr_path r \<noteq> ''/'' \<longrightarrow> e_branch E (fr_path r) = fr_path p \<longrightarrow>
         (\<exists>f\<in>set files. fi_name f = fr_path r \<and> fi_st f = stat_of r)))"
  by (rule fuse_env.readdir_complete[OF assms])

theorem readdir_lists_children_witness:
  "returns (readdir (std_env 4) (file_of (std_env 4) ''/A'' (Some (demo_row 3 ''/A'' 1 S_IFDIR)))) (init_db demo_tree)
    (\<lambda>files d'. \<exists>f\<in>set files. fi_name f = ''/A/x'')"
  by (rule returns_weaken[OF readdir_lists_children[OF fuse_env_std, where p = "demo_row 3 ''/A'' 1 S_IFDIR"]])
    (use demo_tree_ok demo_paths_ok in \<open>auto simp: init_db_def demo_tree_def last_branch_def\<close>)

text \<open>Removing an empty directory keeps the tree: when \<open>dirEmpty\<close> says that a directory is
  empty, deleting its row leaves a well-formed tree, so no entry loses its parent.\<close>

theorem dirEmpty_safe:
  assumes "fuse_env E" and "tree_ok E (db_tabs d)" and "paths_ok (db_tabs d)" and "db_script d = []"
    and "p \<in> set (t_files (db_tabs d))"
  shows "returns (dirEmpty (file_of E (fr_path p) (Some p))) d (\<lambda>empty d'. d' = d
    \<and> (empty \<longrightarrow> tree_ok E (stDeleteFile (fr_path p) (db_tabs d))))"
proof -
  have "fr_path p \<noteq> []" using assms(3,5) fs_path_nonempty by (auto simp: paths_ok_def)
  moreover have "tree_ok E (stDeleteFile (fr_path p) (db_tabs d))"
    if "stSelectChildren (pattern_of (fr_path p)) (fr_depth p + 1) (db_tabs d) = []"
    using that fuse_env.child_selected[OF assms(1-3) _ _ assms(5)]
    by (intro fuse_env.delete_tree[OF assms(1,2)]) force
  ultimately show ?thesis by (simp add: returns_dirEmpty assms(4))
qed

theorem dirEmpty_safe_witness:
  "returns (dirEmpty (file_of (std_env 4) ''/b'' (Some (demo_row 5 ''/b'' 1 S_IFDIR)))) (init_db demo_tree) (\<lambda>empty d'.
     empty \<longrightarrow> tree_ok (std_env 4) (stDeleteFile ''/b'' demo_tree))"
  using dirEmpty_safe[OF fuse_env_std[of 4], of "init_db demo_tree" "demo_row 5 ''/b'' 1 S_IFDIR"] demo_tree_ok demo_paths_ok
  by (auto simp: init_db_def demo_tree_def elim!: returns_weaken)



text \<open>C40: The pattern for what lies below a directory is too wide: when a directory is renamed, every
  row whose path matches \<open>old/%\<close> under \<open>LIKE\<close>, which ignores case and knows wildcards, is moved
  with it, whether it lies below the directory or not.\<close>

theorem rename_moves_matches:
  assumes "tree_ok E (db_tabs d)" and "db_script d = []"
    and "src \<in> set (t_files (db_tabs d))" and "S_ISDIR (fr_mode src)"
    and "dest \<in> set (t_files (db_tabs d))" and "fr_path dest = e_branch E newPath" and "S_ISDIR (fr_mode dest)"
    and "rename_free (fr_path src) newPath src (db_tabs d)"
    and "r \<in> set (t_files (db_tabs d))" and "r \<noteq> src" and "sql_like (fr_path src @ ''/%'') (fr_path r)"
  shows "returns (rename E (fr_path src) newPath) d (\<lambda>x d'. x = 0
    \<and> (\<exists>r'\<in>set (t_files (db_tabs d')). fr_id r' = fr_id r
        \<and> fr_path r' = newPath @ drop (length (fr_path src)) (fr_path r)))"
proof (rule returns_weaken[OF rename_absent_ok[OF assms(1) refl assms(2,3) refl assms(5-8)]], elim conjE)
  fix x d'
  assume x: "x = 0" and d': "d' = d\<lparr>db_tabs := (db_tabs d)\<lparr>t_files := map (renamed_row (fr_path src) newPath dest src) (t_files (db_tabs d))\<rparr>\<rparr>"
  have "fr_id r \<noteq> fr_id src" using row_eq_fid[OF assms(1,9,3)] assms(10) by simp
  then have "fr_path (renamed_row (fr_path src) newPath dest src r) = newPath @ drop (length (fr_path src)) (fr_path r)"
    using assms(4,11) by (simp add: renamed_row_def below_row_def)
  with x d' assms(9) show "x = 0 \<and> (\<exists>r'\<in>set (t_files (db_tabs d')). fr_id r' = fr_id r
        \<and> fr_path r' = newPath @ drop (length (fr_path src)) (fr_path r))"
    by (auto intro!: bexI[of _ r])
qed

theorem rename_moves_matches_witness:
  "returns (rename (std_env 4) ''/a'' ''/c'') (init_db demo_tree) (\<lambda>x d'. x = 0
    \<and> (\<exists>r\<in>set (t_files (db_tabs d')). fr_id r = 4 \<and> fr_path r = ''/c/x''))"
proof -
  let ?src = "demo_row 2 ''/a'' 1 S_IFDIR" and ?dest = "demo_row 1 ''/'' 0 S_IFDIR" and ?r = "demo_row 4 ''/A/x'' 2 S_IFREG"
  have "rename_free ''/a'' ''/c'' ?src demo_tree"
    by (simp add: rename_free_def stSelectLike_def demo_tree_def ascii_lower_def)
  moreover have "db_tabs (init_db demo_tree) = demo_tree" "db_script (init_db demo_tree) = []" by (simp_all add: init_db_def)
  moreover have "?src \<in> set (t_files demo_tree)" "?dest \<in> set (t_files demo_tree)" "?r \<in> set (t_files demo_tree)"
    by (simp_all add: demo_tree_def)
  moreover have "sql_like ''/a/%'' ''/A/x''" by code_simp
  moreover have "?r \<noteq> ?src" by (simp add: demo_row_def)
  ultimately have "returns (rename (std_env 4) (fr_path ?src) ''/c'') (init_db demo_tree) (\<lambda>x d'. x = 0
    \<and> (\<exists>r'\<in>set (t_files (db_tabs d')). fr_id r' = fr_id ?r \<and> fr_path r' = ''/c'' @ drop (length (fr_path ?src)) (fr_path ?r)))"
    by (intro rename_moves_matches[where dest = ?dest]) (simp_all add: demo_tree_ok last_branch_def)
  from this[unfolded demo_row_sel] show ?thesis by (rule returns_weaken) simp
qed

text \<open>C39: A directory can be moved into itself: the check that forbids it is made only if the new path
  exists.  Renaming a directory to an unused path directly below itself answers 0 and leaves a
  row whose parent does not exist any more.\<close>

theorem rename_into_itself:
  assumes "tree_ok E (db_tabs d)" and "db_script d = []"
    and "src \<in> set (t_files (db_tabs d))" and "S_ISDIR (fr_mode src)" and "fr_path src = e_branch E newPath"
    and "newPath \<noteq> ''/''" and "rename_free (fr_path src) newPath src (db_tabs d)"
  shows "returns (rename E (fr_path src) newPath) d (\<lambda>x d'. x = 0 \<and> \<not> tree_ok E (db_tabs d')
    \<and> newPath \<in> fr_path ` set (t_files (db_tabs d')) \<and> e_branch E newPath \<notin> fr_path ` set (t_files (db_tabs d')))"
proof (rule returns_weaken[OF rename_absent_ok[OF assms(1) refl assms(2,3) refl assms(3,5,4,7)]], elim conjE)
  fix x d'
  let ?R = "renamed_row (fr_path src) newPath src src" and ?F = "t_files (db_tabs d)"
  assume x: "x = 0" and d': "d' = d\<lparr>db_tabs := (db_tabs d)\<lparr>t_files := map ?R ?F\<rparr>\<rparr>"
  have ne: "fr_path (?R r) \<noteq> fr_path src" if r: "r \<in> set ?F" for r
  proof (cases "r = src")
    case True
    with assms(3,7) show ?thesis by (auto simp: renamed_row_def rename_free_def)
  next
    case False
    then have "fr_id r \<noteq> fr_id src" "fr_path r \<noteq> fr_path src"
      using row_eq_fid[OF assms(1) r assms(3)] row_eq_path[OF assms(1) r assms(3)] by auto
    moreover have "newPath @ drop (length (fr_path src)) (fr_path r) \<noteq> fr_path src"
      if "sql_like (fr_path src @ ''/%'') (fr_path r)"
    proof -
      have "newPath @ drop (length (fr_path src)) (fr_path r) \<notin> fr_path ` set ?F"
        using assms(4,7) r that by (auto simp: rename_free_def stSelectLike_def)
      then show ?thesis using imageI[OF assms(3), of fr_path] by metis
    qed
    ultimately show ?thesis by (simp add: renamed_row_def below_row_def)
  qed
  then have no: "e_branch E newPath \<notin> fr_path ` set (t_files (db_tabs d'))"
    unfolding assms(5)[symmetric] by (fastforce simp: d')
  have new: "?R src \<in> set (t_files (db_tabs d'))" "fr_path (?R src) = newPath"
    using assms(3) by (simp_all add: d' renamed_row_def)
  have "\<not> tree_ok E (db_tabs d')"
  proof
    assume "tree_ok E (db_tabs d')"
    from tree_okD(3)[OF this new(1)] new(2) assms(6) no show False
      unfolding row_ok_def by (metis imageI)
  qed
  moreover have "newPath \<in> fr_path ` set (t_files (db_tabs d'))" using new by (metis imageI)
  ultimately show "x = 0 \<and> \<not> tree_ok E (db_tabs d')
    \<and> newPath \<in> fr_path ` set (t_files (db_tabs d')) \<and> e_branch E newPath \<notin> fr_path ` set (t_files (db_tabs d'))"
    using x no by blast
qed

theorem rename_into_itself_witness:
  "returns (rename (std_env 4) ''/b'' ''/b/y'') (init_db demo_tree) (\<lambda>x d'. x = 0 \<and> \<not> tree_ok (std_env 4) (db_tabs d'))"
proof -
  let ?src = "demo_row 5 ''/b'' 1 S_IFDIR"
  have "rename_free ''/b'' ''/b/y'' ?src demo_tree"
    by (simp add: rename_free_def stSelectLike_def demo_tree_def ascii_lower_def)
  moreover have "db_tabs (init_db demo_tree) = demo_tree" "db_script (init_db demo_tree) = []" by (simp_all add: init_db_def)
  moreover have "?src \<in> set (t_files demo_tree)" by (simp_all add: demo_tree_def)
  ultimately have "returns (rename (std_env 4) (fr_path ?src) ''/b/y'') (init_db demo_tree) (\<lambda>x d'. x = 0 \<and> \<not> tree_ok (std_env 4) (db_tabs d')
    \<and> ''/b/y'' \<in> fr_path ` set (t_files (db_tabs d')) \<and> e_branch (std_env 4) ''/b/y'' \<notin> fr_path ` set (t_files (db_tabs d')))"
    by (intro rename_into_itself) (simp_all add: demo_tree_ok last_branch_def)
  from this[unfolded demo_row_sel] show ?thesis by (rule returns_weaken) simp
qed

lemma returns_utime:
  assumes "db_script d = []"
  shows "returns (utime path modtime) d (\<lambda>x d'. x = 0
    \<and> d' = d\<lparr>db_tabs := stSetMtime (int32 modtime) path (db_tabs d)\<rparr>)"
  by (simp add: utime_def wp_simps assms)

lemma int32_wraps:
  assumes "2 ^ 31 \<le> t" and "t < 2 ^ 32"
  shows "int32 t = t - 2 ^ 32" "int32 t < 0"
proof -
    have "(word_of_int t :: 32 word) = word_of_int (t - 2 ^ 32)"
      by (simp add: word_of_int_eq_iff take_bit_eq_mod)
    then have "int32 t = int32 (t - 2 ^ 32)" unfolding int32_def by (rule arg_cong)
    then show "int32 t = t - 2 ^ 32" using assms by (simp add: int32_id)
    with assms(2) show "int32 t < 0" by simp
qed

lemma stSetMtime_get:
  assumes "r \<in> set (t_files (stSetMtime m path T))" and "fr_path r = path"
  shows "fr_mtime r = m"
proof -
  have "t_files (stSetMtime m path T) = map (\<lambda>r. if fr_path r = path then r\<lparr>fr_mtime := m\<rparr> else r) (t_files T)"
    by (simp add: stSetMtime_def)
  with assms(1) obtain r0 where "r = (if fr_path r0 = path then r0\<lparr>fr_mtime := m\<rparr> else r0)" by (simp only: set_map) blast
  with assms(2) show ?thesis by (cases "fr_path r0 = path") simp_all
qed

text \<open>Dates after January 2038 wrap: \<open>utime\<close> stores the low 32 bits of the date as a signed
  number, so a date from \<open>2 ^ 31\<close> on and below \<open>2 ^ 32\<close> becomes a date before 1970.\<close>

theorem utime_wraps:
  assumes "db_script d = []" and "2 ^ 31 \<le> modtime" and "modtime < 2 ^ 32"
  shows "returns (utime path modtime) d (\<lambda>x d'. x = 0
    \<and> (\<forall>r\<in>set (t_files (db_tabs d')). fr_path r = path \<longrightarrow> fr_mtime r = modtime - 2 ^ 32 \<and> fr_mtime r < 0))"
proof -
  have "fr_mtime r = modtime - 2 ^ 32 \<and> fr_mtime r < 0"
    if "r \<in> set (t_files (stSetMtime (int32 modtime) path T))" "fr_path r = path" for r T
    using stSetMtime_get[OF that] int32_wraps[OF assms(2,3)] by simp
  then have all: "\<forall>r\<in>set (t_files (stSetMtime (int32 modtime) path T)).
      fr_path r = path \<longrightarrow> fr_mtime r = modtime - 2 ^ 32 \<and> fr_mtime r < 0" for T by blast
  moreover have "db_tabs (d\<lparr>db_tabs := T\<rparr>) = T" for T by simp
  ultimately show ?thesis by (intro returns_weaken[OF returns_utime[OF assms(1)]]) (simp only: simp_thms)
qed

theorem utime_wraps_witness:
  "returns (utime ''/b'' (2 ^ 31)) (init_db demo_tree) (\<lambda>x d'.
     \<forall>r\<in>set (t_files (db_tabs d')). fr_path r = ''/b'' \<longrightarrow> fr_mtime r = - (2 ^ 31))"
  by (rule returns_weaken[OF utime_wraps]) (simp_all add: init_db_def)

end
