(* ===== verification/Db_Blocks.thy ===== *)
theory Db_Blocks
  imports Db_Files
begin

text \<open>
  The part of class \<open>DataBase\<close> (\<open>database.cpp\<close>) that maps blocks of files to storage
  blocks and counts their uses: \<open>loadFileBlock\<close>, \<open>replaceStorageBlock\<close>,
  \<open>releaseStorageBlock\<close> and \<open>ftruncate\<close>.  They run on the state of one call of the
  block cache: the connection, the file handle the call works on, the cached storage
  blocks, the storage file, the number of objects created so far, and the clock.

  The lemmas give the rows each of them leaves, show that the use count of a hash stays
  the number of file blocks with it, and that a call that throws leaves the rows as
  they were.
\<close>

subsection \<open>State of a call\<close>

record ('fm, 'sm) cstate =
  c_db :: sqldb
  c_fi :: "'fm file_info"
  c_cache :: 'sm
  c_disk :: "byte list"
  c_next :: nat
  c_now :: int

definition on_db :: "(sqldb, 'a) comp \<Rightarrow> (('fm, 'sm) cstate, 'a) comp" where
  "on_db = zoom c_db c_db_update"

abbreviation tabs :: "('fm, 'sm) cstate \<Rightarrow> tables" where
  "tabs s \<equiv> db_tabs (c_db s)"

abbreviation ino :: "('fm, 'sm) cstate \<Rightarrow> int" where
  "ino s \<equiv> st_ino (fi_st (c_fi s))"

abbreviation fsize :: "('fm, 'sm) cstate \<Rightarrow> int" where
  "fsize s \<equiv> st_size (fi_st (c_fi s))"

subsection \<open>Access to the objects\<close>

definition fblock_at :: "('fm, 'sm) env \<Rightarrow> ('fm, 'sm) cstate \<Rightarrow> int \<Rightarrow> block_info option" where
  "fblock_at E s n = cs_find (e_fblocks E) (fi_blocks (c_fi s)) n"

definition cached :: "('fm, 'sm) env \<Rightarrow> ('fm, 'sm) cstate \<Rightarrow> int \<Rightarrow> storage_block option" where
  "cached E s k = cs_find (e_sblocks E) (c_cache s) k"

definition put_fblock :: "('fm, 'sm) env \<Rightarrow> int \<Rightarrow> block_info \<Rightarrow> ('fm, 'sm) cstate \<Rightarrow> ('fm, 'sm) cstate" where
  "put_fblock E n b s = s\<lparr>c_fi := (c_fi s)\<lparr>fi_blocks := cs_put (e_fblocks E) n b (fi_blocks (c_fi s))\<rparr>\<rparr>"

definition erase_fblock :: "('fm, 'sm) env \<Rightarrow> int \<Rightarrow> ('fm, 'sm) cstate \<Rightarrow> ('fm, 'sm) cstate" where
  "erase_fblock E n s = s\<lparr>c_fi := (c_fi s)\<lparr>fi_blocks := cs_erase (e_fblocks E) n (fi_blocks (c_fi s))\<rparr>\<rparr>"

definition put_sblock :: "('fm, 'sm) env \<Rightarrow> int \<Rightarrow> storage_block \<Rightarrow> ('fm, 'sm) cstate \<Rightarrow> ('fm, 'sm) cstate" where
  "put_sblock E k b s = s\<lparr>c_cache := cs_put (e_sblocks E) k b (c_cache s)\<rparr>"

text \<open>\<open>weak_ptr::lock\<close>\<close>

definition lock_weak :: "('fm, 'sm) env \<Rightarrow> (int \<times> nat) option \<Rightarrow> ('fm, 'sm) cstate \<Rightarrow> storage_block option" where
  "lock_weak E w s =
    (case w of
      None \<Rightarrow> None
    | Some (k, oid) \<Rightarrow>
        (case cached E s k of
          None \<Rightarrow> None
        | Some b \<Rightarrow> if sb_oid b = oid then Some b else None))"

text \<open>Reading and assigning through \<open>block_info *fblock\<close>, the item at \<open>n\<close> of the handle.\<close>

definition deref_fblock :: "('fm, 'sm) env \<Rightarrow> int \<Rightarrow> (('fm, 'sm) cstate, block_info) comp" where
  "deref_fblock E n = (\<lambda>s. case fblock_at E s n of None \<Rightarrow> (Halt UseAfterFree, s) | Some b \<Rightarrow> (Ok b, s))"

definition set_fblock :: "('fm, 'sm) env \<Rightarrow> int \<Rightarrow> (block_info \<Rightarrow> block_info) \<Rightarrow> (('fm, 'sm) cstate, unit) comp" where
  "set_fblock E n f = bnd (deref_fblock E n) (\<lambda>b. modify (put_fblock E n (f b)))"

text \<open>Reading and assigning through a \<open>shared_ptr\<close> to a cached storage block.\<close>

definition deref_sblock :: "('fm, 'sm) env \<Rightarrow> int \<Rightarrow> (('fm, 'sm) cstate, storage_block) comp" where
  "deref_sblock E k = (\<lambda>s. case cached E s k of None \<Rightarrow> (Halt UseAfterFree, s) | Some b \<Rightarrow> (Ok b, s))"

definition set_sblock :: "('fm, 'sm) env \<Rightarrow> int \<Rightarrow> (storage_block \<Rightarrow> storage_block) \<Rightarrow> (('fm, 'sm) cstate, unit) comp" where
  "set_sblock E k f = bnd (deref_sblock E k) (\<lambda>b. modify (put_sblock E k (f b)))"

subsection \<open>loadFileBlock\<close>

text \<open>The columns of the left join: \<open>sqlite3_column_int64\<close> and \<open>_blob\<close> of NULL are 0 and empty.\<close>

definition col_id :: "hash_row option \<Rightarrow> int" where
  "col_id r = (case r of None \<Rightarrow> 0 | Some h \<Rightarrow> hr_id h)"

definition col_hash :: "hash_row option \<Rightarrow> byte list" where
  "col_hash r = (case r of None \<Rightarrow> [] | Some h \<Rightarrow> hr_hash h)"

definition col_use :: "hash_row option \<Rightarrow> int" where
  "col_use r = (case r of None \<Rightarrow> 0 | Some h \<Rightarrow> hr_use h)"

definition loadFileBlock :: "('fm, 'sm) env \<Rightarrow> block_info \<Rightarrow> (('fm, 'sm) cstate, block_info \<times> int) comp" where
  "loadFileBlock E b =
    bnd (gets c_fi) (\<lambda>fi.
    if bi_num b * e_db_block_size E > st_size (fi_st fi) then
      ret (b\<lparr>bi_empty := True, bi_snum := 0\<rparr>, 0)
    else
      bnd (on_db (sql_query (stGetFileBlock (st_ino (fi_st fi)) (bi_num b)))) (\<lambda>row.
      ret (case row of
          Some r \<Rightarrow> (b\<lparr>bi_empty := False, bi_snum := col_id r, bi_hash := Some (col_hash r)\<rparr>, col_use r)
        | None \<Rightarrow> (b\<lparr>bi_empty := True, bi_snum := 0\<rparr>, 0))))"

subsection \<open>replaceStorageBlock\<close>

text \<open>The body of the \<open>try\<close> block; \<open>sblock\<close> is the number of the locked old block.\<close>

definition replace_body :: "('fm, 'sm) env \<Rightarrow> int \<Rightarrow> byte list \<Rightarrow> int option \<Rightarrow> (('fm, 'sm) cstate, bool) comp" where
  "replace_body E n hash sblock =
    sqn (set_fblock E n (\<lambda>b. b\<lparr>bi_hash := Some hash\<rparr>))
   (bnd (on_db (sql_query (stSelectBlockHash hash))) (\<lambda>row.
    bnd (case row of
        Some r \<Rightarrow>
          sqn (set_fblock E n (\<lambda>b. b\<lparr>bi_snum := hr_id r, bi_sblock := None\<rparr>))
         (sqn (on_db (sql_update (stIncreaseUseCount hash)))
         (sqn (case sblock of
             Some k \<Rightarrow> set_sblock E k (\<lambda>b. b\<lparr>sb_use := sb_use b - 1\<rparr>)
           | None \<Rightarrow> ret ())
         (ret True)))
      | None \<Rightarrow>
          bnd (case sblock of
              Some k \<Rightarrow> bnd (deref_sblock E k) (\<lambda>b. ret (sb_use b = 1))
            | None \<Rightarrow> ret False) (\<lambda>only_user.
          if only_user then
            sqn (case sblock of
                Some k \<Rightarrow> on_db (sql_update (stUpdateBlockHash hash k))
              | None \<Rightarrow> ret ())
           (ret False)
          else
            sqn (on_db (sql_insert (\<lambda>T. e_newid E (map hr_id (t_hashes T))) (\<lambda>rid. stInsertBlockHash rid hash)))
           (bnd (on_db lastInsertId) (\<lambda>rid.
            sqn (set_fblock E n (\<lambda>b. b\<lparr>bi_snum := rid, bi_sblock := None\<rparr>))
           (sqn (case sblock of
               Some k \<Rightarrow> set_sblock E k (\<lambda>b. b\<lparr>sb_use := sb_use b - 1\<rparr>)
             | None \<Rightarrow> ret ())
           (ret False)))))) (\<lambda>present.
    bnd (gets ino) (\<lambda>fid.
    sqn (on_db (sql_insert (\<lambda>T. e_newid E (map br_id (t_blocks T))) (\<lambda>rid. stReplaceFileBlock rid fid n hash)))
   (sqn (case sblock of
       Some k \<Rightarrow> bnd (deref_sblock E k) (\<lambda>b. on_db (sql_update (stSetUseCount (sb_use b) k)))
     | None \<Rightarrow> ret ())
   (sqn (on_db transactionCommit)
   (ret present)))))))"

definition replaceStorageBlock :: "('fm, 'sm) env \<Rightarrow> int \<Rightarrow> byte list \<Rightarrow> (('fm, 'sm) cstate, bool) comp" where
  "replaceStorageBlock E n hash =
    sqn (on_db transactionBegin)
   (bnd (deref_fblock E n) (\<lambda>fb.
    bnd (gets (lock_weak E (bi_sblock fb))) (\<lambda>sblock.
    try_catch (replace_body E n hash (map_option sb_num sblock))
      (\<lambda>e. sqn (on_db transactionRollback) (throw StdException)))))"

subsection \<open>releaseStorageBlock\<close>

definition releaseStorageBlock :: "('fm, 'sm) env \<Rightarrow> int \<Rightarrow> (('fm, 'sm) cstate, int) comp" where
  "releaseStorageBlock E n =
    sqn (on_db transactionBegin)
   (try_catch
     (bnd (gets (\<lambda>s. fblock_at E s n)) (\<lambda>gp.
      bnd (case gp of
          Some g \<Rightarrow>
            sqn (modify (erase_fblock E n))
           (ret ((new_block_info n)\<lparr>bi_empty := bi_empty g, bi_hash := bi_hash g, bi_snum := bi_snum g\<rparr>))
        | None \<Rightarrow> bnd (loadFileBlock E (new_block_info n)) (\<lambda>(b, dummy). ret b)) (\<lambda>fileBlock.
      bnd (gets ino) (\<lambda>fid.
      sqn (on_db (sql_update (stDeleteFileBlock fid n)))
     (case bi_hash fileBlock of
        None \<Rightarrow> halt NullDeref
      | Some hash \<Rightarrow>
          sqn (on_db (sql_update (stDecreaseUseCount hash)))
         (sqn (on_db transactionCommit)
         (ret (bi_snum fileBlock))))))))
     (\<lambda>e. sqn (on_db transactionRollback) (throw StdException)))"

subsection \<open>ftruncate\<close>

definition db_ftruncate :: "int \<Rightarrow> (('fm, 'sm) cstate, int) comp" where
  "db_ftruncate newSize =
    (if newSize < 0 then ret (- EINVAL)
     else bnd (gets c_fi) (\<lambda>fi.
       if st_size (fi_st fi) = newSize then ret 0
       else
         sqn (on_db (sql_update (stUpdateFileSize newSize (st_ino (fi_st fi)))))
        (sqn (modify (\<lambda>s. s\<lparr>c_fi := (c_fi s)\<lparr>fi_st := (fi_st (c_fi s))\<lparr>st_size := newSize\<rparr>\<rparr>\<rparr>))
        (ret 0))))"


subsection \<open>Running the operations\<close>

lemma returns_on_db [wp_simps]:
  "returns (on_db m) s P = returns m (c_db s) (\<lambda>x t. P x (s\<lparr>c_db := t\<rparr>))"
  by (simp add: on_db_def returns_zoom)

lemma returns_deref_fblock [wp_simps]:
  "returns (deref_fblock E n) s P \<longleftrightarrow> (\<exists>b. fblock_at E s n = Some b \<and> P b s)"
  by (auto simp: returns_def deref_fblock_def split: option.splits)

lemma returns_set_fblock [wp_simps]:
  "returns (set_fblock E n f) s P \<longleftrightarrow> (\<exists>b. fblock_at E s n = Some b \<and> P () (put_fblock E n (f b) s))"
  by (simp add: set_fblock_def wp_simps)

lemma returns_deref_sblock [wp_simps]:
  "returns (deref_sblock E k) s P \<longleftrightarrow> (\<exists>b. cached E s k = Some b \<and> P b s)"
  by (auto simp: returns_def deref_sblock_def split: option.splits)

lemma returns_set_sblock [wp_simps]:
  "returns (set_sblock E k f) s P \<longleftrightarrow> (\<exists>b. cached E s k = Some b \<and> P () (put_sblock E k (f b) s))"
  by (simp add: set_sblock_def wp_simps)

lemma fblock_at_update [simp]:
  "fblock_at E (s\<lparr>c_db := d\<rparr>) = fblock_at E s"
  "fblock_at E (s\<lparr>c_disk := k\<rparr>) = fblock_at E s"
  "fblock_at E (s\<lparr>c_next := i\<rparr>) = fblock_at E s"
  "fblock_at E (s\<lparr>c_now := t\<rparr>) = fblock_at E s"
  "fblock_at E (put_sblock E m sb s) = fblock_at E s"
  "fblock_at E (s\<lparr>c_fi := (c_fi s)\<lparr>fi_st := st\<rparr>\<rparr>) = fblock_at E s"
  by (simp_all add: fblock_at_def put_sblock_def fun_eq_iff)

lemma cached_update [simp]:
  "cached E (s\<lparr>c_db := d\<rparr>) = cached E s"
  "cached E (s\<lparr>c_disk := k\<rparr>) = cached E s"
  "cached E (s\<lparr>c_next := i\<rparr>) = cached E s"
  "cached E (s\<lparr>c_now := t\<rparr>) = cached E s"
  "cached E (s\<lparr>c_fi := fi\<rparr>) = cached E s"
  "cached E (put_fblock E n b s) = cached E s"
  "cached E (erase_fblock E n s) = cached E s"
  by (simp_all add: cached_def put_fblock_def erase_fblock_def fun_eq_iff)

lemma lock_weak_update [simp]:
  "lock_weak E w (s\<lparr>c_db := d\<rparr>) = lock_weak E w s"
  "lock_weak E w (s\<lparr>c_disk := k\<rparr>) = lock_weak E w s"
  "lock_weak E w (s\<lparr>c_fi := fi\<rparr>) = lock_weak E w s"
  "lock_weak E w (put_fblock E n b s) = lock_weak E w s"
  "lock_weak E w (erase_fblock E n s) = lock_weak E w s"
  by (simp_all add: lock_weak_def split: option.split)

lemma put_sel [simp]:
  "c_db (put_fblock E n b s) = c_db s" "c_db (put_sblock E k sb s) = c_db s"
  "c_disk (put_fblock E n b s) = c_disk s" "c_disk (put_sblock E k sb s) = c_disk s"
  "c_next (put_fblock E n b s) = c_next s" "c_next (put_sblock E k sb s) = c_next s"
  "c_now (put_fblock E n b s) = c_now s" "c_now (put_sblock E k sb s) = c_now s"
  "fi_st (c_fi (put_fblock E n b s)) = fi_st (c_fi s)" "c_fi (put_sblock E k sb s) = c_fi s"
  "c_db (erase_fblock E n s) = c_db s" "c_disk (erase_fblock E n s) = c_disk s"
  "c_next (erase_fblock E n s) = c_next s" "c_now (erase_fblock E n s) = c_now s"
  "fi_st (c_fi (erase_fblock E n s)) = fi_st (c_fi s)"
  by (simp_all add: put_fblock_def put_sblock_def erase_fblock_def)

context dedup_env
begin

lemma fblock_at_put [simp]: "fblock_at E (put_fblock E n b s) = (fblock_at E s)(n \<mapsto> b)"
  by (simp add: fblock_at_def put_fblock_def fb.cds_simps fun_eq_iff)

lemma fblock_at_erase [simp]: "fblock_at E (erase_fblock E n s) = (fblock_at E s)(n := None)"
  by (simp add: fblock_at_def erase_fblock_def fb.cds_simps fun_eq_iff)

lemma cached_put [simp]: "cached E (put_sblock E k b s) = (cached E s)(k \<mapsto> b)"
  by (simp add: cached_def put_sblock_def sb.cds_simps fun_eq_iff)

end

subsection \<open>What replaceStorageBlock does\<close>

text \<open>Its effect on the rows, on the item of the handle and on the cache, when no statement
  fails; \<open>old\<close> is the number and the use count of the locked old block.\<close>

definition replace_rows :: "('fm, 'sm) env \<Rightarrow> int \<Rightarrow> int \<Rightarrow> byte list \<Rightarrow> (int \<times> int) option \<Rightarrow> tables \<Rightarrow> tables" where
  "replace_rows E f n hash old T =
    (let T1 = (if stSelectBlockHash hash T \<noteq> None then stIncreaseUseCount hash T
               else (case old of
                   Some (k, c) \<Rightarrow> if c = 1 then stUpdateBlockHash hash k T
                      else stInsertBlockHash (e_newid E (map hr_id (t_hashes T))) hash T
                 | None \<Rightarrow> stInsertBlockHash (e_newid E (map hr_id (t_hashes T))) hash T));
         T2 = stReplaceFileBlock (e_newid E (map br_id (t_blocks T1))) f n hash T1
     in case old of
          None \<Rightarrow> T2
        | Some (k, c) \<Rightarrow> stSetUseCount (if stSelectBlockHash hash T = None \<and> c = 1 then 1 else c - 1) k T2)"

definition replace_fblock :: "('fm, 'sm) env \<Rightarrow> byte list \<Rightarrow> storage_block option \<Rightarrow> tables \<Rightarrow> block_info \<Rightarrow> block_info" where
  "replace_fblock E hash old T b =
    (case stSelectBlockHash hash T of
      Some r \<Rightarrow> b\<lparr>bi_hash := Some hash, bi_snum := hr_id r, bi_sblock := None\<rparr>
    | None \<Rightarrow> (case old of
        Some sb \<Rightarrow> if sb_use sb = 1 then b\<lparr>bi_hash := Some hash\<rparr>
          else b\<lparr>bi_hash := Some hash, bi_snum := e_newid E (map hr_id (t_hashes T)), bi_sblock := None\<rparr>
      | None \<Rightarrow> b\<lparr>bi_hash := Some hash, bi_snum := e_newid E (map hr_id (t_hashes T)), bi_sblock := None\<rparr>))"

definition replace_cached :: "byte list \<Rightarrow> storage_block option \<Rightarrow> tables \<Rightarrow> (int \<Rightarrow> storage_block option) \<Rightarrow> int \<Rightarrow> storage_block option" where
  "replace_cached hash old T c =
    (case old of
      None \<Rightarrow> c
    | Some sb \<Rightarrow> if stSelectBlockHash hash T = None \<and> sb_use sb = 1 then c
        else c(sb_num sb \<mapsto> sb\<lparr>sb_use := sb_use sb - 1\<rparr>))"

context dedup_env
begin

lemma replaceStorageBlock_ok:
  assumes fb: "fblock_at E s n = Some b" and sc: "db_script (c_db s) = []" and sv: "db_saved (c_db s) = None"
    and old: "lock_weak E (bi_sblock b) s = old"
    and key: "\<And>sb. old = Some sb \<Longrightarrow> cached E s (sb_num sb) = Some sb"
  shows "returns (replaceStorageBlock E n hash) s (\<lambda>present t.
    present = (stSelectBlockHash hash (tabs s) \<noteq> None)
    \<and> tabs t = replace_rows E (ino s) n hash (map_option (\<lambda>sb. (sb_num sb, sb_use sb)) old) (tabs s)
    \<and> db_script (c_db t) = [] \<and> db_saved (c_db t) = None
    \<and> fblock_at E t = (fblock_at E s)(n \<mapsto> replace_fblock E hash old (tabs s) b)
    \<and> cached E t = replace_cached hash old (tabs s) (cached E s)
    \<and> c_disk t = c_disk s \<and> c_next t = c_next s \<and> c_now t = c_now s \<and> fi_st (c_fi t) = fi_st (c_fi s))"
  using fb sc sv old key
  apply (simp add: replaceStorageBlock_def wp_simps)
  apply (rule returns_try_catchI)
  apply (cases "stSelectBlockHash hash (tabs s)"; cases old)
     apply (simp_all add: replace_body_def wp_simps replace_rows_def replace_fblock_def replace_cached_def Let_def)
  done

end

subsection \<open>Which hash a block has, and how often a hash is used\<close>

text \<open>The rows: which hash a block of a file has, and how often a hash is used.\<close>

definition file_block :: "tables \<Rightarrow> int \<Rightarrow> int \<Rightarrow> byte list option" where
  "file_block T f n = map_option br_hash (find (\<lambda>b. br_file b = f \<and> br_offset b = n) (t_blocks T))"

definition refs :: "tables \<Rightarrow> byte list \<Rightarrow> nat" where
  "refs T h = length (filter (\<lambda>b. br_hash b = h) (t_blocks T))"

definition wf_rows :: "tables \<Rightarrow> bool" where
  "wf_rows T \<longleftrightarrow>
     distinct (map hr_id (t_hashes T)) \<and> (\<forall>r\<in>set (t_hashes T). 0 < hr_id r)
   \<and> distinct (map hr_hash (t_hashes T))
   \<and> distinct (map (\<lambda>b. (br_file b, br_offset b)) (t_blocks T))"

definition counted :: "tables \<Rightarrow> bool" where
  "counted T \<longleftrightarrow>
     (\<forall>r\<in>set (t_hashes T). hr_use r = int (refs T (hr_hash r)))
   \<and> (\<forall>b\<in>set (t_blocks T). br_hash b \<in> hr_hash ` set (t_hashes T))"

lemma file_block_delete:
  "file_block (stDeleteFileBlock f n T) g m = (if g = f \<and> m = n then None else file_block T g m)"
proof (cases "g = f \<and> m = n")
  case False
  then have "(\<lambda>b :: block_row. (br_file b = g \<and> br_offset b = m) \<and> \<not> (br_file b = f \<and> br_offset b = n)) =
      (\<lambda>b. br_file b = g \<and> br_offset b = m)" by auto
  with False show ?thesis by (auto simp: file_block_def stDeleteFileBlock_def find_filter)
qed (auto simp: file_block_def stDeleteFileBlock_def find_filter find_None_iff)

lemma file_block_replace:
  "file_block (stReplaceFileBlock rid f n h T) g m = (if g = f \<and> m = n then Some h else file_block T g m)"
proof -
  have "file_block (stReplaceFileBlock rid f n h T) g m =
      (case file_block (stDeleteFileBlock f n T) g m of
        None \<Rightarrow> if g = f \<and> m = n then Some h else None | Some h' \<Rightarrow> Some h')"
    by (auto simp: file_block_def stReplaceFileBlock_def stDeleteFileBlock_def find_append split: option.split)
  then show ?thesis by (simp add: file_block_delete split: option.split)
qed

lemma file_block_hashes [simp]:
  "file_block (T\<lparr>t_hashes := hs\<rparr>) = file_block T"
  "refs (T\<lparr>t_hashes := hs\<rparr>) = refs T"
  by (simp_all add: file_block_def refs_def fun_eq_iff)

lemma file_block_Some_set:
  "file_block T f n = Some h \<Longrightarrow> \<exists>b\<in>set (t_blocks T). br_file b = f \<and> br_offset b = n \<and> br_hash b = h"
  by (auto simp: file_block_def dest: find_Some_set)

lemma refs_delete:
  assumes "wf_rows T"
  shows "refs (stDeleteFileBlock f n T) h = refs T h - (if file_block T f n = Some h then 1 else 0)"
    and "file_block T f n = Some h \<Longrightarrow> 0 < refs T h"
proof -
  have *: "distinct (map (\<lambda>b. (br_file b, br_offset b)) bs) \<Longrightarrow>
      length (filter (\<lambda>b. br_hash b = h) bs) =
      length (filter (\<lambda>b. br_hash b = h) (filter (\<lambda>b. \<not> (br_file b = f \<and> br_offset b = n)) bs))
      + (if map_option br_hash (find (\<lambda>b. br_file b = f \<and> br_offset b = n) bs) = Some h then 1 else 0)" for bs :: "block_row list"
  proof (induction bs)
    case (Cons b bs)
    show ?case
    proof (cases "br_file b = f \<and> br_offset b = n")
      case True
      have "filter (\<lambda>b. \<not> (br_file b = f \<and> br_offset b = n)) bs = bs"
        by (rule filter_True) (use Cons.prems True in \<open>auto simp: image_iff\<close>)
      with True show ?thesis by simp
    next
      case False
      with Cons show ?thesis by auto
    qed
  qed simp
  from assms have d: "distinct (map (\<lambda>b. (br_file b, br_offset b)) (t_blocks T))" by (simp add: wf_rows_def)
  show "refs (stDeleteFileBlock f n T) h = refs T h - (if file_block T f n = Some h then 1 else 0)"
    using *[OF d] by (simp add: refs_def stDeleteFileBlock_def file_block_def)
  show "file_block T f n = Some h \<Longrightarrow> 0 < refs T h"
    using *[OF d] by (simp add: refs_def file_block_def)
qed

lemma refs_replace:
  "refs (stReplaceFileBlock rid f n hash T) h = refs (stDeleteFileBlock f n T) h + (if h = hash then 1 else 0)"
  by (auto simp: refs_def stReplaceFileBlock_def stDeleteFileBlock_def)


lemma wf_rowsD:
  assumes "wf_rows T"
  shows "distinct (map hr_id (t_hashes T))" "distinct (map hr_hash (t_hashes T))"
    "r \<in> set (t_hashes T) \<Longrightarrow> 0 < hr_id r"
  using assms by (auto simp: wf_rows_def)

lemma row_eq_hash: "wf_rows T \<Longrightarrow> r \<in> set (t_hashes T) \<Longrightarrow> r' \<in> set (t_hashes T) \<Longrightarrow> hr_hash r = hr_hash r' \<longleftrightarrow> r = r'"
  by (auto simp: wf_rows_def distinct_map inj_on_def)

lemma row_eq_id: "wf_rows T \<Longrightarrow> r \<in> set (t_hashes T) \<Longrightarrow> r' \<in> set (t_hashes T) \<Longrightarrow> hr_id r = hr_id r' \<longleftrightarrow> r = r'"
  by (auto simp: wf_rows_def distinct_map inj_on_def)

lemma select_Some: "wf_rows T \<Longrightarrow> stSelectBlockHash h T = Some r \<longleftrightarrow> r \<in> set (t_hashes T) \<and> hr_hash r = h"
  by (simp add: stSelectBlockHash_def find_key_Some wf_rowsD)

lemma select_None: "stSelectBlockHash h T = None \<longleftrightarrow> h \<notin> hr_hash ` set (t_hashes T)"
  by (simp add: stSelectBlockHash_def find_key_None)

text \<open>What the caller of \<open>replaceStorageBlock\<close> knows about the old block of the file:
  it is locked and known to the database under the block's row, or there is none.\<close>

definition old_block :: "tables \<Rightarrow> int \<Rightarrow> int \<Rightarrow> (int \<times> int) option \<Rightarrow> bool" where
  "old_block T f n old \<longleftrightarrow>
    (case old of
      None \<Rightarrow> file_block T f n = None
    | Some (k, c) \<Rightarrow> \<exists>r\<in>set (t_hashes T). hr_id r = k \<and> hr_use r = c \<and> file_block T f n = Some (hr_hash r))"

lemma same_blocks: "t_blocks T = t_blocks T' \<Longrightarrow> file_block T = file_block T' \<and> refs T = refs T'"
  by (simp add: file_block_def refs_def fun_eq_iff)

lemma t_blocks_replace_rows:
  "\<exists>rid. t_blocks (replace_rows E f n hash old T) = t_blocks (stReplaceFileBlock rid f n hash T)"
  by (auto simp: replace_rows_def Let_def stSetUseCount_def stReplaceFileBlock_def stIncreaseUseCount_def
      stUpdateBlockHash_def stInsertBlockHash_def split: option.split)

lemma file_block_replace_rows:
  "file_block (replace_rows E f n hash old T) g m = (if g = f \<and> m = n then Some hash else file_block T g m)"
  using t_blocks_replace_rows[of E f n hash old T] by (metis same_blocks file_block_replace)

lemma refs_replace_rows:
  assumes "wf_rows T"
  shows "refs (replace_rows E f n hash old T) h =
    refs T h - (if file_block T f n = Some h then 1 else 0) + (if h = hash then 1 else 0)"
proof -
  obtain rid where "t_blocks (replace_rows E f n hash old T) = t_blocks (stReplaceFileBlock rid f n hash T)"
    using t_blocks_replace_rows by blast
  from same_blocks[OF this] show ?thesis by (simp add: refs_replace refs_delete[OF assms])
qed

lemma blocks_replace_rows:
  "(\<lambda>b. (br_file b, br_offset b, br_hash b)) ` set (t_blocks (replace_rows E f n hash old T)) =
   insert (f, n, hash) {(g, m, h). \<exists>b\<in>set (t_blocks T). (g, m, h) = (br_file b, br_offset b, br_hash b) \<and> (g, m) \<noteq> (f, n)}"
proof -
  obtain rid where "t_blocks (replace_rows E f n hash old T) = t_blocks (stReplaceFileBlock rid f n hash T)"
    using t_blocks_replace_rows by blast
  then show ?thesis by (auto simp: stReplaceFileBlock_def image_iff)
qed

lemma keys_replace_rows:
  "distinct (map (\<lambda>b. (br_file b, br_offset b)) (t_blocks T)) \<Longrightarrow>
   distinct (map (\<lambda>b. (br_file b, br_offset b)) (t_blocks (replace_rows E f n hash old T)))"
proof -
  assume d: "distinct (map (\<lambda>b. (br_file b, br_offset b)) (t_blocks T))"
  obtain rid where "t_blocks (replace_rows E f n hash old T) = t_blocks (stReplaceFileBlock rid f n hash T)"
    using t_blocks_replace_rows by blast
  with d show ?thesis by (auto simp: stReplaceFileBlock_def distinct_map inj_on_def)
qed

text \<open>The rows of \<open>block_hashes\<close> after each of the three ways a block gets its hash.\<close>

lemma hashes_replace_rows:
  "t_hashes (replace_rows E f n hash old T) =
    (let present = stSelectBlockHash hash T \<noteq> None;
         inplace = (\<not> present \<and> (\<exists>k. old = Some (k, 1)));
         rows = (if present then map (\<lambda>r. if hr_hash r = hash then r\<lparr>hr_use := hr_use r + 1\<rparr> else r) (t_hashes T)
                 else if inplace then map (\<lambda>r. if hr_id r = fst (the old) then r\<lparr>hr_hash := hash\<rparr> else r) (t_hashes T)
                 else t_hashes T @ [\<lparr>hr_id = e_newid E (map hr_id (t_hashes T)), hr_hash = hash, hr_use = 1\<rparr>])
     in case old of
          None \<Rightarrow> rows
        | Some (k, c) \<Rightarrow> map (\<lambda>r. if hr_id r = k then r\<lparr>hr_use := if inplace then 1 else c - 1\<rparr> else r) rows)"
  by (auto simp: replace_rows_def Let_def stmt_defs split: option.split prod.split)

text \<open>The rows by what they mean: the block loses its old hash and gets the new one.\<close>

definition moved_use :: "tables \<Rightarrow> int \<Rightarrow> int \<Rightarrow> byte list \<Rightarrow> hash_row \<Rightarrow> hash_row" where
  "moved_use T f n hash r =
     r\<lparr>hr_use := hr_use r - (if file_block T f n = Some (hr_hash r) then 1 else 0)
                       + (if hr_hash r = hash then 1 else 0)\<rparr>"

lemma moved_use_sel [simp]: "hr_id (moved_use T f n h r) = hr_id r" "hr_hash (moved_use T f n h r) = hr_hash r"
  by (simp_all add: moved_use_def)

definition rehashed :: "tables \<Rightarrow> int \<Rightarrow> int \<Rightarrow> byte list \<Rightarrow> hash_row \<Rightarrow> hash_row" where
  "rehashed T f n hash r =
     (if file_block T f n = Some (hr_hash r) then r\<lparr>hr_hash := hash, hr_use := 1\<rparr> else r)"

lemma rehashed_id [simp]: "hr_id (rehashed T f n h r) = hr_id r"
  by (simp add: rehashed_def)

lemma old_block_row:
  assumes wf: "wf_rows T" and old: "old_block T f n (Some (k, c))" and r: "r \<in> set (t_hashes T)"
  shows "hr_id r = k \<longleftrightarrow> file_block T f n = Some (hr_hash r)" and "hr_id r = k \<Longrightarrow> hr_use r = c"
  using old r row_eq_id[OF wf] row_eq_hash[OF wf] by (auto simp: old_block_def)

lemma hashes_present:
  assumes wf: "wf_rows T" and old: "old_block T f n old" and new: "file_block T f n \<noteq> Some hash"
    and p: "stSelectBlockHash hash T \<noteq> None"
  shows "t_hashes (replace_rows E f n hash old T) = map (moved_use T f n hash) (t_hashes T)"
proof (cases old)
  case None
  with old p show ?thesis
    by (auto simp: hashes_replace_rows moved_use_def old_block_def)
next
  case (Some kc)
  obtain k c where kc: "old = Some (k, c)" using Some by (cases kc) auto
  show ?thesis
    using p new old_block_row[OF wf old[unfolded kc]]
    by (auto simp: hashes_replace_rows kc moved_use_def o_def)
qed

lemma hashes_inplace:
  assumes wf: "wf_rows T" and old: "old_block T f n (Some (k, 1))" and p: "stSelectBlockHash hash T = None"
  shows "t_hashes (replace_rows E f n hash (Some (k, 1)) T) = map (rehashed T f n hash) (t_hashes T)"
  using p old_block_row[OF wf old] by (auto simp: hashes_replace_rows rehashed_def o_def)

lemma hashes_fresh:
  assumes wf: "wf_rows T" and old: "old_block T f n old" and nid: "e_newid E (map hr_id (t_hashes T)) \<notin> hr_id ` set (t_hashes T)"
    and p: "stSelectBlockHash hash T = None" and o: "\<not> (\<exists>k. old = Some (k, 1))"
  shows "t_hashes (replace_rows E f n hash old T) = map (moved_use T f n hash) (t_hashes T) @
     [\<lparr>hr_id = e_newid E (map hr_id (t_hashes T)), hr_hash = hash, hr_use = 1\<rparr>]"
proof (cases old)
  case None
  with old p show ?thesis
    by (auto simp: hashes_replace_rows moved_use_def old_block_def select_None image_iff intro!: map_idI[symmetric])
next
  case (Some kc)
  obtain k c where kc: "old = Some (k, c)" using Some by (cases kc) auto
  from old kc nid have "e_newid E (map hr_id (t_hashes T)) \<noteq> k" by (auto simp: old_block_def)
  then show ?thesis
    using p o old_block_row[OF wf old[unfolded kc]]
    by (auto simp: hashes_replace_rows kc moved_use_def o_def select_None image_iff)
qed

lemma replace_cases [case_names present inplace fresh]:
  assumes "stSelectBlockHash hash T \<noteq> None \<Longrightarrow> P"
    and "\<And>k. stSelectBlockHash hash T = None \<Longrightarrow> old = Some (k, 1) \<Longrightarrow> P"
    and "stSelectBlockHash hash T = None \<Longrightarrow> \<not> (\<exists>k. old = Some (k, 1)) \<Longrightarrow> P"
  shows P
  using assms by blast

context dedup_env
begin

lemma replace_rows_hash_keys:
  assumes wf: "wf_rows T" and old: "old_block T f n old" and new: "file_block T f n \<noteq> Some hash"
  shows "distinct (map hr_id (t_hashes (replace_rows E f n hash old T)))
    \<and> (\<forall>r\<in>set (t_hashes (replace_rows E f n hash old T)). 0 < hr_id r)
    \<and> distinct (map hr_hash (t_hashes (replace_rows E f n hash old T)))"
proof (cases rule: replace_cases[of hash T _ old])
  case present
  then show ?thesis using wf by (simp add: hashes_present[OF wf old new] wf_rows_def o_def)
next
  case (inplace k)
  have "distinct (map hr_hash (map (rehashed T f n hash) (t_hashes T)))"
    using wf inplace by (auto simp: rehashed_def wf_rows_def distinct_map inj_on_def select_None)
  moreover have "\<forall>r\<in>set (map (rehashed T f n hash) (t_hashes T)). 0 < hr_id r"
    using wf by (auto simp: rehashed_def wf_rows_def)
  ultimately show ?thesis using inplace wf
    by (simp add: hashes_inplace[OF wf old[unfolded inplace]] wf_rows_def o_def)
next
  case fresh
  have "e_newid E (map hr_id (t_hashes T)) \<notin> hr_id ` set (t_hashes T)"
    using newid_fresh[of "map hr_id (t_hashes T)"] by simp
  with fresh show ?thesis using wf newid_pos[of "map hr_id (t_hashes T)"]
    by (auto simp: hashes_fresh[OF wf old] wf_rows_def o_def select_None)
qed

lemma counted_refs:
  "counted T \<longleftrightarrow> (\<forall>r\<in>set (t_hashes T). hr_use r = int (refs T (hr_hash r)))
     \<and> (\<forall>h. h \<notin> hr_hash ` set (t_hashes T) \<longrightarrow> refs T h = 0)" (is "_ \<longleftrightarrow> ?R")
proof
  assume "counted T"
  then show ?R by (auto simp: counted_def refs_def filter_empty_conv)
next
  assume ?R
  then show "counted T" by (auto simp: counted_def refs_def filter_empty_conv)
qed

lemma inplace_unknown:
  assumes wf: "wf_rows T" and cnt: "counted T" and old: "old_block T f n (Some (k, 1))"
    and p: "stSelectBlockHash hash T = None"
    and h: "h \<notin> hr_hash ` set (map (rehashed T f n hash) (t_hashes T))"
  shows "refs (replace_rows E f n hash (Some (k, 1)) T) h = 0"
proof (cases "h \<in> hr_hash ` set (t_hashes T)")
  case True
  obtain r where r: "r \<in> set (t_hashes T)" "hr_use r = 1" "file_block T f n = Some (hr_hash r)"
    using old by (auto simp: old_block_def)
  from True obtain r' where r': "r' \<in> set (t_hashes T)" "hr_hash r' = h" by auto
  have "file_block T f n = Some h" using h r' by (auto simp: rehashed_def image_iff split: if_splits)
  moreover have "h \<noteq> hash" using p r' by (auto simp: select_None)
  moreover have "refs T (hr_hash r) = 1" using cnt r by (auto simp: counted_refs)
  ultimately show ?thesis using r by (simp add: refs_replace_rows[OF wf])
next
  case False
  obtain r where r: "r \<in> set (t_hashes T)" "file_block T f n = Some (hr_hash r)"
    using old by (auto simp: old_block_def)
  then have "h \<noteq> hash"
    using h rev_image_eqI[of "rehashed T f n hash r" "set (map (rehashed T f n hash) (t_hashes T))" hash hr_hash]
    by (auto simp: rehashed_def)
  with False cnt show ?thesis by (simp add: refs_replace_rows[OF wf] counted_refs)
qed

lemma replace_rows_counted:
  assumes wf: "wf_rows T" and cnt: "counted T" and old: "old_block T f n old"
    and new: "file_block T f n \<noteq> Some hash"
  shows "counted (replace_rows E f n hash old T)"
proof -
  let ?T = "replace_rows E f n hash old T"
  from cnt have use: "\<And>r. r \<in> set (t_hashes T) \<Longrightarrow> hr_use r = int (refs T (hr_hash r))"
    and known: "\<And>h. h \<notin> hr_hash ` set (t_hashes T) \<Longrightarrow> refs T h = 0" by (simp_all add: counted_refs)
  have pos: "0 < refs T h" if "file_block T f n = Some h" for h
    using refs_delete(2)[OF wf that] .
  note refs' = refs_replace_rows[OF wf, of E f n hash old]
  show ?thesis
    unfolding counted_refs
  proof (cases rule: replace_cases[of hash T _ old])
    case present
    then have "hash \<in> hr_hash ` set (t_hashes T)" by (simp add: select_None)
    moreover have "hr_hash ` set (t_hashes ?T) = hr_hash ` set (t_hashes T)"
      by (simp add: hashes_present[OF wf old new present] image_image)
    ultimately show "(\<forall>r\<in>set (t_hashes ?T). hr_use r = int (refs ?T (hr_hash r)))
        \<and> (\<forall>h. h \<notin> hr_hash ` set (t_hashes ?T) \<longrightarrow> refs ?T h = 0)"
      using pos by (auto simp: hashes_present[OF wf old new present] refs' moved_use_def use known)
  next
    case (inplace k)
    then have nh: "hash \<notin> hr_hash ` set (t_hashes T)" by (simp add: select_None)
    note o = old[unfolded inplace(2)]
    note H = hashes_inplace[OF wf o inplace(1), folded inplace(2)]
    have "refs ?T h = 0" if "h \<notin> hr_hash ` set (t_hashes ?T)" for h
      using inplace_unknown[OF wf cnt o inplace(1), folded inplace(2)] that unfolding H by blast
    moreover have "\<forall>r\<in>set (t_hashes ?T). hr_use r = int (refs ?T (hr_hash r))"
      using nh new known[OF nh] by (auto simp: H rehashed_def refs' use)
    ultimately show "(\<forall>r\<in>set (t_hashes ?T). hr_use r = int (refs ?T (hr_hash r)))
        \<and> (\<forall>h. h \<notin> hr_hash ` set (t_hashes ?T) \<longrightarrow> refs ?T h = 0)" by blast
  next
    case fresh
    then have nh: "hash \<notin> hr_hash ` set (t_hashes T)" by (simp add: select_None)
    have "e_newid E (map hr_id (t_hashes T)) \<notin> hr_id ` set (t_hashes T)"
      using newid_fresh[of "map hr_id (t_hashes T)"] by simp
    note H = hashes_fresh[OF wf old this fresh]
    show "(\<forall>r\<in>set (t_hashes ?T). hr_use r = int (refs ?T (hr_hash r)))
        \<and> (\<forall>h. h \<notin> hr_hash ` set (t_hashes ?T) \<longrightarrow> refs ?T h = 0)"
      using nh new known pos by (auto simp: H refs' moved_use_def use image_image)
  qed
qed

lemma replace_rows_wf:
  assumes wf: "wf_rows T" and cnt: "counted T" and old: "old_block T f n old"
    and new: "file_block T f n \<noteq> Some hash"
  shows "wf_rows (replace_rows E f n hash old T) \<and> counted (replace_rows E f n hash old T)"
  using replace_rows_hash_keys[OF wf old new] replace_rows_counted[OF assms] keys_replace_rows wf
  by (auto simp: wf_rows_def)
end

subsection \<open>Transactions\<close>

text \<open>The rows another connection sees: those before the open transaction.\<close>

definition committed :: "sqldb \<Rightarrow> tables" where
  "committed d = (case db_saved d of None \<Rightarrow> db_tabs d | Some T \<Rightarrow> T)"

abbreviation in_tx :: "tables \<Rightarrow> ('fm, 'sm) cstate \<Rightarrow> bool" where
  "in_tx T s \<equiv> db_saved (c_db s) = Some T"

text \<open>\<open>ends_tx T m\<close>: from inside a transaction, \<open>m\<close> commits when it ends normally and
  leaves the transaction open otherwise.\<close>

definition ends_tx :: "tables \<Rightarrow> (('fm, 'sm) cstate, 'a) comp \<Rightarrow> bool" where
  "ends_tx T m \<longleftrightarrow> (\<forall>s. in_tx T s \<longrightarrow>
     (case m s of (Ok x, t) \<Rightarrow> db_saved (c_db t) = None | (_, t) \<Rightarrow> in_tx T t))"

lemma keeps_on_db:
  "keeps (\<lambda>d. db_saved d = Some T) m \<Longrightarrow> keeps (in_tx T) (on_db m)"
  by (auto simp: keeps_def on_db_def zoom_def split: prod.split)

lemma keeps_exec:
  assumes "\<And>d x d'. db_saved d = Some T \<Longrightarrow> f d = Inr (x, d') \<Longrightarrow> db_saved d' = Some T"
  shows "keeps (\<lambda>d. db_saved d = Some T) (exec f)"
  unfolding keeps_def
proof (intro allI impI)
  fix d :: sqldb assume d: "db_saved d = Some T"
  show "db_saved (snd (exec f d)) = Some T"
  proof (cases rule: exec_cases[of f d])
    case (run x d')
    from assms[OF _ run(1)] d have "db_saved d' = Some T" by simp
    with run(2) show ?thesis by simp
  qed (use d in simp)
qed

lemma keeps_statements [inv_intros]:
  "keeps (in_tx T) (on_db (sql_query q))"
  "keeps (in_tx T) (on_db (sql_update u))"
  "keeps (in_tx T) (on_db (sql_insert p i))"
  "keeps (in_tx T) (on_db lastInsertId)"
  by (rule keeps_on_db, auto simp: sql_query_def sql_update_def sql_insert_def lastInsertId_def Let_def
      intro!: keeps_exec keeps_gets)+

lemma keeps_objects [inv_intros]:
  "keeps (in_tx T) (deref_fblock E n)"
  "keeps (in_tx T) (set_fblock E n f)"
  "keeps (in_tx T) (deref_sblock E k)"
  "keeps (in_tx T) (set_sblock E k g)"
  "keeps (in_tx T) (modify (erase_fblock E n))"
  by (auto simp: keeps_def deref_fblock_def set_fblock_def deref_sblock_def set_sblock_def bnd_def modify_def
      split: option.split)

lemma keeps_option [inv_intros]:
  "(\<And>x. v = Some x \<Longrightarrow> keeps I (f x)) \<Longrightarrow> (v = None \<Longrightarrow> keeps I m) \<Longrightarrow>
   keeps I (case v of None \<Rightarrow> m | Some x \<Rightarrow> f x)"
  by (cases v) auto

lemma ends_tx_bnd [inv_intros]:
  assumes m: "keeps (in_tx T) m" and f: "\<And>x. ends_tx T (f x)"
  shows "ends_tx T (bnd m f)"
  unfolding ends_tx_def
proof (intro allI impI)
  fix s :: "('a, 'b) cstate" assume s: "in_tx T s"
  obtain r t where run: "m s = (r, t)" by (cases "m s")
  from keepsD[OF m s run] have t: "in_tx T t" .
  show "case bnd m f s of (Ok x, t) \<Rightarrow> db_saved (c_db t) = None | (_, t) \<Rightarrow> in_tx T t"
  proof (cases r)
    case (Ok x)
    with run have "bnd m f s = f x t" by (simp add: bnd_run)
    with f[of x] t show ?thesis by (simp add: ends_tx_def)
  qed (use run t in \<open>auto simp: bnd_run\<close>)
qed

lemma ends_tx_sqn [inv_intros]: "keeps (in_tx T) m \<Longrightarrow> ends_tx T n \<Longrightarrow> ends_tx T (sqn m n)"
  by (simp add: sqn_def ends_tx_bnd)

lemma ends_tx_halt [inv_intros]: "ends_tx T (halt h)"
  by (simp add: ends_tx_def halt_def)

lemma ends_tx_option [inv_intros]:
  "(\<And>x. v = Some x \<Longrightarrow> ends_tx T (f x)) \<Longrightarrow> (v = None \<Longrightarrow> ends_tx T m) \<Longrightarrow>
   ends_tx T (case v of None \<Rightarrow> m | Some x \<Rightarrow> f x)"
  by (cases v) auto

lemma ends_tx_commit [inv_intros]: "ends_tx T (sqn (on_db transactionCommit) (ret x))"
  unfolding ends_tx_def
proof (intro allI impI)
  fix s :: "('a, 'b) cstate" assume s: "in_tx T s"
  show "case sqn (on_db transactionCommit) (ret x) s of
      (Ok x, t) \<Rightarrow> db_saved (c_db t) = None | (_, t) \<Rightarrow> in_tx T t"
    using s by (cases rule: exec_cases[of "\<lambda>d. case db_saved d of None \<Rightarrow> Inl sql_error
      | Some _ \<Rightarrow> Inr ((), d\<lparr>db_saved := None\<rparr>)" "c_db s"])
      (auto simp: run_simps on_db_def transactionCommit_def)
qed

lemma begin_cases:
  assumes "db_saved (c_db s) = None"
  obtains (failed) e sc where "on_db transactionBegin s = (Exn e, s\<lparr>c_db := (c_db s)\<lparr>db_script := sc\<rparr>\<rparr>)"
  | (begun) sc where "on_db transactionBegin s =
      (Ok (), s\<lparr>c_db := (c_db s)\<lparr>db_script := sc, db_saved := Some (tabs s)\<rparr>\<rparr>)"
  using assms by (cases rule: exec_cases[of "\<lambda>d. case db_saved d of Some _ \<Rightarrow> Inl sql_error
      | None \<Rightarrow> Inr ((), d\<lparr>db_saved := Some (db_tabs d)\<rparr>)" "c_db s"])
    (auto simp: on_db_def zoom_run transactionBegin_def)

lemma rollback_committed:
  assumes "in_tx T s" and "sqn (on_db transactionRollback) (throw e) s = (r, t)"
  shows "committed (c_db t) = T \<and> (\<forall>x. r \<noteq> Ok x)"
  using assms by (cases rule: exec_cases[of "\<lambda>d. case db_saved d of None \<Rightarrow> Inl sql_error
      | Some T \<Rightarrow> Inr ((), d\<lparr>db_tabs := T, db_saved := None\<rparr>)" "c_db s"])
    (auto simp: run_simps on_db_def transactionRollback_def committed_def)

text \<open>What a call leaves behind: a commit when it ends normally, else the old rows.\<close>

definition all_or_nothing :: "tables \<Rightarrow> 'a outcome \<Rightarrow> ('fm, 'sm) cstate \<Rightarrow> bool" where
  "all_or_nothing T r t \<longleftrightarrow>
     (case r of Ok x \<Rightarrow> db_saved (c_db t) = None | _ \<Rightarrow> committed (c_db t) = T)"

lemma catch_atomic:
  assumes s: "in_tx T s" and body: "ends_tx T m"
    and run: "try_catch m (\<lambda>e. sqn (on_db transactionRollback) (throw StdException)) s = (r, t)"
  shows "all_or_nothing T r t"
proof -
  have e: "case m s of (Ok x, t) \<Rightarrow> db_saved (c_db t) = None | (_, t) \<Rightarrow> in_tx T t"
    using body s by (simp add: ends_tx_def)
  obtain r' t' where m: "m s = (r', t')" by (cases "m s")
  show ?thesis
  proof (cases r')
    case (Exn x)
    with run m have "sqn (on_db transactionRollback) (throw StdException) t' = (r, t)"
      by (simp add: try_catch_run)
    from rollback_committed[OF _ this, of T] e m Exn show ?thesis
      by (cases r) (auto simp: all_or_nothing_def)
  qed (use run m e in \<open>auto simp: try_catch_run committed_def all_or_nothing_def\<close>)
qed

lemma transaction_atomic:
  assumes "db_saved (c_db s) = None" and run: "sqn (on_db transactionBegin) m s = (r, t)"
    and m: "\<And>u. in_tx (tabs s) u \<Longrightarrow> m u = (r, t) \<Longrightarrow> all_or_nothing (tabs s) r t"
  shows "all_or_nothing (tabs s) r t"
  using assms(1)
proof (cases rule: begin_cases)
  case (failed e sc)
  with run assms(1) show ?thesis by (auto simp: sqn_run committed_def all_or_nothing_def)
next
  case (begun sc)
  with run have "m (s\<lparr>c_db := (c_db s)\<lparr>db_script := sc, db_saved := Some (tabs s)\<rparr>\<rparr>) = (r, t)"
    by (simp add: sqn_run)
  from m[OF _ this] show ?thesis by simp
qed

lemma ends_tx_replace_body: "ends_tx T (replace_body E n hash sb)"
  unfolding replace_body_def by (intro inv_intros)

lemma keeps_loadFileBlock [inv_intros]: "keeps (in_tx T) (loadFileBlock E b)"
  unfolding loadFileBlock_def by (intro inv_intros)

lemma replaceStorageBlock_all_or_nothing:
  fixes s :: "('a, 'b) cstate"
  assumes "db_saved (c_db s) = None" and run: "replaceStorageBlock E n hash s = (r, t)"
  shows "all_or_nothing (tabs s) r t"
proof (rule transaction_atomic[OF assms(1) run[unfolded replaceStorageBlock_def]])
  fix u :: "('a, 'b) cstate" assume u: "in_tx (tabs s) u"
  assume run: "bnd (deref_fblock E n) (\<lambda>fb. bnd (gets (lock_weak E (bi_sblock fb))) (\<lambda>sblock.
    try_catch (replace_body E n hash (map_option sb_num sblock))
      (\<lambda>e. sqn (on_db transactionRollback) (throw StdException)))) u = (r, t)"
  show "all_or_nothing (tabs s) r t"
  proof (cases "fblock_at E u n")
    case None
    with run u show ?thesis by (auto simp: run_simps deref_fblock_def all_or_nothing_def committed_def)
  next
    case (Some fb)
    with run show ?thesis
      by (auto simp: bnd_run gets_run deref_fblock_def intro!: catch_atomic[OF u ends_tx_replace_body])
  qed
qed

lemma ends_tx_release_body: "ends_tx T
     (bnd (gets (\<lambda>s. fblock_at E s n)) (\<lambda>gp.
      bnd (case gp of
          Some g \<Rightarrow>
            sqn (modify (erase_fblock E n))
           (ret ((new_block_info n)\<lparr>bi_empty := bi_empty g, bi_hash := bi_hash g, bi_snum := bi_snum g\<rparr>))
        | None \<Rightarrow> bnd (loadFileBlock E (new_block_info n)) (\<lambda>(b, dummy). ret b)) f))" if "\<And>b. ends_tx T (f b)"
  by (rule inv_intros that | simp add: case_prod_unfold)+

lemma releaseStorageBlock_all_or_nothing:
  assumes "db_saved (c_db s) = None" and run: "releaseStorageBlock E n s = (r, t)"
  shows "all_or_nothing (tabs s) r t"
proof -
  have "ends_tx T (bnd (gets ino) (\<lambda>fid. sqn (on_db (sql_update (stDeleteFileBlock fid n)))
     (case bi_hash b of None \<Rightarrow> halt NullDeref
      | Some hash \<Rightarrow> sqn (on_db (sql_update (stDecreaseUseCount hash)))
         (sqn (on_db transactionCommit) (ret (bi_snum b))))))" for b :: block_info and T
    by (rule ends_tx_commit | rule inv_intros)+
  note body = ends_tx_release_body[OF this]
  show ?thesis
    by (rule transaction_atomic[OF assms(1) run[unfolded releaseStorageBlock_def]]) (erule catch_atomic[OF _ body])
qed

subsection \<open>What loadFileBlock and releaseStorageBlock do\<close>

lemma stGetFileBlock_eq: "stGetFileBlock f n T = map_option (\<lambda>h. stSelectBlockHash h T) (file_block T f n)"
  by (simp add: stGetFileBlock_def stSelectBlockHash_def file_block_def option.map_comp o_def)

lemma counted_hash:
  assumes "counted T" and "file_block T f n = Some h"
  obtains r where "stSelectBlockHash h T = Some r"
proof -
  from file_block_Some_set[OF assms(2)] assms(1) have "h \<in> hr_hash ` set (t_hashes T)"
    by (auto simp: counted_def)
  then show thesis using that by (cases "stSelectBlockHash h T") (auto simp: select_None)
qed

definition load_result :: "tables \<Rightarrow> int \<Rightarrow> block_info \<Rightarrow> block_info \<times> int" where
  "load_result T f b =
    (case file_block T f (bi_num b) of
      None \<Rightarrow> (b\<lparr>bi_empty := True, bi_snum := 0\<rparr>, 0)
    | Some h \<Rightarrow> (case stSelectBlockHash h T of
        None \<Rightarrow> (b\<lparr>bi_empty := False, bi_snum := 0, bi_hash := Some []\<rparr>, 0)
      | Some r \<Rightarrow> (b\<lparr>bi_empty := False, bi_snum := hr_id r, bi_hash := Some h\<rparr>, hr_use r)))"

lemma loadFileBlock_ok:
  assumes "db_script (c_db s) = []"
    and "bi_num b * e_db_block_size E > fsize s \<Longrightarrow> file_block (tabs s) (ino s) (bi_num b) = None"
  shows "returns (loadFileBlock E b) s (\<lambda>x t. x = load_result (tabs s) (ino s) b \<and> t = s)"
  using assms by (auto simp: loadFileBlock_def wp_simps stGetFileBlock_eq load_result_def
      col_id_def col_use_def col_hash_def select_None stSelectBlockHash_def split: option.split dest: find_Some_set)

definition release_rows :: "int \<Rightarrow> int \<Rightarrow> byte list \<Rightarrow> tables \<Rightarrow> tables" where
  "release_rows f n h T = stDecreaseUseCount h (stDeleteFileBlock f n T)"

context dedup_env
begin

lemma releaseStorageBlock_ok:
  assumes sc: "db_script (c_db s) = []" and sv: "db_saved (c_db s) = None"
    and fb: "file_block (tabs s) (ino s) n = Some h" and r: "stSelectBlockHash h (tabs s) = Some r"
    and known: "case fblock_at E s n of
        Some b \<Rightarrow> bi_hash b = Some h \<and> bi_snum b = hr_id r
      | None \<Rightarrow> n * e_db_block_size E \<le> fsize s"
  shows "returns (releaseStorageBlock E n) s (\<lambda>k t. k = hr_id r
    \<and> tabs t = release_rows (ino s) n h (tabs s)
    \<and> db_script (c_db t) = [] \<and> db_saved (c_db t) = None
    \<and> fblock_at E t = (fblock_at E s)(n := None)
    \<and> cached E t = cached E s
    \<and> c_disk t = c_disk s \<and> c_next t = c_next s \<and> c_now t = c_now s \<and> fi_st (c_fi t) = fi_st (c_fi s))"
  using assms
  apply (simp add: releaseStorageBlock_def wp_simps)
  apply (rule returns_try_catchI)
  apply (cases "fblock_at E s n")
   apply (auto simp: wp_simps release_rows_def loadFileBlock_def stGetFileBlock_eq
      new_block_info_def col_hash_def col_id_def stSelectBlockHash_def fun_upd_idem dest: find_Some_set)
  done

end

lemma loadFileBlock_hole:
  assumes "db_script (c_db s) = []" and "file_block (tabs s) (ino s) (bi_num b) = None"
  shows "loadFileBlock E b s = (Ok (b\<lparr>bi_empty := True, bi_snum := 0\<rparr>, 0), s)"
  using assms by (simp add: loadFileBlock_def run_simps on_db_def sql_query_def stGetFileBlock_eq)

lemma releaseStorageBlock_hole:
  assumes "db_script (c_db s) = []" and "db_saved (c_db s) = None"
    and "file_block (tabs s) (ino s) n = None" and "fblock_at E s n = None"
  shows "fst (releaseStorageBlock E n s) = Halt NullDeref"
  using assms
  by (simp add: releaseStorageBlock_def run_simps on_db_def transactionBegin_def sql_update_def
      loadFileBlock_hole new_block_info_def)

lemma stSelect_release: "stSelectBlockHash h' (stDeleteFileBlock f n T) = stSelectBlockHash h' T"
  by (simp add: stSelectBlockHash_def stDeleteFileBlock_def)

lemma file_block_release_rows:
  "file_block (release_rows f n h T) g m = (if g = f \<and> m = n then None else file_block T g m)"
  using file_block_hashes(1)
  by (simp add: release_rows_def stDecreaseUseCount_def file_block_delete)

lemma hashes_release_rows:
  "t_hashes (release_rows f n h T) = map (\<lambda>r. if hr_hash r = h then r\<lparr>hr_use := hr_use r - 1\<rparr> else r) (t_hashes T)"
  by (simp add: release_rows_def stDecreaseUseCount_def stDeleteFileBlock_def)

lemma release_rows_wf:
  assumes wf: "wf_rows T" and cnt: "counted T" and fb: "file_block T f n = Some h"
  shows "wf_rows (release_rows f n h T) \<and> counted (release_rows f n h T)"
proof
  have b: "t_blocks (release_rows f n h T) = filter (\<lambda>b. \<not> (br_file b = f \<and> br_offset b = n)) (t_blocks T)"
    by (simp add: release_rows_def stDecreaseUseCount_def stDeleteFileBlock_def)
  have k: "map hr_id (t_hashes (release_rows f n h T)) = map hr_id (t_hashes T)"
      "map hr_hash (t_hashes (release_rows f n h T)) = map hr_hash (t_hashes T)"
    by (auto simp: hashes_release_rows)
  from k(1) have ids: "hr_id ` set (t_hashes (release_rows f n h T)) = hr_id ` set (t_hashes T)" by (metis set_map)
  from k(2) have hs: "hr_hash ` set (t_hashes (release_rows f n h T)) = hr_hash ` set (t_hashes T)" by (metis set_map)
  have "\<forall>i\<in>hr_id ` set (t_hashes (release_rows f n h T)). 0 < i"
    unfolding ids using wf by (auto simp: wf_rows_def)
  then show "wf_rows (release_rows f n h T)"
    using wf by (auto simp: wf_rows_def k b distinct_map inj_on_def)
  have "refs (release_rows f n h T) = refs (stDeleteFileBlock f n T)"
    by (simp add: release_rows_def stDecreaseUseCount_def)
  with refs_delete[OF wf, of f n] fb cnt
  have "\<forall>r\<in>set (t_hashes (release_rows f n h T)). hr_use r = int (refs (release_rows f n h T) (hr_hash r))"
    by (auto simp: counted_def hashes_release_rows)
  moreover have "\<forall>b\<in>set (t_blocks (release_rows f n h T)). br_hash b \<in> hr_hash ` set (t_hashes (release_rows f n h T))"
    unfolding hs b using cnt by (auto simp: counted_def)
  ultimately show "counted (release_rows f n h T)" by (simp add: counted_def)
qed

subsection \<open>Properties\<close>

text \<open>A small state for the witnesses: file 7 with block 0 stored in block 1.\<close>

definition demo_hash :: "byte list" where "demo_hash = replicate 16 1"

definition demo_sblock :: storage_block where
  "demo_sblock = \<lparr>sb_oid = 0, sb_num = 1, sb_use = 1, sb_hash = Some demo_hash, sb_data = [],
     sb_dirty = False, sb_loaded = True, sb_atime = 0\<rparr>"

definition demo_fblock :: block_info where
  "demo_fblock = \<lparr>bi_num = 0, bi_snum = 1, bi_hash = Some demo_hash, bi_locked = False,
     bi_loaded = True, bi_empty = False, bi_sblock = Some (1, 0)\<rparr>"

definition demo_tables :: tables where
  "demo_tables = \<lparr>t_files = [], t_blocks = [\<lparr>br_id = 1, br_file = 7, br_offset = 0, br_hash = demo_hash\<rparr>],
     t_hashes = [\<lparr>hr_id = 1, hr_hash = demo_hash, hr_use = 1\<rparr>]\<rparr>"

definition demo_stat :: stat where
  "demo_stat = \<lparr>st_ino = 7, st_size = 16, st_mode = 0, st_uid = 0, st_gid = 0, st_mtime = 0, st_ctime = 0\<rparr>"

definition demo_state :: "((int, block_info) RBT.rbt, (int, storage_block) RBT.rbt) cstate" where
  "demo_state = \<lparr>c_db = init_db demo_tables,
     c_fi = \<lparr>fi_refcount = 1, fi_name = ''/a'', fi_depth = 1, fi_st = demo_stat,
             fi_blocks = RBT.insert 0 demo_fblock RBT.empty\<rparr>,
     c_cache = RBT.insert 1 demo_sblock RBT.empty, c_disk = [], c_next = 1, c_now = 0\<rparr>"

lemmas demo_defs = demo_state_def demo_tables_def demo_stat_def init_db_def demo_fblock_def demo_sblock_def

lemma demo_fblock_at: "fblock_at (std_env 4) demo_state n = (if n = 0 then Some demo_fblock else None)"
  by (simp add: fblock_at_def demo_state_def rbt_cds_def)

lemma demo_cached: "cached (std_env 4) demo_state k = (if k = 1 then Some demo_sblock else None)"
  by (simp add: cached_def demo_state_def rbt_cds_def)

lemma demo_lock: "lock_weak (std_env 4) (bi_sblock demo_fblock) demo_state = Some demo_sblock"
  by (simp add: lock_weak_def demo_cached demo_fblock_def) (simp add: demo_sblock_def)

lemma demo_db: "db_script (c_db demo_state) = []" "db_saved (c_db demo_state) = None"
    "tabs demo_state = demo_tables" "ino demo_state = 7" "fsize demo_state = 16"
  by (simp_all add: demo_defs)

lemma demo_rows: "wf_rows demo_tables" "counted demo_tables" "file_block demo_tables 7 0 = Some demo_hash"
    "old_block demo_tables 7 0 (Some (1, 1))" "stSelectBlockHash demo_hash demo_tables = Some \<lparr>hr_id = 1, hr_hash = demo_hash, hr_use = 1\<rparr>"
  by (simp_all add: wf_rows_def counted_def refs_def file_block_def old_block_def stSelectBlockHash_def demo_tables_def)



text \<open>C7: Whatever statements fail while a block is given a new hash, the call either commits, or
  leaves the committed rows exactly as they were.\<close>

theorem replaceStorageBlock_atomic:
  assumes "db_saved (c_db s) = None" and "replaceStorageBlock E n hash s = (r, t)"
  shows "(\<exists>x. r = Ok x \<and> db_saved (c_db t) = None) \<or> committed (c_db t) = tabs s"
  using replaceStorageBlock_all_or_nothing[OF assms] by (cases r) (auto simp: all_or_nothing_def)

theorem replaceStorageBlock_atomic_witness:
  "\<exists>r t. replaceStorageBlock (std_env 4) 0 (replicate 16 2)
       (demo_state\<lparr>c_db := (init_db demo_tables)\<lparr>db_script := [None, None, None, None, Some sql_error]\<rparr>\<rparr>) = (r, t)
     \<and> ((\<exists>x. r = Ok x \<and> db_saved (c_db t) = None) \<or> committed (c_db t) = demo_tables)"
proof -
  let ?s = "demo_state\<lparr>c_db := (init_db demo_tables)\<lparr>db_script := [None, None, None, None, Some sql_error]\<rparr>\<rparr>"
  obtain r t where run: "replaceStorageBlock (std_env 4) 0 (replicate 16 2) ?s = (r, t)"
    by (cases "replaceStorageBlock (std_env 4) 0 (replicate 16 2) ?s")
  from replaceStorageBlock_atomic[OF _ this] run show ?thesis by (auto simp: init_db_def)
qed

text \<open>C14: Releasing a block that the file has ends normally with the number of its storage block;
  the block is gone from the rows and from the handle, all other blocks keep their hash,
  and every hash is still counted once per file block that has it.\<close>

theorem releaseStorageBlock_counts:
  assumes "dedup_env E" and "db_script (c_db s) = []" and "db_saved (c_db s) = None"
    and "file_block (tabs s) (ino s) n = Some h" and "stSelectBlockHash h (tabs s) = Some r"
    and "case fblock_at E s n of Some b \<Rightarrow> bi_hash b = Some h \<and> bi_snum b = hr_id r
      | None \<Rightarrow> n * e_db_block_size E \<le> fsize s"
    and "wf_rows (tabs s)" and "counted (tabs s)"
  shows "returns (releaseStorageBlock E n) s (\<lambda>k t. k = hr_id r
    \<and> wf_rows (tabs t) \<and> counted (tabs t) \<and> db_saved (c_db t) = None \<and> fblock_at E t n = None
    \<and> (\<forall>g m. file_block (tabs t) g m = (if g = ino s \<and> m = n then None else file_block (tabs s) g m)))"
  by (rule returns_weaken[OF dedup_env.releaseStorageBlock_ok[OF assms(1-6)]])
    (use release_rows_wf[OF assms(7,8,4)] in \<open>auto simp: file_block_release_rows\<close>)

theorem releaseStorageBlock_counts_witness:
  "returns (releaseStorageBlock (std_env 4) 0) demo_state (\<lambda>k t. k = 1
    \<and> counted (tabs t) \<and> file_block (tabs t) 7 0 = None)"
  by (rule returns_weaken[OF releaseStorageBlock_counts])
    (use demo_rows in \<open>auto simp: dedup_env_std demo_fblock_at demo_db demo_fblock_def\<close>)

text \<open>C38: Releasing a block of a file that has never been written (a hole) dereferences a null
  pointer: the hash of such a block is an empty \<open>shared_ptr\<close>.\<close>

theorem releaseStorageBlock_hole_crash:
  assumes "db_script (c_db s) = []" and "db_saved (c_db s) = None"
    and "file_block (tabs s) (ino s) n = None" and "fblock_at E s n = None"
  shows "fst (releaseStorageBlock E n s) = Halt NullDeref"
  by (rule releaseStorageBlock_hole[OF assms])

theorem releaseStorageBlock_hole_crash_witness:
  "fst (releaseStorageBlock (std_env 4) 1 demo_state) = Halt NullDeref"
  by (rule releaseStorageBlock_hole_crash) (simp_all add: demo_db demo_fblock_at file_block_def demo_tables_def)

lemma replace_rows_same_hash:
  assumes wf: "wf_rows T" and cnt: "counted T" and old: "old_block T f n (Some (k, c))"
    and same: "file_block T f n = Some hash" and r: "r \<in> set (t_hashes (replace_rows E f n hash (Some (k, c)) T))" "hr_hash r = hash"
  shows "stSelectBlockHash hash T \<noteq> None \<and> hr_use r = int (refs (replace_rows E f n hash (Some (k, c)) T) hash) - 1"
proof -
  obtain r0 where r0: "r0 \<in> set (t_hashes T)" "hr_id r0 = k" "hr_use r0 = c" "hr_hash r0 = hash"
    using old same by (auto simp: old_block_def)
  then have p: "stSelectBlockHash hash T \<noteq> None" by (auto simp: select_None)
  have "refs (replace_rows E f n hash (Some (k, c)) T) hash = refs T hash"
    using refs_delete(2)[OF wf same] by (simp add: refs_replace_rows[OF wf] same)
  moreover have "hr_use r = c - 1"
    using r p r0 row_eq_hash[OF wf _ r0(1)] row_eq_id[OF wf _ r0(1)]
    by (auto simp: hashes_replace_rows split: if_splits)
  ultimately show ?thesis using p r0 cnt by (auto simp: counted_def)
qed

text \<open>C37: Giving a block the hash it already has, while its storage block is cached with the count of
  the rows, leaves the row of that hash one use below the number of file blocks that have it.\<close>

theorem replaceStorageBlock_same_hash:
  assumes "dedup_env E" and "fblock_at E s n = Some b"
    and "db_script (c_db s) = []" and "db_saved (c_db s) = None"
    and "lock_weak E (bi_sblock b) s = Some sb" and "cached E s (sb_num sb) = Some sb"
    and "wf_rows (tabs s)" and "counted (tabs s)"
    and "old_block (tabs s) (ino s) n (Some (sb_num sb, sb_use sb))"
    and "file_block (tabs s) (ino s) n = Some hash"
  shows "returns (replaceStorageBlock E n hash) s (\<lambda>present t. present
    \<and> (\<forall>r\<in>set (t_hashes (tabs t)). hr_hash r = hash \<longrightarrow> hr_use r = int (refs (tabs t) hash) - 1))"
  using replace_rows_same_hash[OF assms(7-10), of _ E] assms(9,10)
  by (intro returns_weaken[OF dedup_env.replaceStorageBlock_ok[OF assms(1-5)]])
    (auto simp: assms(6) select_None old_block_def)

theorem replaceStorageBlock_same_hash_witness:
  "returns (replaceStorageBlock (std_env 4) 0 demo_hash) demo_state (\<lambda>present t. present
    \<and> (\<forall>r\<in>set (t_hashes (tabs t)). hr_hash r = demo_hash \<longrightarrow> hr_use r = int (refs (tabs t) demo_hash) - 1))"
  by (rule replaceStorageBlock_same_hash[where b = demo_fblock and sb = demo_sblock])
    (use demo_rows in \<open>simp_all add: dedup_env_std demo_fblock_at demo_cached demo_lock demo_db, simp_all add: demo_sblock_def\<close>)

end
