(* ===== verification/Db_Statements.thy ===== *)
theory Db_Statements
  imports Db_Blocks Sql_Stmt
begin

text \<open>
  The prepared statements of \<open>database.cpp\<close> on the class \<open>PreparedStmt\<close>: the texts of
  \<open>prepareStatements\<close>, the calls that bind their parameters, and what running them does to the
  rows.  \<open>Sql_Store\<close> has each statement as one operation; here this operation is what binding
  and \<open>executeUpdate\<close> or \<open>next\<close> amount to.

  What SQLite does with one statement is the locale \<open>sqlite_statement\<close>: binding has an effect
  only on a statement that was reset after its last step, a step runs the statement with what
  is bound, a step behind the end of a run resets first.  The engine \<open>stmt_api\<close> has these laws.

  The lemmas show that a statement that is ready does what \<open>Sql_Store\<close> says, and that a
  statement that failed, which \<open>executeUpdate\<close> does not reset, runs with its old parameters.
\<close>

subsection \<open>Parameters and statements\<close>

datatype 'd param = PNull | PInt int | PReal 'd | PText string | PBlob "byte list"

definition as_int :: "'d param \<Rightarrow> int" where
  "as_int p = (case p of PInt v \<Rightarrow> v | _ \<Rightarrow> 0)"

definition as_text :: "'d param \<Rightarrow> string" where
  "as_text p = (case p of PText t \<Rightarrow> t | _ \<Rightarrow> [])"

definition as_blob :: "'d param \<Rightarrow> byte list" where
  "as_blob p = (case p of PBlob b \<Rightarrow> b | _ \<Rightarrow> [])"

datatype db_stmt =
    StGetByPath | StGetFileBlock | StDeleteFileBlock | StDecreaseUseCount | StSelectBlockHash
  | StIncreaseUseCount | StSetUseCount | StUpdateBlockHash | StInsertBlockHash | StReplaceFileBlock
  | StUpdateFileSize

primrec stmt_text :: "db_stmt \<Rightarrow> string" where
  "stmt_text StGetByPath = ''SELECT _ID, depth, size, mode, uid, gid, mtime, ctime, path FROM files WHERE path = ?''"
| "stmt_text StGetFileBlock = ''SELECT h._ID, h.hash, h.use_count                                   FROM file_blocks b LEFT JOIN block_hashes h ON b.hash = h.hash                                   WHERE b.file_id = ? AND b.offset = ?''"
| "stmt_text StDeleteFileBlock = ''DELETE FROM file_blocks WHERE file_id = ? AND offset = ?''"
| "stmt_text StDecreaseUseCount = ''UPDATE block_hashes SET use_count = use_count - 1 WHERE hash = ?''"
| "stmt_text StSelectBlockHash = ''SELECT _ID, use_count FROM block_hashes WHERE hash = ?''"
| "stmt_text StIncreaseUseCount = ''UPDATE block_hashes SET use_count = use_count + 1 WHERE hash = ?''"
| "stmt_text StSetUseCount = ''UPDATE block_hashes SET use_count = ? WHERE _ID = ?''"
| "stmt_text StUpdateBlockHash = ''UPDATE block_hashes SET hash = ? WHERE _ID = ?''"
| "stmt_text StInsertBlockHash = ''INSERT INTO block_hashes (hash, use_count) VALUES(?, 1)''"
| "stmt_text StReplaceFileBlock = ''REPLACE INTO file_blocks (file_id, offset, hash) VALUES(?, ?, ?)''"
| "stmt_text StUpdateFileSize = ''UPDATE files SET size = ? WHERE _ID = ?''"

text \<open>The rows a statement gives, from the parameters that are bound.\<close>

definition file_columns :: "file_row \<Rightarrow> 'd param list" where
  "file_columns r = [PInt (fr_id r), PInt (fr_depth r), PInt (fr_size r), PInt (uint (fr_mode r)), PInt (fr_uid r),
     PInt (fr_gid r), PInt (fr_mtime r), PInt (fr_ctime r), PText (fr_path r)]"

definition block_columns :: "hash_row option \<Rightarrow> 'd param list" where
  "block_columns h = (case h of
      None \<Rightarrow> [PNull, PNull, PNull]
    | Some h \<Rightarrow> [PInt (hr_id h), PBlob (hr_hash h), PInt (hr_use h)])"

definition rows_of :: "('a \<Rightarrow> 'b) \<Rightarrow> 'a option \<Rightarrow> 'b list" where
  "rows_of f r = (case r of None \<Rightarrow> [] | Some x \<Rightarrow> [f x])"

definition no_rows :: "(sqldb, unit) comp \<Rightarrow> (sqldb, 'd param list list) comp" where
  "no_rows m = sqn m (ret [])"

primrec meaning :: "('fm, 'sm) env \<Rightarrow> db_stmt \<Rightarrow> (int \<Rightarrow> 'd param) \<Rightarrow> (sqldb, 'd param list list) comp" where
  "meaning E StGetByPath p = sql_query (\<lambda>T. rows_of file_columns (stGetByPath (as_text (p 1)) T))"
| "meaning E StGetFileBlock p = sql_query (\<lambda>T. rows_of block_columns (stGetFileBlock (as_int (p 1)) (as_int (p 2)) T))"
| "meaning E StDeleteFileBlock p = no_rows (sql_update (stDeleteFileBlock (as_int (p 1)) (as_int (p 2))))"
| "meaning E StDecreaseUseCount p = no_rows (sql_update (stDecreaseUseCount (as_blob (p 1))))"
| "meaning E StSelectBlockHash p =
    sql_query (\<lambda>T. rows_of (\<lambda>h. [PInt (hr_id h), PInt (hr_use h)]) (stSelectBlockHash (as_blob (p 1)) T))"
| "meaning E StIncreaseUseCount p = no_rows (sql_update (stIncreaseUseCount (as_blob (p 1))))"
| "meaning E StSetUseCount p = no_rows (sql_update (stSetUseCount (as_int (p 1)) (as_int (p 2))))"
| "meaning E StUpdateBlockHash p = no_rows (sql_update (stUpdateBlockHash (as_blob (p 1)) (as_int (p 2))))"
| "meaning E StInsertBlockHash p =
    no_rows (sql_insert (\<lambda>T. e_newid E (map hr_id (t_hashes T))) (\<lambda>rid. stInsertBlockHash rid (as_blob (p 1))))"
| "meaning E StReplaceFileBlock p =
    no_rows (sql_insert (\<lambda>T. e_newid E (map br_id (t_blocks T)))
      (\<lambda>rid. stReplaceFileBlock rid (as_int (p 1)) (as_int (p 2)) (as_blob (p 3))))"
| "meaning E StUpdateFileSize p = no_rows (sql_update (stUpdateFileSize (as_int (p 1)) (as_int (p 2))))"

subsection \<open>The calls of the member functions\<close>

datatype db_call =
    DeleteFileBlock int int
  | DecreaseUseCount "byte list"
  | IncreaseUseCount "byte list"
  | SetUseCount int int
  | UpdateBlockHash "byte list" int
  | InsertBlockHash "byte list"
  | ReplaceFileBlock int int "byte list"
  | UpdateFileSize int int

primrec call_stmt :: "db_call \<Rightarrow> db_stmt" where
  "call_stmt (DeleteFileBlock f n) = StDeleteFileBlock"
| "call_stmt (DecreaseUseCount h) = StDecreaseUseCount"
| "call_stmt (IncreaseUseCount h) = StIncreaseUseCount"
| "call_stmt (SetUseCount c k) = StSetUseCount"
| "call_stmt (UpdateBlockHash h k) = StUpdateBlockHash"
| "call_stmt (InsertBlockHash h) = StInsertBlockHash"
| "call_stmt (ReplaceFileBlock f n h) = StReplaceFileBlock"
| "call_stmt (UpdateFileSize s f) = StUpdateFileSize"

primrec call_binds :: "('e, 'd) api \<Rightarrow> db_call \<Rightarrow> ('e \<times> stmt, unit) comp" where
  "call_binds A (DeleteFileBlock f n) = sqn (bindInt64 A 1 f) (bindInt64 A 2 n)"
| "call_binds A (DecreaseUseCount h) = bindBlob A 1 h"
| "call_binds A (IncreaseUseCount h) = bindBlob A 1 h"
| "call_binds A (SetUseCount c k) = sqn (bindInt A 1 c) (bindInt64 A 2 k)"
| "call_binds A (UpdateBlockHash h k) = sqn (bindBlob A 1 h) (bindInt64 A 2 k)"
| "call_binds A (InsertBlockHash h) = bindBlob A 1 h"
| "call_binds A (ReplaceFileBlock f n h) = sqn (bindInt64 A 1 f) (sqn (bindInt64 A 2 n) (bindBlob A 3 h))"
| "call_binds A (UpdateFileSize s f) = sqn (bindInt64 A 1 s) (bindInt64 A 2 f)"

text \<open>The operation of \<open>Sql_Store\<close> that \<open>database.cpp\<close> is modelled with.\<close>

primrec call_op :: "('fm, 'sm) env \<Rightarrow> db_call \<Rightarrow> (sqldb, unit) comp" where
  "call_op E (DeleteFileBlock f n) = sql_update (stDeleteFileBlock f n)"
| "call_op E (DecreaseUseCount h) = sql_update (stDecreaseUseCount h)"
| "call_op E (IncreaseUseCount h) = sql_update (stIncreaseUseCount h)"
| "call_op E (SetUseCount c k) = sql_update (stSetUseCount c k)"
| "call_op E (UpdateBlockHash h k) = sql_update (stUpdateBlockHash h k)"
| "call_op E (InsertBlockHash h) = sql_insert (\<lambda>T. e_newid E (map hr_id (t_hashes T))) (\<lambda>rid. stInsertBlockHash rid h)"
| "call_op E (ReplaceFileBlock f n h) = sql_insert (\<lambda>T. e_newid E (map br_id (t_blocks T))) (\<lambda>rid. stReplaceFileBlock rid f n h)"
| "call_op E (UpdateFileSize s f) = sql_update (stUpdateFileSize s f)"

text \<open>The numbers fit the parameters they are bound to.\<close>

primrec call_fits :: "db_call \<Rightarrow> bool" where
  "call_fits (DeleteFileBlock f n) \<longleftrightarrow> int64 f = f \<and> int64 n = n"
| "call_fits (DecreaseUseCount h) \<longleftrightarrow> True"
| "call_fits (IncreaseUseCount h) \<longleftrightarrow> True"
| "call_fits (SetUseCount c k) \<longleftrightarrow> int32 c = c \<and> int64 k = k"
| "call_fits (UpdateBlockHash h k) \<longleftrightarrow> int64 k = k"
| "call_fits (InsertBlockHash h) \<longleftrightarrow> True"
| "call_fits (ReplaceFileBlock f n h) \<longleftrightarrow> int64 f = f \<and> int64 n = n"
| "call_fits (UpdateFileSize s f) \<longleftrightarrow> int64 s = s \<and> int64 f = f"

primrec call_bound :: "db_call \<Rightarrow> (int \<Rightarrow> 'd param) \<Rightarrow> int \<Rightarrow> 'd param" where
  "call_bound (DeleteFileBlock f n) p = p(1 := PInt (int64 f), 2 := PInt (int64 n))"
| "call_bound (DecreaseUseCount h) p = p(1 := PBlob h)"
| "call_bound (IncreaseUseCount h) p = p(1 := PBlob h)"
| "call_bound (SetUseCount c k) p = p(1 := PInt (int32 c), 2 := PInt (int64 k))"
| "call_bound (UpdateBlockHash h k) p = p(1 := PBlob h, 2 := PInt (int64 k))"
| "call_bound (InsertBlockHash h) p = p(1 := PBlob h)"
| "call_bound (ReplaceFileBlock f n h) p = p(1 := PInt (int64 f), 2 := PInt (int64 n), 3 := PBlob h)"
| "call_bound (UpdateFileSize s f) p = p(1 := PInt (int64 s), 2 := PInt (int64 f))"

lemma meaning_call: "call_fits c \<Longrightarrow> meaning E (call_stmt c) (call_bound c p) = no_rows (call_op E c)"
  by (cases c) (simp_all add: as_int_def as_blob_def)

subsection \<open>The laws of a statement\<close>

text \<open>\<open>conn\<close> is the connection, \<open>bound\<close> the parameters, \<open>ready\<close> that there was no step since the last reset,
  \<open>halted\<close> that the last step has ended the run, \<open>row\<close> the row the last step gave.\<close>

locale sqlite_statement =
  fixes A :: "('e, 'd) api"
    and conn :: "'e \<Rightarrow> sqldb"
    and bound :: "'e \<Rightarrow> int \<Rightarrow> 'd param"
    and ready :: "'e \<Rightarrow> bool"
    and halted :: "'e \<Rightarrow> bool"
    and row :: "'e \<Rightarrow> 'd param list"
    and runs :: "(int \<Rightarrow> 'd param) \<Rightarrow> (sqldb, 'd param list list) comp"
  assumes bind_int: "conn (api_bind_int A i v e) = conn e" "ready (api_bind_int A i v e) = ready e"
      "halted (api_bind_int A i v e) = halted e"
      "bound (api_bind_int A i v e) = (if ready e then (bound e)(i := PInt v) else bound e)"
    and bind_text: "conn (api_bind_text A i t e) = conn e" "ready (api_bind_text A i t e) = ready e"
      "halted (api_bind_text A i t e) = halted e"
      "bound (api_bind_text A i t e) = (if ready e then (bound e)(i := PText t) else bound e)"
    and bind_blob: "conn (api_bind_blob A i b e) = conn e" "ready (api_bind_blob A i b e) = ready e"
      "halted (api_bind_blob A i b e) = halted e"
      "bound (api_bind_blob A i b e) = (if ready e then (bound e)(i := PBlob b) else bound e)"
    and reset: "conn (api_reset A e) = conn e" "bound (api_reset A e) = bound e" "ready (api_reset A e)"
    and step_ready: "ready e \<Longrightarrow> runs (bound e) (conn e) = (r, d) \<Longrightarrow> api_step A e = (code, e') \<Longrightarrow>
      conn e' = d \<and> bound e' = bound e \<and> \<not> ready e' \<and>
      (case r of Ok [] \<Rightarrow> code = SQLITE_DONE \<and> halted e'
        | Ok (x # xs) \<Rightarrow> code = SQLITE_ROW \<and> row e' = x
        | Exn x \<Rightarrow> code = (if x = DatabaseLockedException then SQLITE_BUSY else SQLITE_ERROR) \<and> halted e'
        | Halt h \<Rightarrow> True)"
    and step_halted: "halted e \<Longrightarrow> \<not> ready e \<Longrightarrow> api_step A e = api_step A (api_reset A e)"
    and columns: "api_column_count A e = int (length (row e))"
      "j < length (row e) \<Longrightarrow> api_column_int A (int j) e = as_int (row e ! j)"
      "j < length (row e) \<Longrightarrow> api_column_blob A (int j) e = as_blob (row e ! j)"
begin

lemmas binds = bind_int bind_text bind_blob

text \<open>Binding the parameters of a call.\<close>

lemma call_binds_ready:
  assumes "ready e"
  obtains e' where "call_binds A c (e, st) = (Ok (), (e', st))" and "conn e' = conn e" and "ready e'"
    and "bound e' = call_bound c (bound e)"
  using assms
  by (cases c)
    (auto simp: run_simps bindInt64_def bindInt_def bindBlob_def on_engine_def binds)

lemma call_binds_stale:
  assumes "\<not> ready e"
  obtains e' where "call_binds A c (e, st) = (Ok (), (e', st))" and "conn e' = conn e" and "\<not> ready e'"
    and "bound e' = bound e" and "halted e' = halted e"
  using assms
  by (cases c)
    (auto simp: run_simps bindInt64_def bindInt_def bindBlob_def on_engine_def binds)

text \<open>One step of \<open>executeUpdate\<close>, from the parameters that are bound.\<close>

lemma executeUpdate_once: "executeUpdate A False (e, st) = Some (case api_step A e of (res, e) \<Rightarrow> after_step A res (e, st))"
  by (simp add: executeUpdate_def step_loop_once split: prod.split)

lemma executeUpdate_ready:
  assumes "ready e" and "runs (bound e) (conn e) = (Ok [], d)"
  obtains e' st' where "executeUpdate A False (e, st) = Some (Ok (), (e', st'))" and "conn e' = d" and "ready e'"
    and "bound e' = bound e"
proof -
  obtain code e1 where s: "api_step A e = (code, e1)" by fastforce
  from step_ready[OF assms s] have "code = SQLITE_DONE" "conn e1 = d" "bound e1 = bound e" by auto
  with that[of "api_reset A e1" "st\<lparr>st_columnCount := -1\<rparr>"] show thesis
    by (simp add: executeUpdate_once s after_step_def stmt_reset_def run_simps reset)
qed

lemma executeUpdate_fails:
  assumes "ready e" and "runs (bound e) (conn e) = (Exn x, d)"
  obtains y e' st' where "executeUpdate A False (e, st) = Some (Exn y, (e', st'))" and "conn e' = d" and "\<not> ready e'"
    and "halted e'" and "bound e' = bound e" and "y = DatabaseLockedException \<longleftrightarrow> x = DatabaseLockedException"
proof -
  obtain code e1 where s: "api_step A e = (code, e1)" by fastforce
  from step_ready[OF assms s] have e1: "conn e1 = d" "bound e1 = bound e" "\<not> ready e1" "halted e1"
    and code: "code = (if x = DatabaseLockedException then SQLITE_BUSY else SQLITE_ERROR)" by auto
  show thesis
  proof (cases "x = DatabaseLockedException")
    case True
    with that[of DatabaseLockedException e1 st] e1 code show ?thesis
      by (simp add: executeUpdate_once s after_step_def run_simps is_locked_def sqlite_codes)
  next
    case False
    with that[of "SqlException (''Error executing prepared statement: '' @ api_errmsg A e1)" e1 st] e1 code show ?thesis
      by (simp add: executeUpdate_once s after_step_def run_simps is_locked_def sqlite_codes throw_error_def stmt_getError_def)
  qed
qed

lemma executeUpdate_halted:
  assumes "\<not> ready e" and "halted e"
  shows "executeUpdate A False (e, st) = executeUpdate A False (api_reset A e, st)"
  using step_halted[OF assms(2,1)] by (simp add: executeUpdate_once)

text \<open>\<open>next\<close> for a statement that gives at most one row.\<close>

lemma next_row:
  assumes "ready e" and "runs (bound e) (conn e) = (Ok (x # xs), d)"
  obtains e' where "stmt_next A (e, st) = (Ok True, (e', st\<lparr>st_columnCount := int (length x)\<rparr>))" and "conn e' = d" and "row e' = x"
    and "bound e' = bound e"
proof -
  obtain code e1 where s: "api_step A e = (code, e1)" by fastforce
  from step_ready[OF assms s] that[of e1] s show thesis
    by (simp add: stmt_next_def step_def run_simps columns(1))
qed

lemma next_none:
  assumes "ready e" and "runs (bound e) (conn e) = (Ok [], d)"
  obtains e' where "stmt_next A (e, st) = (Ok False, (e', st\<lparr>st_columnCount := 0\<rparr>))" and "conn e' = d" and "bound e' = bound e"
proof -
  obtain code e1 where s: "api_step A e = (code, e1)" by fastforce
  from step_ready[OF assms s] that[of e1] s show thesis
    by (simp add: stmt_next_def step_def run_simps sqlite_codes)
qed

lemma next_fails:
  assumes "ready e" and "runs (bound e) (conn e) = (Exn x, d)"
  obtains y e' where "stmt_next A (e, st) = (Exn y, (e', st))" and "conn e' = d" and "\<not> ready e'" and "bound e' = bound e"
proof -
  obtain code e1 where s: "api_step A e = (code, e1)" by fastforce
  from step_ready[OF assms s] that[of _ e1] s show thesis
    by (auto simp: stmt_next_def step_def run_simps sqlite_codes throw_error_def split: if_splits)
qed

end

subsection \<open>A statement on a connection\<close>

text \<open>One prepared statement of a connection of \<open>Sql_Store\<close>; no column is a double, so \<open>'d\<close> is \<open>unit\<close>.\<close>

datatype phase = Ready | Running | Halted

record cstmt =
  cs_conn :: sqldb
  cs_bound :: "int \<Rightarrow> unit param"
  cs_phase :: phase
  cs_todo :: "unit param list list"
  cs_row :: "unit param list"

definition deliver :: "unit param list list \<Rightarrow> cstmt \<Rightarrow> int \<times> cstmt" where
  "deliver rows e = (case rows of
      [] \<Rightarrow> (SQLITE_DONE, e\<lparr>cs_phase := Halted\<rparr>)
    | x # xs \<Rightarrow> (SQLITE_ROW, e\<lparr>cs_phase := Running, cs_todo := xs, cs_row := x\<rparr>))"

definition run_stmt :: "('fm, 'sm) env \<Rightarrow> db_stmt \<Rightarrow> cstmt \<Rightarrow> int \<times> cstmt" where
  "run_stmt E s e = (case meaning E s (cs_bound e) (cs_conn e) of
      (Ok rows, d) \<Rightarrow> deliver rows (e\<lparr>cs_conn := d\<rparr>)
    | (Exn x, d) \<Rightarrow> (if x = DatabaseLockedException then SQLITE_BUSY else SQLITE_ERROR, e\<lparr>cs_conn := d, cs_phase := Halted\<rparr>)
    | (Halt h, d) \<Rightarrow> (SQLITE_ERROR, e\<lparr>cs_conn := d, cs_phase := Halted\<rparr>))"

definition stmt_step :: "('fm, 'sm) env \<Rightarrow> db_stmt \<Rightarrow> cstmt \<Rightarrow> int \<times> cstmt" where
  "stmt_step E s e = (case cs_phase e of
      Ready \<Rightarrow> run_stmt E s e
    | Running \<Rightarrow> deliver (cs_todo e) e
    | Halted \<Rightarrow> run_stmt E s (e\<lparr>cs_phase := Ready\<rparr>))"

definition bind_param :: "int \<Rightarrow> unit param \<Rightarrow> cstmt \<Rightarrow> cstmt" where
  "bind_param i p e = (if cs_phase e = Ready then e\<lparr>cs_bound := (cs_bound e)(i := p)\<rparr> else e)"

definition row_column :: "(unit param \<Rightarrow> 'a) \<Rightarrow> int \<Rightarrow> cstmt \<Rightarrow> 'a" where
  "row_column f i e = (if 0 \<le> i \<and> nat i < length (cs_row e) then f (cs_row e ! nat i) else f PNull)"

definition stmt_api :: "('fm, 'sm) env \<Rightarrow> db_stmt \<Rightarrow> (cstmt, unit) api" where
  "stmt_api E s = \<lparr>
     api_prepare = (\<lambda>sql e. if sql = stmt_text s then (SQLITE_OK, e\<lparr>cs_bound := (\<lambda>_. PNull), cs_phase := Ready\<rparr>) else (SQLITE_ERROR, e)),
     api_step = stmt_step E s,
     api_reset = (\<lambda>e. e\<lparr>cs_phase := Ready\<rparr>), api_finalize = id, api_errmsg = (\<lambda>_. ''error''),
     api_column_count = (\<lambda>e. int (length (cs_row e))),
     api_column_type = row_column (\<lambda>p. case p of PInt _ \<Rightarrow> 1 | PReal _ \<Rightarrow> 2 | PText _ \<Rightarrow> 3 | PBlob _ \<Rightarrow> 4 | PNull \<Rightarrow> SQLITE_NULL),
     api_column_int = row_column as_int, api_column_double = (\<lambda>_ _. ()),
     api_column_text = row_column (\<lambda>p. case p of PText t \<Rightarrow> Some t | _ \<Rightarrow> None), api_column_blob = row_column as_blob,
     api_bind_int = (\<lambda>i v. bind_param i (PInt v)), api_bind_double = (\<lambda>i v. bind_param i (PReal v)),
     api_bind_text = (\<lambda>i t. bind_param i (PText t)), api_bind_blob = (\<lambda>i b. bind_param i (PBlob b)),
     api_bind_null = (\<lambda>i. bind_param i PNull)\<rparr>"

interpretation st: sqlite_statement "stmt_api E s" cs_conn cs_bound "\<lambda>e. cs_phase e = Ready" "\<lambda>e. cs_phase e = Halted" cs_row "meaning E s"
  for E s
proof (unfold_locales, goal_cases)
  case (16 e r d code e')
  then show ?case
    by (auto simp: stmt_api_def stmt_step_def run_stmt_def deliver_def split: outcome.splits list.splits)
qed (auto simp: stmt_api_def bind_param_def row_column_def stmt_step_def)

lemma stmt_api_sel [simp]:
  "api_reset (stmt_api E s) = (\<lambda>e. e\<lparr>cs_phase := Ready\<rparr>)"
  "api_column_int (stmt_api E s) = row_column as_int"
  "api_column_blob (stmt_api E s) = row_column as_blob"
  "api_bind_int (stmt_api E s) i v = bind_param i (PInt v)"
  "api_bind_text (stmt_api E s) i t = bind_param i (PText t)"
  "api_bind_blob (stmt_api E s) i b = bind_param i (PBlob b)"
  by (simp_all add: stmt_api_def)

lemma prepared:
  "PreparedStmt (stmt_api E s) (stmt_text s) e = Some (Ok \<lparr>st_columnCount = -2\<rparr>, e\<lparr>cs_bound := (\<lambda>_. PNull), cs_phase := Ready\<rparr>)"
proof -
  have "c_str (stmt_text s) = stmt_text s" by (cases s) (simp_all add: c_str_def)
  then show ?thesis
    by (simp add: PreparedStmt_def prepare_loop.simps stmt_api_def is_locked_def sqlite_codes)
qed

subsection \<open>Queries\<close>

text \<open>The rows \<open>loadFileBlock\<close>, \<open>replaceStorageBlock\<close> and \<open>getByPath\<close> read, with the calls they make.\<close>

definition query_block :: "('e, 'd) api \<Rightarrow> int \<Rightarrow> int \<Rightarrow> ('e \<times> stmt, (int \<times> byte list \<times> int) option) comp" where
  "query_block A f n =
    sqn (bindInt64 A 1 f)
   (sqn (bindInt64 A 2 n)
   (bnd (stmt_next A) (\<lambda>found.
    bnd (if found then
           bnd (stmt_getInt64 A 0) (\<lambda>k.
           bnd (stmt_getBlob A 1) (\<lambda>h.
           bnd (stmt_getInt A 2) (\<lambda>u.
           ret (Some (k, h, u)))))
         else ret None) (\<lambda>res.
    sqn (stmt_reset A) (ret res)))))"

definition query_hash :: "('e, 'd) api \<Rightarrow> byte list \<Rightarrow> ('e \<times> stmt, int option) comp" where
  "query_hash A h =
    sqn (bindBlob A 1 h)
   (bnd (stmt_next A) (\<lambda>found.
    if found then bnd (stmt_getInt64 A 0) (\<lambda>k. ret (Some k)) else ret None))"

definition query_file :: "('e, 'd) api \<Rightarrow> string \<Rightarrow> ('e \<times> stmt, (int \<times> stat) option) comp" where
  "query_file A filename =
    sqn (bindString A 1 filename)
   (bnd (stmt_next A) (\<lambda>found.
    bnd (if found then
           bnd (stmt_getInt64 A 0) (\<lambda>rid.
           bnd (stmt_getInt A 1) (\<lambda>depth.
           bnd (stmt_getInt64 A 2) (\<lambda>sz.
           bnd (stmt_getInt A 3) (\<lambda>mode.
           bnd (stmt_getInt A 4) (\<lambda>uid.
           bnd (stmt_getInt A 5) (\<lambda>gid.
           bnd (stmt_getInt A 6) (\<lambda>mtime.
           bnd (stmt_getInt A 7) (\<lambda>ctime.
           ret (Some (depth, \<lparr>st_ino = rid, st_size = sz, st_mode = word_of_int mode, st_uid = uid,
             st_gid = gid, st_mtime = mtime, st_ctime = ctime\<rparr>))))))))))
         else ret None) (\<lambda>res.
    sqn (stmt_reset A) (ret res))))"

definition block_fits :: "hash_row \<Rightarrow> bool" where
  "block_fits h \<longleftrightarrow> int32 (hr_use h) = hr_use h"

definition file_fits :: "file_row \<Rightarrow> bool" where
  "file_fits r \<longleftrightarrow> int32 (fr_depth r) = fr_depth r \<and> int32 (fr_uid r) = fr_uid r \<and> int32 (fr_gid r) = fr_gid r
     \<and> int32 (fr_mtime r) = fr_mtime r \<and> int32 (fr_ctime r) = fr_ctime r"

lemma sql_query_map:
  "sql_query g c = (Ok x, d) \<Longrightarrow> sql_query (\<lambda>T. f (g T)) c = (Ok (f x), d)"
  "sql_query g c = (Exn y, d) \<Longrightarrow> sql_query (\<lambda>T. f (g T)) c = (Exn y, d)"
  by (auto simp: sql_query_def exec_def Let_def split: list.splits option.splits)

lemma sql_query_outcome:
  obtains (rows) "fst (sql_query g c) = Ok (g (db_tabs c))" | (fails) x where "fst (sql_query g c) = Exn x"
  by (cases "db_script c"; cases "hd (db_script c)") (auto simp: sql_query_def exec_def Let_def)

lemma word_of_int32: "word_of_int (int32 (uint w)) = (w :: 32 word)"
  by (simp add: int32_def)

text \<open>What a query gives for the outcome of the operation of \<open>Sql_Store\<close>: the columns of the row, and the
  statement is ready again exactly if there was no failure.\<close>

definition query_answer :: "('a \<Rightarrow> 'b) \<Rightarrow> 'a option outcome \<Rightarrow> 'b option outcome \<Rightarrow> bool" where
  "query_answer f r r' = (case r of
      Ok x \<Rightarrow> r' = Ok (map_option f x)
    | Exn x \<Rightarrow> (\<exists>y. r' = Exn y)
    | Halt h \<Rightarrow> False)"

text \<open>\<open>next\<close> on a statement that looks up one row.\<close>

lemma next_lookup:
  assumes "cs_phase e = Ready" and "meaning E s (cs_bound e) = sql_query (\<lambda>T. rows_of cols (g T))"
    and "sql_query g (cs_conn e) = (r, d)"
  obtains (fails) x y e' where "r = Exn x" and "stmt_next (stmt_api E s) (e, st) = (Exn y, (e', st))"
      and "cs_conn e' = d" and "cs_phase e' \<noteq> Ready"
  | (none) e' where "r = Ok None" and "stmt_next (stmt_api E s) (e, st) = (Ok False, (e', st\<lparr>st_columnCount := 0\<rparr>))"
      and "cs_conn e' = d"
  | (some) x e' where "r = Ok (Some x)" and "g (db_tabs (cs_conn e)) = Some x" and "cs_conn e' = d" and "cs_row e' = cols x"
      and "stmt_next (stmt_api E s) (e, st) = (Ok True, (e', st\<lparr>st_columnCount := int (length (cols x))\<rparr>))"
proof (cases rule: sql_query_outcome[of g "cs_conn e"])
  case (fails x)
  then have r: "r = Exn x" using assms(3) by simp
  with assms(2,3) have "meaning E s (cs_bound e) (cs_conn e) = (Exn x, d)" by (simp add: sql_query_map(2))
  from st.next_fails[OF assms(1) this, of st] r that(1) show ?thesis by blast
next
  case rows
  then have r: "r = Ok (g (db_tabs (cs_conn e)))" using assms(3) by simp
  with assms(2,3) have m: "meaning E s (cs_bound e) (cs_conn e) = (Ok (rows_of cols (g (db_tabs (cs_conn e)))), d)"
    by (simp add: sql_query_map(1))
  show ?thesis
  proof (cases "g (db_tabs (cs_conn e))")
    case None
    with m have "meaning E s (cs_bound e) (cs_conn e) = (Ok [], d)" by (simp add: rows_of_def)
    from st.next_none[OF assms(1) this, of st] r None that(2) show ?thesis by auto
  next
    case (Some x)
    with m have "meaning E s (cs_bound e) (cs_conn e) = (Ok [cols x], d)" by (simp add: rows_of_def)
    from st.next_row[OF assms(1) this, of st] r Some that(3) show ?thesis by auto
  qed
qed

lemma query_file_ok:
  assumes "cs_phase e = Ready" and "\<forall>r\<in>set (t_files (db_tabs (cs_conn e))). file_fits r"
    and "sql_query (stGetByPath p) (cs_conn e) = (r, d)"
  shows "\<exists>r' e' st'. query_file (stmt_api E StGetByPath) p (e, st) = (r', (e', st')) \<and> cs_conn e' = d
    \<and> query_answer (\<lambda>r. (fr_depth r, stat_of r)) r r' \<and> (cs_phase e' = Ready \<longleftrightarrow> (\<exists>x. r = Ok x))"
proof -
  let ?e = "bind_param 1 (PText p) e"
  have e: "cs_phase ?e = Ready" "meaning E StGetByPath (cs_bound ?e) = sql_query (\<lambda>T. rows_of file_columns (stGetByPath p T))"
    "sql_query (stGetByPath p) (cs_conn ?e) = (r, d)"
    using assms(1,3) by (simp_all add: bind_param_def as_text_def)
  have bind: "bindString (stmt_api E StGetByPath) 1 p (e, st) = (Ok (), (?e, st))"
    by (simp add: bindString_def on_engine_def run_simps)
  show ?thesis
  proof (cases rule: next_lookup[OF e, of st, case_names fails none some])
    case (some x e')
    have "file_fits x"
      using some(2) assms(1,2) by (auto simp: bind_param_def stGetByPath_def dest: find_Some_set)
    then show ?thesis
      using some
      by (simp add: query_file_def row_column_def run_simps bind query_answer_def stmt_reset_def stmt_getInt_def stmt_getInt64_def
          file_columns_def as_int_def stat_of_def word_of_int32 file_fits_def)
  qed (auto simp: query_file_def run_simps bind query_answer_def stmt_reset_def)
qed

lemma query_block_ok:
  assumes "cs_phase e = Ready" and "int64 f = f" and "int64 n = n"
    and "\<forall>h\<in>set (t_hashes (db_tabs (cs_conn e))). block_fits h"
    and "sql_query (stGetFileBlock f n) (cs_conn e) = (r, d)"
  shows "\<exists>r' e' st'. query_block (stmt_api E StGetFileBlock) f n (e, st) = (r', (e', st')) \<and> cs_conn e' = d
    \<and> query_answer (\<lambda>h. (col_id h, col_hash h, col_use h)) r r' \<and> (cs_phase e' = Ready \<longleftrightarrow> (\<exists>x. r = Ok x))"
proof -
  let ?e = "bind_param 2 (PInt n) (bind_param 1 (PInt f) e)"
  have e: "cs_phase ?e = Ready" "meaning E StGetFileBlock (cs_bound ?e) = sql_query (\<lambda>T. rows_of block_columns (stGetFileBlock f n T))"
    "sql_query (stGetFileBlock f n) (cs_conn ?e) = (r, d)"
    using assms(1,5) by (simp_all add: bind_param_def as_int_def)
  have bind: "bindInt64 (stmt_api E StGetFileBlock) 1 f (e, st) = (Ok (), (bind_param 1 (PInt f) e, st))"
    "bindInt64 (stmt_api E StGetFileBlock) 2 n (bind_param 1 (PInt f) e, st) = (Ok (), (?e, st))"
    using assms(2,3) by (simp_all add: bindInt64_def on_engine_def run_simps)
  show ?thesis
  proof (cases rule: next_lookup[OF e, of st, case_names fails none some])
    case (some x e')
    have "block_fits h" if "x = Some h" for h
      using some(2) assms(1,4) that by (auto simp: bind_param_def stGetFileBlock_def dest: find_Some_set)
    then show ?thesis
      using some
      by (cases x) (simp_all add: query_block_def row_column_def run_simps bind query_answer_def stmt_reset_def stmt_getInt_def stmt_getInt64_def
          stmt_getBlob_def block_columns_def as_int_def as_blob_def col_id_def col_hash_def col_use_def block_fits_def int32_id)
  qed (auto simp: query_block_def run_simps bind query_answer_def stmt_reset_def)
qed

lemma query_hash_ok:
  assumes "cs_phase e = Ready" and "sql_query (stSelectBlockHash h) (cs_conn e) = (r, d)"
  shows "\<exists>r' e' st'. query_hash (stmt_api E StSelectBlockHash) h (e, st) = (r', (e', st')) \<and> cs_conn e' = d
    \<and> query_answer hr_id r r'"
proof -
  let ?e = "bind_param 1 (PBlob h) e"
  have e: "cs_phase ?e = Ready" "meaning E StSelectBlockHash (cs_bound ?e)
      = sql_query (\<lambda>T. rows_of (\<lambda>h. [PInt (hr_id h), PInt (hr_use h)]) (stSelectBlockHash h T))"
    "sql_query (stSelectBlockHash h) (cs_conn ?e) = (r, d)"
    using assms by (simp_all add: bind_param_def as_blob_def)
  have bind: "bindBlob (stmt_api E StSelectBlockHash) 1 h (e, st) = (Ok (), (?e, st))"
    by (simp add: bindBlob_def on_engine_def run_simps)
  show ?thesis
  proof (cases rule: next_lookup[OF e, of st, case_names fails none some])
    case (some x e')
    then show ?thesis
      by (simp add: query_hash_def run_simps bind query_answer_def stmt_getInt64_def row_column_def as_int_def)
  qed (auto simp: query_hash_def run_simps bind query_answer_def)
qed

subsection \<open>Updates\<close>

lemma call_op_outcome:
  obtains (okay) d where "call_op E c T = (Ok (), d)" | (fails) x d where "call_op E c T = (Exn x, d)"
proof -
  have "(\<exists>d. sql_update f T = (Ok (), d)) \<or> (\<exists>x d. sql_update f T = (Exn x, d))"
    "(\<exists>d. sql_insert p g T = (Ok (), d)) \<or> (\<exists>x d. sql_insert p g T = (Exn x, d))" for f p g
    by (cases "db_script T"; cases "hd (db_script T)"; auto simp: sql_update_def sql_insert_def exec_def Let_def)+
  then show thesis using that by (cases c) (simp_all, metis+)
qed

lemma no_rows_run: "m d = (Ok (), d') \<Longrightarrow> no_rows m d = (Ok [], d')" "m d = (Exn x, d') \<Longrightarrow> no_rows m d = (Exn x, d')"
  by (simp_all add: no_rows_def run_simps sqn_def bnd_def ret_def)

text \<open>What \<open>executeUpdate\<close> has to answer for the outcome of the operation, and the phase it leaves.\<close>

definition update_answer :: "unit outcome \<Rightarrow> unit outcome \<Rightarrow> cstmt \<Rightarrow> bool" where
  "update_answer r r' e \<longleftrightarrow> (case r of
      Ok _ \<Rightarrow> r' = Ok () \<and> cs_phase e = Ready
    | Exn x \<Rightarrow> (\<exists>y. r' = Exn y \<and> (y = DatabaseLockedException \<longleftrightarrow> x = DatabaseLockedException)) \<and> cs_phase e = Halted
    | Halt h \<Rightarrow> False)"

lemma executeUpdate_call:
  assumes "cs_phase e = Ready" and "meaning E s (cs_bound e) = no_rows (call_op E c)" and "call_op E c (cs_conn e) = (r, d)"
  shows "\<exists>r' e' st'. executeUpdate (stmt_api E s) False (e, st) = Some (r', (e', st')) \<and> cs_conn e' = d
    \<and> cs_bound e' = cs_bound e \<and> update_answer r r' e'"
proof (cases rule: call_op_outcome[of E c "cs_conn e", case_names okay fails])
  case (okay d')
  then have "meaning E s (cs_bound e) (cs_conn e) = (Ok [], d')" "r = Ok ()" "d' = d"
    using assms(2,3) by (simp_all add: no_rows_run)
  from st.executeUpdate_ready[OF assms(1) this(1), of st] obtain e' st' where
    "executeUpdate (stmt_api E s) False (e, st) = Some (Ok (), (e', st'))" "cs_conn e' = d'" "cs_phase e' = Ready" "cs_bound e' = cs_bound e" .
  then show ?thesis using \<open>r = Ok ()\<close> \<open>d' = d\<close> by (auto simp: update_answer_def)
next
  case (fails x d')
  then have "meaning E s (cs_bound e) (cs_conn e) = (Exn x, d')" "r = Exn x" "d' = d"
    using assms(2,3) by (simp_all add: no_rows_run)
  from st.executeUpdate_fails[OF assms(1) this(1), of st] obtain y e' st' where
    "executeUpdate (stmt_api E s) False (e, st) = Some (Exn y, (e', st'))" "cs_conn e' = d'" "cs_phase e' = Halted" "cs_bound e' = cs_bound e"
    "y = DatabaseLockedException \<longleftrightarrow> x = DatabaseLockedException" .
  then show ?thesis using \<open>r = Exn x\<close> \<open>d' = d\<close> by (auto simp: update_answer_def)
qed

text \<open>One call of a member function: it binds and runs.\<close>

definition run_call :: "('e, 'd) api \<Rightarrow> db_call \<Rightarrow> 'e \<times> stmt \<Rightarrow> (unit outcome \<times> ('e \<times> stmt)) option" where
  "run_call A c s = (case call_binds A c s of
      (Ok _, s) \<Rightarrow> executeUpdate A False s
    | (Exn x, s) \<Rightarrow> Some (Exn x, s)
    | (Halt h, s) \<Rightarrow> Some (Halt h, s))"

subsection \<open>Properties\<close>

text \<open>C29: On a statement that is ready, binding the parameters as \<open>database.cpp\<close> does and \<open>executeUpdate\<close> are the
  operation of \<open>Sql_Store\<close> for it: the same rows afterwards, and a normal return or an exception with it
  (\<open>DatabaseLockedException\<close> exactly for a locked database).  The statement is ready again if it returns
  normally; if it throws, it is not.\<close>

theorem update_statements_refine:
  assumes "cs_phase e = Ready" and "call_fits c" and "call_op E c (cs_conn e) = (r, d)"
  shows "\<exists>r' e' st'. run_call (stmt_api E (call_stmt c)) c (e, st) = Some (r', (e', st')) \<and> cs_conn e' = d \<and> update_answer r r' e'"
proof -
  from st.call_binds_ready[OF assms(1), where c = c and st = st and E = E and s = "call_stmt c"]
  obtain e1 where e1: "call_binds (stmt_api E (call_stmt c)) c (e, st) = (Ok (), (e1, st))" "cs_conn e1 = cs_conn e" "cs_phase e1 = Ready"
    "cs_bound e1 = call_bound c (cs_bound e)" by blast
  have m: "meaning E (call_stmt c) (cs_bound e1) = no_rows (call_op E c)" using e1(4) meaning_call[OF assms(2)] by simp
  have "call_op E c (cs_conn e1) = (r, d)" using e1(2) assms(3) by simp
  from executeUpdate_call[OF e1(3) m this, of st] obtain r' e' st' where
    "executeUpdate (stmt_api E (call_stmt c)) False (e1, st) = Some (r', (e', st'))" "cs_conn e' = d" "update_answer r r' e'" by blast
  then show ?thesis by (auto simp: run_call_def e1(1))
qed

definition two_hashes :: "int \<Rightarrow> int \<Rightarrow> tables" where
  "two_hashes a b = init_tables\<lparr>t_hashes := [\<lparr>hr_id = 1, hr_hash = [1], hr_use = a\<rparr>, \<lparr>hr_id = 2, hr_hash = [2], hr_use = b\<rparr>]\<rparr>"

definition demo_stmt :: "cpp_exn option list \<Rightarrow> cstmt" where
  "demo_stmt script = \<lparr>cs_conn = (init_db (two_hashes 1 1))\<lparr>db_script := script\<rparr>, cs_bound = (\<lambda>_. PNull), cs_phase = Ready,
     cs_todo = [], cs_row = []\<rparr>"

lemma increase_two:
  "sql_update (stIncreaseUseCount [1]) (cs_conn (demo_stmt [])) = (Ok (), init_db (two_hashes 2 1))"
  "sql_update (stIncreaseUseCount [1]) (cs_conn (demo_stmt [Some x])) = (Exn x, init_db (two_hashes 1 1))"
  "sql_update (stIncreaseUseCount [1]) (init_db (two_hashes 1 1)) = (Ok (), init_db (two_hashes 2 1))"
  by (simp_all add: sql_update_def exec_def demo_stmt_def init_db_def two_hashes_def stIncreaseUseCount_def init_tables_def)

theorem update_statements_refine_witness:
  "\<exists>r' e' st'. run_call (stmt_api (std_env 4) StIncreaseUseCount) (IncreaseUseCount [1]) (demo_stmt [], \<lparr>st_columnCount = -2\<rparr>)
      = Some (r', (e', st')) \<and> cs_conn e' = init_db (two_hashes 2 1) \<and> update_answer (Ok ()) r' e'"
  using update_statements_refine[of "demo_stmt []" "IncreaseUseCount [1]" "std_env 4" "Ok ()" "init_db (two_hashes 2 1)" "\<lparr>st_columnCount = -2\<rparr>"]
    increase_two(1) by (simp add: demo_stmt_def)

text \<open>C31: \<open>executeUpdate\<close> does not reset a statement that failed, and SQLite does not bind to it: the next call of the
  same statement binds in vain and runs with the parameters of the call that failed.\<close>

theorem failed_statement_keeps_parameters:
  assumes "cs_phase e = Ready" and "call_fits c" and "call_op E c (cs_conn e) = (Exn x, d)"
    and "call_stmt c' = call_stmt c" and "call_op E c d = (r, d')"
  shows "\<exists>y e1 st1 r' e' st'. run_call (stmt_api E (call_stmt c)) c (e, st) = Some (Exn y, (e1, st1))
    \<and> run_call (stmt_api E (call_stmt c)) c' (e1, st1) = Some (r', (e', st')) \<and> cs_conn e' = d' \<and> update_answer r r' e'"
proof -
  let ?A = "stmt_api E (call_stmt c)"
  from st.call_binds_ready[OF assms(1), where c = c and st = st and E = E and s = "call_stmt c"]
  obtain e0 where e0: "call_binds ?A c (e, st) = (Ok (), (e0, st))" "cs_conn e0 = cs_conn e" "cs_phase e0 = Ready"
    "cs_bound e0 = call_bound c (cs_bound e)" by blast
  have m: "meaning E (call_stmt c) (cs_bound e0) = no_rows (call_op E c)" using e0(4) meaning_call[OF assms(2)] by simp
  have "call_op E c (cs_conn e0) = (Exn x, d)" using e0(2) assms(3) by simp
  from executeUpdate_call[OF e0(3) m this, of st] obtain r1 e1 st1 where e1:
    "executeUpdate ?A False (e0, st) = Some (r1, (e1, st1))" "cs_conn e1 = d" "cs_bound e1 = cs_bound e0" "update_answer (Exn x) r1 e1"
    by blast
  then obtain y where y: "r1 = Exn y" "cs_phase e1 = Halted" by (auto simp: update_answer_def)
  from st.call_binds_stale[of e1, where c = c' and st = st1 and E = E and s = "call_stmt c"] y(2)
  obtain e2 where e2: "call_binds ?A c' (e1, st1) = (Ok (), (e2, st1))" "cs_conn e2 = cs_conn e1" "cs_phase e2 \<noteq> Ready"
    "cs_bound e2 = cs_bound e1" "cs_phase e2 = Halted" by auto
  let ?e3 = "e2\<lparr>cs_phase := Ready\<rparr>"
  have again: "executeUpdate ?A False (e2, st1) = executeUpdate ?A False (?e3, st1)"
    using st.executeUpdate_halted[OF e2(3,5), of E "call_stmt c" st1] by simp
  have m3: "meaning E (call_stmt c) (cs_bound ?e3) = no_rows (call_op E c)" using m e2(4) e1(3) by simp
  have "call_op E c (cs_conn ?e3) = (r, d')" using e2(2) e1(2) assms(5) by simp
  from executeUpdate_call[OF _ m3 this, of st1] obtain r' e' st' where
    "executeUpdate ?A False (?e3, st1) = Some (r', (e', st'))" "cs_conn e' = d'" "update_answer r r' e'" by auto
  then show ?thesis by (auto simp: run_call_def e0(1) e1(1) y(1) e2(1) again)
qed

theorem failed_statement_keeps_parameters_witness:
  "\<exists>y e1 st1 r' e' st'.
     run_call (stmt_api (std_env 4) StIncreaseUseCount) (IncreaseUseCount [1]) (demo_stmt [Some DatabaseLockedException], \<lparr>st_columnCount = -2\<rparr>)
       = Some (Exn y, (e1, st1))
   \<and> run_call (stmt_api (std_env 4) StIncreaseUseCount) (IncreaseUseCount [2]) (e1, st1) = Some (r', (e', st'))
   \<and> cs_conn e' = init_db (two_hashes 2 1) \<and> update_answer (Ok ()) r' e'"
  using failed_statement_keeps_parameters[of "demo_stmt [Some DatabaseLockedException]" "IncreaseUseCount [1]" "std_env 4"
      DatabaseLockedException "init_db (two_hashes 1 1)" "IncreaseUseCount [2]" "Ok ()" "init_db (two_hashes 2 1)" "\<lparr>st_columnCount = -2\<rparr>"]
    increase_two(2,3) by (simp add: demo_stmt_def)

text \<open>C30: The queries of \<open>loadFileBlock\<close>, \<open>replaceStorageBlock\<close> and \<open>getByPath\<close>, with their bindings, \<open>next\<close> and the
  functions that read columns, give what the operations of \<open>Sql_Store\<close> give: the columns of the row if there is
  one, 0 and an empty hash for the NULL columns of the left join, an exception for a failure; the numbers of the
  rows must fit the widths that are read.\<close>

theorem queries_refine:
  assumes "cs_phase e = Ready" and "int64 f = f" and "int64 n = n"
    and "\<forall>h\<in>set (t_hashes (db_tabs (cs_conn e))). block_fits h" and "\<forall>r\<in>set (t_files (db_tabs (cs_conn e))). file_fits r"
  shows "(\<exists>r e' st'. query_block (stmt_api E StGetFileBlock) f n (e, st) = (r, (e', st')) \<and>
      query_answer (\<lambda>h. (col_id h, col_hash h, col_use h)) (fst (sql_query (stGetFileBlock f n) (cs_conn e))) r \<and>
      cs_conn e' = snd (sql_query (stGetFileBlock f n) (cs_conn e)))
    \<and> (\<exists>r e' st'. query_hash (stmt_api E StSelectBlockHash) h (e, st) = (r, (e', st')) \<and>
      query_answer hr_id (fst (sql_query (stSelectBlockHash h) (cs_conn e))) r \<and>
      cs_conn e' = snd (sql_query (stSelectBlockHash h) (cs_conn e)))
    \<and> (\<exists>r e' st'. query_file (stmt_api E StGetByPath) p (e, st) = (r, (e', st')) \<and>
      query_answer (\<lambda>r. (fr_depth r, stat_of r)) (fst (sql_query (stGetByPath p) (cs_conn e))) r \<and>
      cs_conn e' = snd (sql_query (stGetByPath p) (cs_conn e)))"
proof (intro conjI)
  show "\<exists>r e' st'. query_block (stmt_api E StGetFileBlock) f n (e, st) = (r, (e', st')) \<and>
      query_answer (\<lambda>h. (col_id h, col_hash h, col_use h)) (fst (sql_query (stGetFileBlock f n) (cs_conn e))) r \<and>
      cs_conn e' = snd (sql_query (stGetFileBlock f n) (cs_conn e))"
    using query_block_ok[OF assms(1-4) surjective_pairing] by blast
  show "\<exists>r e' st'. query_hash (stmt_api E StSelectBlockHash) h (e, st) = (r, (e', st')) \<and>
      query_answer hr_id (fst (sql_query (stSelectBlockHash h) (cs_conn e))) r \<and>
      cs_conn e' = snd (sql_query (stSelectBlockHash h) (cs_conn e))"
    using query_hash_ok[OF assms(1) surjective_pairing] by blast
  show "\<exists>r e' st'. query_file (stmt_api E StGetByPath) p (e, st) = (r, (e', st')) \<and>
      query_answer (\<lambda>r. (fr_depth r, stat_of r)) (fst (sql_query (stGetByPath p) (cs_conn e))) r \<and>
      cs_conn e' = snd (sql_query (stGetByPath p) (cs_conn e))"
    using query_file_ok[OF assms(1,5) surjective_pairing] by blast
qed

theorem queries_refine_witness:
  "\<exists>r e' st'. query_hash (stmt_api (std_env 4) StSelectBlockHash) [2] (demo_stmt [], \<lparr>st_columnCount = -2\<rparr>) = (r, (e', st')) \<and> r = Ok (Some 2)"
proof -
  have "cs_phase (demo_stmt []) = Ready" "int64 7 = 7" "int64 0 = 0"
    "\<forall>h\<in>set (t_hashes (db_tabs (cs_conn (demo_stmt [])))). block_fits h"
    "\<forall>r\<in>set (t_files (db_tabs (cs_conn (demo_stmt [])))). file_fits r"
    by (simp_all add: demo_stmt_def init_db_def two_hashes_def init_tables_def block_fits_def int64_def int32_def)
  from queries_refine[OF this, of "std_env 4" "\<lparr>st_columnCount = -2\<rparr>" "[2]"]
  obtain r e' st' where "query_hash (stmt_api (std_env 4) StSelectBlockHash) [2] (demo_stmt [], \<lparr>st_columnCount = -2\<rparr>) = (r, (e', st'))"
    "query_answer hr_id (fst (sql_query (stSelectBlockHash [2]) (cs_conn (demo_stmt [])))) r" by blast
  moreover have "fst (sql_query (stSelectBlockHash [2]) (cs_conn (demo_stmt []))) = Ok (Some \<lparr>hr_id = 2, hr_hash = [2], hr_use = 1\<rparr>)"
    by (simp add: sql_query_def exec_def demo_stmt_def init_db_def two_hashes_def stSelectBlockHash_def)
  ultimately show ?thesis by (auto simp: query_answer_def)
qed

end
