(* ===== verification/Blocks_Cache.thy ===== *)
theory Blocks_Cache
  imports Db_Blocks Murmur3
begin

text \<open>
  Class \<open>BlocksCache\<close> (\<open>blockscache.cpp\<close>) as one handler runs it: the locked item of a
  file block, the storage block it refers to, reading and writing a range of a file, and
  truncation.  The storage file is its list of bytes.

  A handler runs without another one in between, so a mutex of a storage block, which is
  always released on the way out of the same scope, is not part of the state; the mutex
  of a file block item is (\<open>bi_locked\<close>), since an exception leaves it locked.  A
  \<open>shared_ptr\<close> to a storage block is the block's number, or \<open>None\<close> for a block that is
  not in the cache's set and has number 0.
\<close>

subsection \<open>Constants and objects\<close>

definition HASH_SEED :: u32 where "HASH_SEED = 0xad64fac3"

definition block_size :: "('fm, 'sm) env \<Rightarrow> int" where
  "block_size E = int32 (push_bit (e_bits E) 1)"

definition zeros :: "int \<Rightarrow> byte list" where
  "zeros n = replicate (nat n) 0"

text \<open>\<open>make_shared<storage_block>\<close>: a new object, and the time it was created.\<close>

definition new_object :: "(('fm, 'sm) cstate, nat \<times> int) comp" where
  "new_object = (\<lambda>s. (Ok (c_next s, c_now s), s\<lparr>c_next := Suc (c_next s)\<rparr>))"

text \<open>\<open>memcpy\<close> of \<open>len\<close> bytes: between buffers of known length.\<close>

definition memcpy_into :: "byte list \<Rightarrow> int \<Rightarrow> byte list \<Rightarrow> int \<Rightarrow> (('fm, 'sm) cstate, byte list) comp" where
  "memcpy_into dest off src len =
    (if 0 \<le> len \<and> 0 \<le> off \<and> off + len \<le> int (length dest) \<and> len \<le> int (length src)
     then ret (overlay (nat off) (take (nat len) src) dest)
     else halt BadLength)"

definition memcpy_from :: "byte list \<Rightarrow> int \<Rightarrow> int \<Rightarrow> (('fm, 'sm) cstate, byte list) comp" where
  "memcpy_from src off len =
    (if 0 \<le> len \<and> 0 \<le> off \<and> off + len \<le> int (length src)
     then ret (take (nat len) (drop (nat off) src))
     else halt BadLength)"

definition memset_zero :: "int \<Rightarrow> (('fm, 'sm) cstate, byte list) comp" where
  "memset_zero len = (if 0 \<le> len then ret (zeros len) else halt BadLength)"

subsection \<open>The item of a file block\<close>

definition ensure_fblock :: "('fm, 'sm) env \<Rightarrow> int \<Rightarrow> (('fm, 'sm) cstate, int) comp" where
  "ensure_fblock E n =
    bnd (gets (\<lambda>s. fblock_at E s n)) (\<lambda>found.
    case found of
      Some item \<Rightarrow>
        if bi_locked item then halt Deadlock
        else sqn (modify (put_fblock E n (item\<lparr>bi_locked := True\<rparr>))) (ret 0)
    | None \<Rightarrow>
        sqn (modify (put_fblock E n ((new_block_info n)\<lparr>bi_locked := True\<rparr>)))
       (bnd (loadFileBlock E ((new_block_info n)\<lparr>bi_locked := True\<rparr>)) (\<lambda>(item, use_count).
        sqn (modify (put_fblock E n (item\<lparr>bi_loaded := True\<rparr>)))
       (ret use_count))))"

definition ensure_sblock :: "('fm, 'sm) env \<Rightarrow> int \<Rightarrow> int \<Rightarrow> (('fm, 'sm) cstate, unit) comp" where
  "ensure_sblock E n use_count =
    bnd (deref_fblock E n) (\<lambda>fblock.
    bnd new_object (\<lambda>(oid, now).
    bnd (gets (\<lambda>s. cached E s (bi_snum fblock))) (\<lambda>found.
    bnd (case found of
        None \<Rightarrow>
          (let item = (new_storage_block oid now (bi_snum fblock))
                \<lparr>sb_use := use_count, sb_hash := bi_hash fblock, sb_loaded := True\<rparr>
           in sqn (modify (put_sblock E (bi_snum fblock) item)) (ret item))
      | Some item \<Rightarrow>
          sqn (guard (e_ndebug E \<or> use_count = 0 \<or> sb_use item = use_count) AssertFail) (ret item)) (\<lambda>item.
    set_fblock E n (\<lambda>b. b\<lparr>bi_sblock := Some (bi_snum fblock, sb_oid item)\<rparr>)))))"

definition getLockedFileBlock :: "('fm, 'sm) env \<Rightarrow> int \<Rightarrow> (('fm, 'sm) cstate, unit) comp" where
  "getLockedFileBlock E n =
    bnd (ensure_fblock E n) (\<lambda>use_count.
    bnd (deref_fblock E n) (\<lambda>fblock.
    if bi_empty fblock then ret ()
    else bnd (gets (lock_weak E (bi_sblock fblock))) (\<lambda>alive.
      case alive of
        Some _ \<Rightarrow> ret ()
      | None \<Rightarrow> ensure_sblock E n use_count)))"

definition unlock_fblock :: "('fm, 'sm) env \<Rightarrow> int \<Rightarrow> (('fm, 'sm) cstate, unit) comp" where
  "unlock_fblock E n = set_fblock E n (\<lambda>b. b\<lparr>bi_locked := False\<rparr>)"

definition getStorageBlock :: "('fm, 'sm) env \<Rightarrow> int \<Rightarrow> (('fm, 'sm) cstate, int option) comp" where
  "getStorageBlock E n =
    sqn (getLockedFileBlock E n)
   (bnd (deref_fblock E n) (\<lambda>fblock.
    bnd (gets (lock_weak E (bi_sblock fblock))) (\<lambda>res.
    sqn (unlock_fblock E n)
   (case res of
      None \<Rightarrow> sqn new_object (ret None)
    | Some b \<Rightarrow>
        bnd (gets c_now) (\<lambda>now.
        sqn (set_sblock E (sb_num b) (sb_access now))
       (ret (Some (sb_num b))))))))"

subsection \<open>Data of a storage block\<close>

text \<open>\<open>read\<close> of one block at \<open>k << bits\<close>: what there is before the end of the storage file.\<close>

definition disk_block :: "('fm, 'sm) env \<Rightarrow> byte list \<Rightarrow> int \<Rightarrow> byte list" where
  "disk_block E disk k = take (nat (block_size E)) (drop (nat (push_bit (e_bits E) k)) disk)"

definition populateStorageBlock :: "('fm, 'sm) env \<Rightarrow> int \<Rightarrow> (('fm, 'sm) cstate, unit) comp" where
  "populateStorageBlock E k =
    bnd (deref_sblock E k) (\<lambda>b.
    if sb_data b \<noteq> [] \<or> sb_num b = 0 then ret ()
    else bnd (gets (\<lambda>s. disk_block E (c_disk s) (sb_num b))) (\<lambda>got.
      sqn (set_sblock E k (\<lambda>b. b\<lparr>sb_data := overlay 0 got (zeros (block_size E))\<rparr>))
     (if int (length got) \<noteq> block_size E then throw (SystemError ''Error reading block from storage'')
      else ret ())))"

subsection \<open>Reading\<close>

definition read_chunk :: "('fm, 'sm) env \<Rightarrow> int \<Rightarrow> int \<Rightarrow> int \<Rightarrow> (('fm, 'sm) cstate, byte list) comp" where
  "read_chunk E n startOffset chunkSize =
    bnd (getStorageBlock E n) (\<lambda>res.
    case res of
      None \<Rightarrow> memset_zero chunkSize
    | Some k \<Rightarrow>
        bnd (deref_sblock E k) (\<lambda>b.
        if sb_num b \<noteq> 0 then
          sqn (populateStorageBlock E k)
         (bnd (deref_sblock E k) (\<lambda>b.
          memcpy_from (sb_data b) startOffset chunkSize))
        else memset_zero chunkSize))"

text \<open>The loop; each round reads at least one byte, so \<open>size\<close> rounds are enough.\<close>

primrec read_loop :: "('fm, 'sm) env \<Rightarrow> int \<Rightarrow> int \<Rightarrow> nat \<Rightarrow> int \<Rightarrow> int \<Rightarrow> byte list
    \<Rightarrow> (('fm, 'sm) cstate, int \<times> byte list) comp" where
  "read_loop E sz endBlockNum 0 factSize cur buf =
    (if factSize < sz then halt Diverges else ret (factSize, buf))"
| "read_loop E sz endBlockNum (Suc rounds) factSize cur buf =
    (if factSize < sz then
       sqn (guard (e_ndebug E \<or> cur \<le> endBlockNum) AssertFail)
      (let chunkSize = int32 (min (block_size E) (sz - factSize)) in
       bnd (read_chunk E (cur + 1) 0 chunkSize) (\<lambda>bytes.
       read_loop E sz endBlockNum rounds (factSize + chunkSize) (cur + 1) (buf @ bytes)))
     else ret (factSize, buf))"

definition readBuf :: "('fm, 'sm) env \<Rightarrow> int \<Rightarrow> int \<Rightarrow> (('fm, 'sm) cstate, int \<times> byte list) comp" where
  "readBuf E sz offset =
    bnd (gets fsize) (\<lambda>st_size.
    let sz = (if sz + offset > st_size then st_size - offset else sz);
        startBlockNum = drop_bit (e_bits E) offset;
        endBlockNum = drop_bit (e_bits E) (offset + sz);
        startOffset = int32 (offset - push_bit (e_bits E) startBlockNum);
        chunkSize = int32 (min sz (block_size E - startOffset))
    in bnd (read_chunk E startBlockNum startOffset chunkSize) (\<lambda>bytes.
       read_loop E sz endBlockNum (nat sz) chunkSize startBlockNum bytes))"

subsection \<open>Writing\<close>

definition writeBlock :: "('fm, 'sm) env \<Rightarrow> byte list \<Rightarrow> int \<Rightarrow> (('fm, 'sm) cstate, unit) comp" where
  "writeBlock E data n =
    (let hash = MurmurHash3_x64_128 (take (nat (block_size E)) data) HASH_SEED in
     bnd (replaceStorageBlock E n hash) (\<lambda>present.
     bnd (deref_fblock E n) (\<lambda>fblock.
     bnd new_object (\<lambda>(oid, now).
     bnd (gets (\<lambda>s. cached E s (bi_snum fblock))) (\<lambda>found.
     if present then
       (case found of
          Some _ \<Rightarrow> set_sblock E (bi_snum fblock) (\<lambda>b. b\<lparr>sb_use := sb_use b + 1\<rparr>)
        | None \<Rightarrow> ret ())
     else
       (let item = (case found of Some b \<Rightarrow> b | None \<Rightarrow> new_storage_block oid now (bi_snum fblock));
            item = item\<lparr>sb_data := data, sb_hash := Some hash, sb_use := 1, sb_dirty := True, sb_loaded := True\<rparr>
        in sqn (modify (put_sblock E (bi_snum fblock) item))
          (set_fblock E n (\<lambda>b. b\<lparr>bi_sblock := Some (bi_snum fblock, sb_oid item)\<rparr>))))))))"

definition writeBlockWrapper :: "('fm, 'sm) env \<Rightarrow> byte list \<Rightarrow> int \<Rightarrow> int \<Rightarrow> int \<Rightarrow> (('fm, 'sm) cstate, unit) comp" where
  "writeBlockWrapper E curPtr curBlockNum chunkSize startOffset =
    sqn (getLockedFileBlock E curBlockNum)
   (bnd (deref_fblock E curBlockNum) (\<lambda>fileBlock.
    bnd (gets (lock_weak E (bi_sblock fileBlock))) (\<lambda>firstBlock.
    bnd (case firstBlock of
        None \<Rightarrow> ret []
      | Some b \<Rightarrow>
          bnd (gets c_now) (\<lambda>now.
          sqn (set_sblock E (sb_num b) (sb_access now))
         (if sb_num b \<noteq> 0 \<and> chunkSize < block_size E then
            sqn (populateStorageBlock E (sb_num b))
           (bnd (deref_sblock E (sb_num b)) (\<lambda>b. ret (sb_data b)))
          else ret []))) (\<lambda>data.
    let data = (if data = [] then zeros (block_size E) else data) in
    bnd (memcpy_into data startOffset curPtr chunkSize) (\<lambda>data.
    sqn (writeBlock E data curBlockNum)
   (unlock_fblock E curBlockNum))))))"

primrec write_loop :: "('fm, 'sm) env \<Rightarrow> byte list \<Rightarrow> int \<Rightarrow> int \<Rightarrow> nat \<Rightarrow> int \<Rightarrow> int
    \<Rightarrow> (('fm, 'sm) cstate, int) comp" where
  "write_loop E buf sz endBlockNum 0 factSize cur =
    (if factSize < sz then halt Diverges else ret factSize)"
| "write_loop E buf sz endBlockNum (Suc rounds) factSize cur =
    (if factSize < sz then
       sqn (guard (e_ndebug E \<or> cur \<le> endBlockNum) AssertFail)
      (let chunkSize = int32 (min (block_size E) (sz - factSize)) in
       sqn (writeBlockWrapper E (drop (nat factSize) buf) (cur + 1) chunkSize 0)
      (write_loop E buf sz endBlockNum rounds (factSize + chunkSize) (cur + 1)))
     else ret factSize)"

definition writeBuf :: "('fm, 'sm) env \<Rightarrow> byte list \<Rightarrow> int \<Rightarrow> int \<Rightarrow> (('fm, 'sm) cstate, int) comp" where
  "writeBuf E buf sz offset =
    bnd (gets fsize) (\<lambda>st_size.
    sqn (if sz + offset > st_size then sqn (db_ftruncate (sz + offset)) (ret ()) else ret ())
   (let startBlockNum = drop_bit (e_bits E) offset;
        startOffset = int32 (offset - push_bit (e_bits E) startBlockNum);
        endBlockNum = drop_bit (e_bits E) (offset + sz - 1);
        chunkSize = int32 (min sz (block_size E - startOffset))
    in sqn (writeBlockWrapper E buf startBlockNum chunkSize startOffset)
      (write_loop E buf sz endBlockNum (nat sz) chunkSize startBlockNum)))"

subsection \<open>Truncation\<close>

primrec truncate_loop :: "('fm, 'sm) env \<Rightarrow> int list \<Rightarrow> (('fm, 'sm) cstate, unit) comp" where
  "truncate_loop E [] = ret ()"
| "truncate_loop E (curBlock # rest) =
    bnd (releaseStorageBlock E curBlock) (\<lambda>storageBlockNum.
    sqn (if storageBlockNum \<noteq> 0 then
           sqn new_object
          (bnd (gets (\<lambda>s. cached E s storageBlockNum)) (\<lambda>found.
           case found of
             Some _ \<Rightarrow> set_sblock E storageBlockNum (\<lambda>b. b\<lparr>sb_use := sb_use b - 1\<rparr>)
           | None \<Rightarrow> ret ()))
         else ret ())
   (truncate_loop E rest))"

definition truncate :: "('fm, 'sm) env \<Rightarrow> int \<Rightarrow> (('fm, 'sm) cstate, int) comp" where
  "truncate E newSize =
    (if newSize < 0 then ret (- EINVAL)
     else bnd (gets fsize) (\<lambda>st_size.
       if st_size \<le> newSize then db_ftruncate newSize
       else
         (let startBlock = (if newSize \<noteq> 0 then drop_bit (e_bits E) (newSize - 1) + 1 else 0);
              endBlock = (if st_size \<noteq> 0 then drop_bit (e_bits E) (st_size - 1) + 1 else 1)
          in sqn (truncate_loop E [startBlock..endBlock - 1])
            (db_ftruncate newSize))))"

subsection \<open>The storage file\<close>

text \<open>The constructor of the writer's instance on the bytes of the storage file; \<open>junk\<close> is
  what the uninitialised \<open>signature\<close> array holds.\<close>

definition int32_bytes :: "int \<Rightarrow> byte list" where
  "int32_bytes x = map (\<lambda>i. word_of_int (drop_bit (8 * i) x)) [0, 1, 2, 3]"

definition signature_magic :: "byte list" where
  "signature_magic = map (\<lambda>c. of_nat (of_char c)) ''WWDEDUP1''"

definition BlocksCache_open :: "nat \<Rightarrow> byte list \<Rightarrow> byte list \<Rightarrow> cpp_exn + byte list" where
  "BlocksCache_open bits junk disk =
    (let bs = int32 (push_bit bits 1) in
     if disk = [] then
       Inr (overlay 8 (int32_bytes bs) (overlay 0 signature_magic (take (nat bs) junk)))
     else
       (let signature = take (nat bs) disk in
        if int (length signature) \<noteq> bs then Inl (SystemError ''Can not read storage file'')
        else if take 8 signature \<noteq> signature_magic then Inl (RuntimeError ''Wrong or corrupt storage file'')
        else if take 4 (drop 8 signature) \<noteq> int32_bytes bs then Inl (RuntimeError ''Wrong block size in storage file'')
        else Inr disk))"

end
