(* ===== verification/Cache_Content.thy ===== *)
theory Cache_Content
  imports Blocks_Cache
begin

text \<open>
  What the block cache stores, apart from how: the content of a storage block, the
  content of a block of a file, and the two invariants that make the operations of
  \<open>blockscache.cpp\<close> right.  \<open>consistent\<close> relates rows, cache and storage file; \<open>coherent\<close>
  relates one block of the file handle to them.
\<close>

subsection \<open>Contents\<close>

definition block_hash :: "byte list \<Rightarrow> byte list" where
  "block_hash data = MurmurHash3_x64_128 data HASH_SEED"

text \<open>The content of storage block \<open>k\<close>: its data in memory, else the storage file.\<close>

definition sdata :: "('fm, 'sm) env \<Rightarrow> ('fm, 'sm) cstate \<Rightarrow> int \<Rightarrow> byte list" where
  "sdata E s k =
    (case cached E s k of
      Some b \<Rightarrow> if sb_data b \<noteq> [] then sb_data b else disk_block E (c_disk s) k
    | None \<Rightarrow> disk_block E (c_disk s) k)"

text \<open>The content of block \<open>n\<close> of file \<open>f\<close>, as a new handle sees it.\<close>

definition stored :: "('fm, 'sm) env \<Rightarrow> ('fm, 'sm) cstate \<Rightarrow> int \<Rightarrow> int \<Rightarrow> byte list" where
  "stored E s f n =
    (case file_block (tabs s) f n of
      None \<Rightarrow> zeros (block_size E)
    | Some h \<Rightarrow> (case stSelectBlockHash h (tabs s) of
        None \<Rightarrow> zeros (block_size E)
      | Some r \<Rightarrow> sdata E s (hr_id r)))"

definition cache_ok :: "('fm, 'sm) env \<Rightarrow> ('fm, 'sm) cstate \<Rightarrow> int \<Rightarrow> storage_block \<Rightarrow> bool" where
  "cache_ok E s k b \<longleftrightarrow> sb_num b = k
   \<and> (\<exists>r\<in>set (t_hashes (tabs s)). hr_id r = k \<and> hr_use r = sb_use b)
   \<and> (if sb_data b = [] then \<not> sb_dirty b
      else int (length (sb_data b)) = block_size E \<and> (sb_dirty b \<or> disk_block E (c_disk s) k = sb_data b))"

definition consistent :: "('fm, 'sm) env \<Rightarrow> ('fm, 'sm) cstate \<Rightarrow> bool" where
  "consistent E s \<longleftrightarrow>
     wf_rows (tabs s) \<and> counted (tabs s)
   \<and> db_script (c_db s) = [] \<and> db_saved (c_db s) = None
   \<and> (\<forall>k b. cached E s k = Some b \<longrightarrow> cache_ok E s k b)
   \<and> (\<forall>r\<in>set (t_hashes (tabs s)). int (length (sdata E s (hr_id r))) = block_size E
        \<and> block_hash (sdata E s (hr_id r)) = hr_hash r)"

text \<open>A block of the handle that is not locked, and knows of the block what the rows say.\<close>

definition knows :: "('fm, 'sm) env \<Rightarrow> ('fm, 'sm) cstate \<Rightarrow> int \<Rightarrow> block_info \<Rightarrow> bool" where
  "knows E s n b \<longleftrightarrow> bi_num b = n
   \<and> (case file_block (tabs s) (ino s) n of
       None \<Rightarrow> bi_empty b \<and> bi_sblock b = None \<and> bi_hash b = None
     | Some h \<Rightarrow> (\<exists>r sb. stSelectBlockHash h (tabs s) = Some r \<and> cached E s (hr_id r) = Some sb
         \<and> bi_hash b = Some h \<and> bi_snum b = hr_id r
         \<and> (if bi_sblock b = None then \<not> bi_empty b else bi_sblock b = Some (hr_id r, sb_oid sb))))"

definition coherent :: "('fm, 'sm) env \<Rightarrow> ('fm, 'sm) cstate \<Rightarrow> int \<Rightarrow> bool" where
  "coherent E s n \<longleftrightarrow> (\<forall>b. fblock_at E s n = Some b \<longrightarrow> knows E s n b \<and> \<not> bi_locked b)"

text \<open>The size check of \<open>loadFileBlock\<close> does not hide an existing block.\<close>

definition loadable :: "('fm, 'sm) env \<Rightarrow> ('fm, 'sm) cstate \<Rightarrow> int \<Rightarrow> bool" where
  "loadable E s n \<longleftrightarrow> (n * e_db_block_size E > fsize s \<longrightarrow> file_block (tabs s) (ino s) n = None)"

lemma consistentD:
  assumes "consistent E s"
  shows "wf_rows (tabs s)" "counted (tabs s)" "db_script (c_db s) = []" "db_saved (c_db s) = None"
    "cached E s k = Some b \<Longrightarrow> cache_ok E s k b"
    "r \<in> set (t_hashes (tabs s)) \<Longrightarrow> int (length (sdata E s (hr_id r))) = block_size E"
    "r \<in> set (t_hashes (tabs s)) \<Longrightarrow> block_hash (sdata E s (hr_id r)) = hr_hash r"
  using assms by (auto simp: consistent_def)

lemma file_row:
  assumes "consistent E s" and "file_block (tabs s) f n = Some h"
  obtains r where "stSelectBlockHash h (tabs s) = Some r" and "r \<in> set (t_hashes (tabs s))" and "hr_hash r = h"
    and "0 < hr_id r"
  using counted_hash[OF consistentD(2)[OF assms(1)] assms(2)] consistentD(1)[OF assms(1)]
  by (metis select_Some wf_rowsD(3))

lemma stored_None: "file_block (tabs s) f n = None \<Longrightarrow> stored E s f n = zeros (block_size E)"
  by (simp add: stored_def)

lemma stored_Some:
  "file_block (tabs s) f n = Some h \<Longrightarrow> stSelectBlockHash h (tabs s) = Some r \<Longrightarrow> stored E s f n = sdata E s (hr_id r)"
  by (simp add: stored_def)

lemma length_zeros [simp]: "length (zeros n) = nat n"
  by (simp add: zeros_def)

lemma length_stored:
  assumes "consistent E s" and "0 \<le> block_size E"
  shows "int (length (stored E s f n)) = block_size E"
proof (cases "file_block (tabs s) f n")
  case (Some h)
  from file_row[OF assms(1) Some] obtain r where
    "stSelectBlockHash h (tabs s) = Some r" "r \<in> set (t_hashes (tabs s))" .
  with Some show ?thesis using consistentD(6)[OF assms(1)] by (simp add: stored_Some)
qed (use assms in \<open>simp add: stored_None\<close>)

subsection \<open>Steps that change no content\<close>

text \<open>\<open>quiet s t\<close>: from \<open>s\<close> to \<open>t\<close> blocks may have been brought into the cache, but the rows,
  the storage file and the content of every storage block are the same.\<close>

definition quiet :: "('fm, 'sm) env \<Rightarrow> ('fm, 'sm) cstate \<Rightarrow> ('fm, 'sm) cstate \<Rightarrow> bool" where
  "quiet E s t \<longleftrightarrow> c_db t = c_db s \<and> c_disk t = c_disk s \<and> c_now t = c_now s
   \<and> fi_st (c_fi t) = fi_st (c_fi s) \<and> sdata E t = sdata E s \<and> consistent E t
   \<and> (\<forall>k b. cached E s k = Some b \<longrightarrow> (\<exists>b'. cached E t k = Some b' \<and> sb_oid b' = sb_oid b))"

lemma quietD:
  assumes "quiet E s t"
  shows "c_db t = c_db s" "c_disk t = c_disk s" "c_now t = c_now s" "fi_st (c_fi t) = fi_st (c_fi s)"
    "sdata E t = sdata E s" "consistent E t" "stored E t = stored E s" "loadable E t = loadable E s"
  using assms by (auto simp: quiet_def stored_def loadable_def fun_eq_iff split: option.split)

lemma quiet_refl: "consistent E s \<Longrightarrow> quiet E s s"
  by (simp add: quiet_def)

lemma quiet_trans [trans]: "quiet E s t \<Longrightarrow> quiet E t u \<Longrightarrow> quiet E s u"
  unfolding quiet_def by metis

lemma knows_quiet:
  assumes "quiet E s t" and "knows E s n b"
  shows "knows E t n b"
proof (cases "file_block (tabs s) (ino s) n")
  case None
  with assms show ?thesis by (simp add: knows_def quietD[OF assms(1)])
next
  case (Some h)
  with assms(2) obtain r sb where *: "stSelectBlockHash h (tabs s) = Some r" "cached E s (hr_id r) = Some sb"
      "bi_hash b = Some h" "bi_snum b = hr_id r" "bi_num b = n"
      "if bi_sblock b = None then \<not> bi_empty b else bi_sblock b = Some (hr_id r, sb_oid sb)"
    by (auto simp: knows_def)
  from * assms(1) obtain sb' where "cached E t (hr_id r) = Some sb'" "sb_oid sb' = sb_oid sb"
    by (auto simp: quiet_def)
  with * Some show ?thesis by (simp add: knows_def quietD[OF assms(1)])
qed

lemma coherent_quiet:
  "quiet E s t \<Longrightarrow> fblock_at E t m = fblock_at E s m \<Longrightarrow> coherent E s m \<Longrightarrow> coherent E t m"
  using knows_quiet by (fastforce simp: coherent_def)

text \<open>A change of one cached block that keeps its identity, its use count and its content.\<close>

lemma lock_weak_Some:
  assumes "lock_weak E w s = Some b" and "consistent E s"
  shows "cached E s (sb_num b) = Some b \<and> w = Some (sb_num b, sb_oid b)"
  using assms by (auto simp: lock_weak_def cache_ok_def dest: consistentD(5) split: option.splits if_splits)

context dedup_env
begin

lemma block_size_eq: "block_size E = 2 ^ e_bits E"
proof -
  have "(2 :: int) ^ e_bits E \<le> 2 ^ 30" using bits_bound by (intro power_increasing) auto
  then have "int32 (2 ^ e_bits E) = 2 ^ e_bits E"
    by (intro int32_id) (auto intro: order_trans[of _ 0])
  then show ?thesis by (simp add: block_size_def shiftl_mult)
qed

lemma block_size_pos: "0 < block_size E"
  by (simp add: block_size_eq)

lemma sdata_put:
  "sdata E (put_sblock E k b s) = (sdata E s)(k := if sb_data b \<noteq> [] then sb_data b else disk_block E (c_disk s) k)"
  by (auto simp: sdata_def fun_eq_iff split: option.split)

lemma sdata_update [simp]:
  "sdata E (s\<lparr>c_db := d\<rparr>) = sdata E s" "sdata E (s\<lparr>c_next := i\<rparr>) = sdata E s"
  "sdata E (s\<lparr>c_fi := fi\<rparr>) = sdata E s" "sdata E (put_fblock E n fb s) = sdata E s"
  by (simp_all add: sdata_def fun_eq_iff split: option.split)

lemma consistent_update [simp]:
  "consistent E (put_fblock E n fb s) = consistent E s" "consistent E (s\<lparr>c_next := i\<rparr>) = consistent E s"
  by (simp_all add: consistent_def cache_ok_def)

lemma quiet_put_fblock: "consistent E s \<Longrightarrow> quiet E s (put_fblock E n fb s)"
  by (simp add: quiet_def)

lemma quiet_next: "consistent E s \<Longrightarrow> quiet E s (s\<lparr>c_next := i\<rparr>)"
  by (simp add: quiet_def)

lemma quiet_put_sblock:
  assumes c: "consistent E s" and ok: "cache_ok E s k b"
    and d: "(if sb_data b \<noteq> [] then sb_data b else disk_block E (c_disk s) k) = sdata E s k"
    and o: "\<And>b'. cached E s k = Some b' \<Longrightarrow> sb_oid b = sb_oid b'"
  shows "quiet E s (put_sblock E k b s)"
proof -
  have sd: "sdata E (put_sblock E k b s) = sdata E s" by (auto simp: sdata_put d)
  have "consistent E (put_sblock E k b s)"
    using c ok by (auto simp: consistent_def sd cache_ok_def)
  then show ?thesis using o by (auto simp: quiet_def sd)
qed

subsection \<open>The locked item of a block\<close>

lemma quiet_ensure_fblock_new:
  assumes "consistent E s" and "fblock_at E s n = None" and "loadable E s n"
  shows "returns (ensure_fblock E n) s (\<lambda>u t. \<exists>b.
      load_result (tabs s) (ino s) ((new_block_info n)\<lparr>bi_locked := True\<rparr>) = (b, u)
    \<and> quiet E s t \<and> cached E t = cached E s \<and> fblock_at E t = (fblock_at E s)(n \<mapsto> b\<lparr>bi_loaded := True\<rparr>))"
  apply (simp add: ensure_fblock_def wp_simps assms)
  apply (rule returns_weaken[OF loadFileBlock_ok])
  using assms
    apply (auto simp: wp_simps consistentD(3) loadable_def new_block_info_def quietD(6)
      intro!: quiet_trans[OF quiet_put_fblock quiet_put_fblock] split: prod.splits)
  done

lemma ensure_fblock_known:
  assumes "consistent E s" and "fblock_at E s n = Some b" and "\<not> bi_locked b"
  shows "returns (ensure_fblock E n) s (\<lambda>u t. u = 0
    \<and> quiet E s t \<and> cached E t = cached E s \<and> fblock_at E t = (fblock_at E s)(n \<mapsto> b\<lparr>bi_locked := True\<rparr>))"
  using assms by (simp add: ensure_fblock_def wp_simps quiet_put_fblock)

lemma returns_new_object [wp_simps]:
  "returns new_object s P = P (c_next s, c_now s) (s\<lparr>c_next := Suc (c_next s)\<rparr>)"
  by (simp add: returns_def new_object_def)

lemma ensure_sblock_ok:
  assumes c: "consistent E s" and b: "fblock_at E s n = Some b" and r: "r \<in> set (t_hashes (tabs s))" "bi_snum b = hr_id r"
    and u: "u = hr_use r \<or> u = 0 \<and> cached E s (hr_id r) \<noteq> None"
  shows "returns (ensure_sblock E n u) s (\<lambda>_ t. quiet E s t \<and> (\<exists>sb. cached E t (hr_id r) = Some sb
    \<and> fblock_at E t = (fblock_at E s)(n \<mapsto> b\<lparr>bi_sblock := Some (hr_id r, sb_oid sb)\<rparr>)))"
proof (cases "cached E s (hr_id r)")
  case (Some sb)
  from consistentD(5)[OF c Some] obtain r' where r': "r' \<in> set (t_hashes (tabs s))" "hr_id r' = hr_id r" "hr_use r' = sb_use sb"
    by (auto simp: cache_ok_def)
  with row_eq_id[OF consistentD(1)[OF c] r'(1) r(1)] have "hr_use r = sb_use sb" by simp
  with u have "u = 0 \<or> sb_use sb = u" by auto
  with Some show ?thesis
    by (auto simp: ensure_sblock_def wp_simps b r c intro!: quiet_trans[OF quiet_next quiet_put_fblock])
next
  case None
  with u have u: "u = hr_use r" by simp
  let ?s = "s\<lparr>c_next := Suc (c_next s)\<rparr>"
  let ?sb = "new_storage_block (c_next s) (c_now s) (hr_id r)\<lparr>sb_use := u, sb_hash := bi_hash b, sb_loaded := True\<rparr>"
  have "cache_ok E ?s (hr_id r) ?sb"
    using r(1) by (auto simp: cache_ok_def new_storage_block_def u)
  moreover have "disk_block E (c_disk s) (hr_id r) = sdata E s (hr_id r)"
    by (simp add: sdata_def None)
  ultimately have "quiet E ?s (put_sblock E (hr_id r) ?sb ?s)"
    using c None by (intro quiet_put_sblock) (auto simp: new_storage_block_def)
  then have "quiet E s (put_sblock E (hr_id r) ?sb ?s)"
    using quiet_trans[OF quiet_next[OF c]] by blast
  with None show ?thesis
    by (auto simp: ensure_sblock_def wp_simps b r c Let_def quietD(6) intro!: quiet_trans[OF _ quiet_put_fblock])
qed

end

text \<open>What a caller of \<open>_getLockedFileBlock\<close> gets: the locked item knows the block, and
  refers to its storage block when the file has the block.\<close>

definition locked_item :: "('fm, 'sm) env \<Rightarrow> ('fm, 'sm) cstate \<Rightarrow> int \<Rightarrow> ('fm, 'sm) cstate \<Rightarrow> bool" where
  "locked_item E s n t \<longleftrightarrow> quiet E s t
   \<and> (\<exists>b. fblock_at E t = (fblock_at E s)(n \<mapsto> b) \<and> bi_locked b \<and> knows E t n b
        \<and> (file_block (tabs s) (ino s) n \<noteq> None \<longrightarrow> bi_sblock b \<noteq> None))"

context dedup_env
begin

lemma knows_lock:
  assumes "knows E s n b" and "bi_sblock b \<noteq> None" and "file_block (tabs s) (ino s) n = Some h"
  obtains r sb where "lock_weak E (bi_sblock b) s = Some sb" and "cached E s (hr_id r) = Some sb"
    "stSelectBlockHash h (tabs s) = Some r"
  using assms by (auto simp: knows_def lock_weak_def split: option.splits if_splits)

lemma knows_flags [simp]:
  "knows E s n (b\<lparr>bi_locked := x\<rparr>) = knows E s n b" "knows E s n (b\<lparr>bi_loaded := x\<rparr>) = knows E s n b"
  by (simp_all add: knows_def cong: option.case_cong)

lemma attach_ok:
  assumes q: "quiet E s t" and fb: "fblock_at E t = (fblock_at E s)(n \<mapsto> b)" and b: "bi_locked b" "bi_num b = n"
    and none: "file_block (tabs s) (ino s) n = None \<Longrightarrow> bi_empty b \<and> bi_sblock b = None \<and> bi_hash b = None"
    and some: "\<And>h. file_block (tabs s) (ino s) n = Some h \<Longrightarrow> \<exists>r. stSelectBlockHash h (tabs s) = Some r
        \<and> bi_hash b = Some h \<and> bi_snum b = hr_id r
        \<and> (if bi_sblock b = None then \<not> bi_empty b \<and> (u = hr_use r \<or> u = 0 \<and> cached E t (hr_id r) \<noteq> None)
           else (\<exists>sb. cached E t (hr_id r) = Some sb \<and> bi_sblock b = Some (hr_id r, sb_oid sb)))"
  shows "returns (bnd (deref_fblock E n) (\<lambda>x. if bi_empty x then ret () else
        bnd (gets (lock_weak E (bi_sblock x))) (\<lambda>alive. case alive of Some _ \<Rightarrow> ret () | None \<Rightarrow> ensure_sblock E n u))) t
        (\<lambda>_. locked_item E s n)"
proof (cases "file_block (tabs s) (ino s) n")
  case None
  with none q fb b show ?thesis
    by (auto simp: wp_simps locked_item_def knows_def quietD[OF q])
next
  case (Some h)
  from some[OF Some] obtain r where r: "stSelectBlockHash h (tabs s) = Some r" "bi_hash b = Some h" "bi_snum b = hr_id r"
    and sb: "if bi_sblock b = None then \<not> bi_empty b \<and> (u = hr_use r \<or> u = 0 \<and> cached E t (hr_id r) \<noteq> None)
           else (\<exists>sb. cached E t (hr_id r) = Some sb \<and> bi_sblock b = Some (hr_id r, sb_oid sb))" by blast
  have mem: "r \<in> set (t_hashes (tabs t))"
    using r(1) select_Some consistentD(1)[OF quietD(6)[OF q]] quietD(1)[OF q] by metis
  show ?thesis
  proof (cases "bi_sblock b = None")
    case True
    with sb have u: "\<not> bi_empty b" "u = hr_use r \<or> u = 0 \<and> cached E t (hr_id r) \<noteq> None" by auto
    have "returns (ensure_sblock E n u) t (\<lambda>_ t'. locked_item E s n t')"
    proof (rule returns_weaken[OF ensure_sblock_ok[OF quietD(6)[OF q] _ mem r(3) u(2)]])
      show "fblock_at E t n = Some b" by (simp add: fb)
      fix t' assume "quiet E t t' \<and> (\<exists>sb. cached E t' (hr_id r) = Some sb
          \<and> fblock_at E t' = (fblock_at E t)(n \<mapsto> b\<lparr>bi_sblock := Some (hr_id r, sb_oid sb)\<rparr>))"
      with q b r Some show "locked_item E s n t'"
        by (auto simp: locked_item_def knows_def fb quietD intro: quiet_trans)
    qed
    with True u show ?thesis by (simp add: wp_simps fb lock_weak_def)
  next
    case False
    with sb obtain sb' where "cached E t (hr_id r) = Some sb'" "bi_sblock b = Some (hr_id r, sb_oid sb')" by auto
    with q b r Some show ?thesis
      by (auto simp: wp_simps locked_item_def knows_def fb quietD lock_weak_def)
  qed
qed

lemma getLockedFileBlock_ok:
  assumes c: "consistent E s" and coh: "coherent E s n" and ld: "loadable E s n"
  shows "returns (getLockedFileBlock E n) s (\<lambda>_ t. locked_item E s n t)"
proof (cases "fblock_at E s n")
  case (Some b)
  with coh have k: "knows E s n b" and nl: "\<not> bi_locked b" by (auto simp: coherent_def)
  show ?thesis
    unfolding getLockedFileBlock_def returns_bnd[of "ensure_fblock E n"]
    apply (rule returns_weaken[OF ensure_fblock_known[OF c Some nl]], elim conjE)
         apply (rule attach_ok)
              apply (use k in \<open>auto simp: knows_def\<close>)
    done
next
  case None
  show ?thesis
    unfolding getLockedFileBlock_def returns_bnd[of "ensure_fblock E n"]
    apply (rule returns_weaken[OF quiet_ensure_fblock_new[OF c None ld]], elim conjE exE)
         apply (rule attach_ok)
              apply (auto simp: load_result_def new_block_info_def split: option.splits elim: file_row[OF c])
    done
qed

end

text \<open>\<open>_getStorageBlock\<close>: no storage block for a hole, else the one of the block's row.\<close>

definition seen :: "('fm, 'sm) env \<Rightarrow> ('fm, 'sm) cstate \<Rightarrow> ('fm, 'sm) cstate \<Rightarrow> bool" where
  "seen E s t \<longleftrightarrow> quiet E s t \<and> (\<forall>m. coherent E s m \<longrightarrow> coherent E t m)"

context dedup_env
begin

lemma seen_trans: "seen E s t \<Longrightarrow> seen E t u \<Longrightarrow> seen E s u"
  unfolding seen_def using quiet_trans by blast

lemma locked_item_unlock:
  assumes "locked_item E s n t" and "fblock_at E t n = Some b"
  shows "seen E s (put_fblock E n (b\<lparr>bi_locked := False\<rparr>) t)"
proof -
  from assms have q: "quiet E s t" and fb: "fblock_at E t = (fblock_at E s)(n \<mapsto> b)" and k: "knows E t n b"
    by (auto simp: locked_item_def)
  let ?t = "put_fblock E n (b\<lparr>bi_locked := False\<rparr>) t"
  have q': "quiet E t ?t" by (rule quiet_put_fblock[OF quietD(6)[OF q]])
  have "coherent E ?t m" if "coherent E s m" for m
  proof (cases "m = n")
    case True
    with knows_quiet[OF q' k] show ?thesis by (simp add: coherent_def)
  next
    case False
    with that fb show ?thesis by (intro coherent_quiet[OF quiet_trans[OF q q']]) auto
  qed
  with quiet_trans[OF q q'] show ?thesis by (simp add: seen_def)
qed

lemma cached_seen:
  assumes c: "consistent E s" and k: "cached E s k = Some b"
  shows "seen E s (put_sblock E k (sb_access now b) s)"
proof -
  have "quiet E s (put_sblock E k (sb_access now b) s)"
    using consistentD(5)[OF c k] k
    by (intro quiet_put_sblock[OF c]) (auto simp: cache_ok_def sb_access_def sdata_def)
  then show ?thesis by (auto simp: seen_def intro: coherent_quiet)
qed

lemma seen_new_object: "consistent E s \<Longrightarrow> seen E s (s\<lparr>c_next := i\<rparr>)"
  using quiet_next coherent_quiet by (fastforce simp: seen_def)

lemma getStorageBlock_ok:
  assumes c: "consistent E s" and coh: "coherent E s n" and ld: "loadable E s n"
  shows "returns (getStorageBlock E n) s (\<lambda>res t. seen E s t
    \<and> (case file_block (tabs s) (ino s) n of
        None \<Rightarrow> res = None
      | Some h \<Rightarrow> (\<exists>r sb. res = Some (hr_id r) \<and> r \<in> set (t_hashes (tabs s)) \<and> stSelectBlockHash h (tabs s) = Some r
          \<and> cached E t (hr_id r) = Some sb)))"
  unfolding getStorageBlock_def returns_sqn[of "getLockedFileBlock E n"]
proof (rule returns_weaken[OF getLockedFileBlock_ok[OF assms]])
  fix t assume L: "locked_item E s n t"
  then obtain b where fb: "fblock_at E t n = Some b" and k: "knows E t n b" and q: "quiet E s t"
    and sb: "file_block (tabs s) (ino s) n \<noteq> None \<longrightarrow> bi_sblock b \<noteq> None"
    by (auto simp: locked_item_def)
  note S = locked_item_unlock[OF L fb]
  let ?t = "put_fblock E n (b\<lparr>bi_locked := False\<rparr>) t"
  have ct: "consistent E ?t" using quietD(6)[OF q] by simp
  show "returns (bnd (deref_fblock E n) (\<lambda>fblock. bnd (gets (lock_weak E (bi_sblock fblock))) (\<lambda>res.
      sqn (unlock_fblock E n) (case res of None \<Rightarrow> sqn new_object (ret None)
       | Some b \<Rightarrow> bnd (gets c_now) (\<lambda>now. sqn (set_sblock E (sb_num b) (sb_access now)) (ret (Some (sb_num b)))))))) t
    (\<lambda>res t. seen E s t \<and> (case file_block (tabs s) (ino s) n of None \<Rightarrow> res = None
      | Some h \<Rightarrow> (\<exists>r sb. res = Some (hr_id r) \<and> r \<in> set (t_hashes (tabs s)) \<and> stSelectBlockHash h (tabs s) = Some r
          \<and> cached E t (hr_id r) = Some sb)))"
  proof (cases "file_block (tabs s) (ino s) n")
    case None
    with k have "bi_sblock b = None" by (simp add: knows_def quietD[OF q])
    with None fb ct show ?thesis
      by (auto simp: wp_simps unlock_fblock_def lock_weak_def intro: seen_trans[OF S seen_new_object])
  next
    case (Some h)
    with sb have "bi_sblock b \<noteq> None" by simp
    from knows_lock[OF k this, unfolded quietD[OF q], OF Some] obtain r x where
      *: "lock_weak E (bi_sblock b) t = Some x" "cached E t (hr_id r) = Some x" "stSelectBlockHash h (tabs s) = Some r" .
    have "r \<in> set (t_hashes (tabs s))" using * select_Some consistentD(1)[OF c] by blast
    moreover have "sb_num x = hr_id r" using consistentD(5)[OF quietD(6)[OF q] *(2)] by (simp add: cache_ok_def)
    ultimately show ?thesis using * Some fb ct
      by (auto simp: wp_simps unlock_fblock_def intro!: seen_trans[OF S cached_seen])
  qed
qed

end

subsection \<open>Reading\<close>

definition byte_at :: "('fm, 'sm) env \<Rightarrow> ('fm, 'sm) cstate \<Rightarrow> int \<Rightarrow> int \<Rightarrow> byte" where
  "byte_at E s f i = stored E s f (drop_bit (e_bits E) i) ! nat (take_bit (e_bits E) i)"

text \<open>The bytes of file \<open>f\<close> from \<open>off\<close> on.\<close>

definition file_bytes :: "('fm, 'sm) env \<Rightarrow> ('fm, 'sm) cstate \<Rightarrow> int \<Rightarrow> int \<Rightarrow> int \<Rightarrow> byte list" where
  "file_bytes E s f off len = map (byte_at E s f) [off..off + len - 1]"

lemma length_file_bytes [simp]: "length (file_bytes E s f off len) = nat len"
  by (simp add: file_bytes_def)

lemma file_bytes_append:
  "0 \<le> a \<Longrightarrow> 0 \<le> b \<Longrightarrow> file_bytes E s f off (a + b) = file_bytes E s f off a @ file_bytes E s f (off + a) b"
proof -
  assume "0 \<le> a" "0 \<le> b"
  then have "[off..off + (a + b) - 1] = [off..off + a - 1] @ [off + a..off + (a + b) - 1]"
    using upto_split2[of off "off + a - 1" "off + (a + b) - 1"]
    by (cases "b = 0"; cases "a = 0") (auto simp: algebra_simps)
  then show ?thesis by (simp add: file_bytes_def algebra_simps)
qed

lemma file_bytes_empty [simp]: "len \<le> 0 \<Longrightarrow> file_bytes E s f off len = []"
  by (simp add: file_bytes_def)

lemma file_bytes_quiet: "quiet E s t \<Longrightarrow> file_bytes E t = file_bytes E s"
  by (simp add: file_bytes_def byte_at_def quietD fun_eq_iff)

context dedup_env
begin

lemma block_split:
  "0 \<le> off \<Longrightarrow> off < block_size E \<Longrightarrow> drop_bit (e_bits E) (n * block_size E + off) = n"
  "0 \<le> off \<Longrightarrow> off < block_size E \<Longrightarrow> take_bit (e_bits E) (n * block_size E + off) = off"
  by (simp_all add: block_size_eq drop_bit_eq_div take_bit_eq_mod)

lemma block_join: "drop_bit (e_bits E) i * block_size E + take_bit (e_bits E) i = i"
  unfolding block_size_eq drop_bit_eq_div take_bit_eq_mod by (rule div_mult_mod_eq)

lemma le_drop_bit: "n * block_size E \<le> i \<Longrightarrow> n \<le> drop_bit (e_bits E) i"
  using zdiv_mono1[of "n * block_size E" i "block_size E"] block_size_pos
  by (simp add: drop_bit_eq_div block_size_eq)

lemma take_bit_bound: "0 \<le> take_bit (e_bits E) (i :: int)" "take_bit (e_bits E) (i :: int) < block_size E"
  by (simp_all add: block_size_eq)

lemma slice_stored:
  assumes c: "consistent E s" and "0 \<le> off" "0 \<le> len" "off + len \<le> block_size E"
  shows "take (nat len) (drop (nat off) (stored E s f n)) = file_bytes E s f (n * block_size E + off) len"
proof (rule nth_equalityI)
  have L: "int (length (stored E s f n)) = block_size E"
    using length_stored[OF c] block_size_pos by simp
  then show "length (take (nat len) (drop (nat off) (stored E s f n))) =
      length (file_bytes E s f (n * block_size E + off) len)"
    using assms by simp
  fix i assume i: "i < length (take (nat len) (drop (nat off) (stored E s f n)))"
  with L assms have "off + int i < block_size E" "i < nat len" by auto
  moreover from this(2) have "nat (off + int i) = nat off + i" using assms by simp
  ultimately show "take (nat len) (drop (nat off) (stored E s f n)) ! i =
      file_bytes E s f (n * block_size E + off) len ! i"
    using L assms i block_split[of "off + int i" n]
    by (simp add: file_bytes_def byte_at_def add.assoc)
qed

lemma file_bytes_hole:
  assumes "file_block (tabs s) f n = None" and "0 \<le> off" "0 \<le> len" "off + len \<le> block_size E"
  shows "file_bytes E s f (n * block_size E + off) len = zeros len"
proof (rule nth_equalityI)
  fix i assume "i < length (file_bytes E s f (n * block_size E + off) len)"
  then have i: "i < nat len" and "off + int i < block_size E" "0 \<le> off + int i" using assms by auto
  with assms block_split[of "off + int i" n] i show "file_bytes E s f (n * block_size E + off) len ! i = zeros len ! i"
    by (simp add: file_bytes_def byte_at_def stored_None add.assoc zeros_def nat_less_iff)
qed simp

lemma populate_ok:
  assumes c: "consistent E s" and b: "cached E s k = Some b"
  shows "returns (populateStorageBlock E k) s (\<lambda>_ t. seen E s t \<and> fblock_at E t = fblock_at E s
    \<and> (\<exists>b'. cached E t = (cached E s)(k \<mapsto> b') \<and> sb_data b' = sdata E s k \<and> b' = b\<lparr>sb_data := sb_data b'\<rparr>))"
proof -
  from consistentD(5)[OF c b] obtain r where r: "r \<in> set (t_hashes (tabs s))" "hr_id r = k" and num: "sb_num b = k"
    and dirty: "sb_data b = [] \<Longrightarrow> \<not> sb_dirty b" and ok: "cache_ok E s k b" by (auto simp: cache_ok_def split: if_splits)
  have "k \<noteq> 0" using wf_rowsD(3)[OF consistentD(1)[OF c] r(1)] r(2) by simp
  have len: "int (length (sdata E s k)) = block_size E" using consistentD(6)[OF c r(1)] r(2) by simp
  show ?thesis
  proof (cases "sb_data b = []")
    case False
    then have "sdata E s k = sb_data b" by (simp add: sdata_def b)
    with False b c show ?thesis
      by (auto simp: populateStorageBlock_def wp_simps num quiet_refl seen_def fun_upd_idem intro!: exI[of _ b])
  next
    case True
    then have sd: "sdata E s k = disk_block E (c_disk s) k" by (simp add: sdata_def b)
    let ?b = "b\<lparr>sb_data := sdata E s k\<rparr>"
    have ov: "overlay 0 (sdata E s k) (zeros (block_size E)) = sdata E s k"
      using len by (intro overlay_all) simp
    have "sdata E s k \<noteq> []" using len block_size_pos by auto
    then have "quiet E s (put_sblock E k ?b s)"
      using ok b True by (intro quiet_put_sblock[OF c]) (auto simp: cache_ok_def len[unfolded sd] sd)
    then have "seen E s (put_sblock E k ?b s)"
      by (auto simp: seen_def intro: coherent_quiet)
    then show ?thesis using len
      by (auto simp: populateStorageBlock_def wp_simps b num True \<open>k \<noteq> 0\<close> sd[symmetric] ov)
  qed
qed

lemma read_chunk_ok:
  assumes c: "consistent E s" and coh: "coherent E s n" and ld: "loadable E s n"
    and r: "0 \<le> off" "0 \<le> len" "off + len \<le> block_size E"
  shows "returns (read_chunk E n off len) s (\<lambda>bytes t. seen E s t
    \<and> bytes = file_bytes E s (ino s) (n * block_size E + off) len)"
  unfolding read_chunk_def returns_bnd[of "getStorageBlock E n"]
proof (rule returns_weaken[OF getStorageBlock_ok[OF c coh ld]], elim conjE)
  fix res t assume S: "seen E s t"
  assume res: "case file_block (tabs s) (ino s) n of None \<Rightarrow> res = None
      | Some h \<Rightarrow> \<exists>r sb. res = Some (hr_id r) \<and> r \<in> set (t_hashes (tabs s))
          \<and> stSelectBlockHash h (tabs s) = Some r \<and> cached E t (hr_id r) = Some sb"
  show "returns (case res of None \<Rightarrow> memset_zero len
      | Some k \<Rightarrow> bnd (deref_sblock E k) (\<lambda>b. if sb_num b \<noteq> 0 then
          sqn (populateStorageBlock E k) (bnd (deref_sblock E k) (\<lambda>b. memcpy_from (sb_data b) off len))
        else memset_zero len)) t
      (\<lambda>bytes t. seen E s t \<and> bytes = file_bytes E s (ino s) (n * block_size E + off) len)"
  proof (cases "file_block (tabs s) (ino s) n")
    case None
    with res S r file_bytes_hole[OF None r] show ?thesis by (simp add: memset_zero_def wp_simps)
  next
    case (Some h)
    with res obtain r' sb where r': "res = Some (hr_id r')" "r' \<in> set (t_hashes (tabs s))"
        "stSelectBlockHash h (tabs s) = Some r'" "cached E t (hr_id r') = Some sb" by auto
    have q: "quiet E s t" using S by (simp add: seen_def)
    have num: "sb_num sb \<noteq> 0"
      using consistentD(5)[OF quietD(6)[OF q] r'(4)] wf_rowsD(3)[OF consistentD(1)[OF c] r'(2)]
      by (simp add: cache_ok_def)
    have st: "stored E s (ino s) n = sdata E t (hr_id r')"
      using Some r' by (simp add: stored_Some quietD[OF q])
    have L: "int (length (sdata E t (hr_id r'))) = block_size E"
      using consistentD(6)[OF c r'(2)] by (simp add: quietD[OF q])
    have sl: "take (nat len) (drop (nat off) (sdata E t (hr_id r'))) =
        file_bytes E s (ino s) (n * block_size E + off) len"
      using slice_stored[OF c r, of "ino s" n] st by simp
    have "returns (populateStorageBlock E (hr_id r')) t (\<lambda>_ u. returns (bnd (deref_sblock E (hr_id r'))
        (\<lambda>b. memcpy_from (sb_data b) off len)) u
        (\<lambda>bytes t. seen E s t \<and> bytes = file_bytes E s (ino s) (n * block_size E + off) len))"
      by (rule returns_weaken[OF populate_ok[OF quietD(6)[OF q] r'(4)]])
        (use r L sl S in \<open>auto simp: wp_simps memcpy_from_def intro: seen_trans\<close>)
    with r' num show ?thesis by (simp add: wp_simps)
  qed
qed

lemma loadable_seen: "seen E s t \<Longrightarrow> loadable E t n = loadable E s n"
  unfolding seen_def using quietD(8)[of E s t] by simp

lemma read_loop_ok:
  assumes "consistent E s" and "\<And>n. cur < n \<Longrightarrow> n * block_size E < off + sz \<Longrightarrow> coherent E s n \<and> loadable E s n"
    and "off + fc = (cur + 1) * block_size E \<or> sz \<le> fc"
    and "cur * block_size E < off + sz \<or> sz \<le> fc" and "endB = drop_bit (e_bits E) (off + sz)"
    and "0 \<le> fc" "sz - fc \<le> int rounds" and "buf = file_bytes E s (ino s) off fc"
  shows "returns (read_loop E sz endB rounds fc cur buf) s (\<lambda>(cnt, buf) t. seen E s t
    \<and> cnt = max fc sz \<and> buf = file_bytes E s (ino s) off cnt)"
  using assms
proof (induction rounds arbitrary: s fc cur buf)
  case 0
  then show ?case by (simp add: wp_simps seen_def quiet_refl)
next
  case (Suc rounds)
  show ?case
  proof (cases "fc < sz")
    case False
    with Suc show ?thesis by (simp add: wp_simps seen_def quiet_refl)
  next
    case True
    let ?chunk = "min (block_size E) (sz - fc)"
    have "block_size E \<le> 2 ^ 30" using bits_bound unfolding block_size_eq by (intro power_increasing) auto
    with True block_size_pos have ch: "int32 ?chunk = ?chunk" "0 < ?chunk" by (auto intro!: int32_id)
    from True Suc.prems have pos: "off + fc = (cur + 1) * block_size E" by simp
    with True Suc.prems(2) have C: "coherent E s (cur + 1)" "loadable E s (cur + 1)" by auto
    have "cur * block_size E < off + sz" using Suc.prems True by simp
    then have "cur \<le> endB" unfolding Suc.prems(5) by (intro le_drop_bit) simp
    moreover have "returns (read_chunk E (cur + 1) 0 ?chunk) s (\<lambda>bytes t.
        returns (read_loop E sz endB rounds (fc + ?chunk) (cur + 1) (buf @ bytes)) t
        (\<lambda>(cnt, buf) t. seen E s t \<and> cnt = max fc sz \<and> buf = file_bytes E s (ino s) off cnt))"
    proof (rule returns_weaken[OF read_chunk_ok[OF Suc.prems(1) C]])
      fix bytes t assume A: "seen E s t \<and> bytes = file_bytes E s (ino s) ((cur + 1) * block_size E + 0) ?chunk"
      then have q: "quiet E s t" and S: "seen E s t" by (auto simp: seen_def)
      show "returns (read_loop E sz endB rounds (fc + ?chunk) (cur + 1) (buf @ bytes)) t
          (\<lambda>(cnt, buf) t. seen E s t \<and> cnt = max fc sz \<and> buf = file_bytes E s (ino s) off cnt)"
      proof (rule returns_weaken[OF Suc.IH])
        show "coherent E t n \<and> loadable E t n" if "cur + 1 < n" "n * block_size E < off + sz" for n
          using S Suc.prems(2)[of n] that by (simp add: seen_def loadable_seen)
        show "buf @ bytes = file_bytes E t (ino t) off (fc + ?chunk)"
          using A Suc.prems ch pos file_bytes_append[of fc ?chunk E s "ino s" off]
          by (simp add: file_bytes_quiet[OF q] quietD[OF q])
      qed (use Suc.prems S True pos ch quietD(6)[OF q] in
          \<open>auto simp: file_bytes_quiet[OF q] quietD[OF q] algebra_simps min_def max_def intro: seen_trans\<close>)
    qed (use ch in auto)
    ultimately show ?thesis using True by (simp add: wp_simps ch Let_def)
  qed
qed

lemma block_size_le: "block_size E \<le> 2 ^ 30"
  using bits_bound unfolding block_size_eq by (intro power_increasing) auto

lemma int32_small: "0 \<le> x \<Longrightarrow> x \<le> block_size E \<Longrightarrow> int32 x = x"
  using block_size_le by (intro int32_id) auto

lemma first_chunk:
  fixes off :: int
  defines "n \<equiv> drop_bit (e_bits E) off"
  shows "int32 (off - push_bit (e_bits E) n) = take_bit (e_bits E) off" "n * block_size E + take_bit (e_bits E) off = off"
proof -
  show *: "n * block_size E + take_bit (e_bits E) off = off" unfolding n_def by (rule block_join)
  then have "off - push_bit (e_bits E) n = take_bit (e_bits E) off"
    by (simp add: shiftl_mult block_size_eq[symmetric])
  then show "int32 (off - push_bit (e_bits E) n) = take_bit (e_bits E) off"
    using take_bit_bound[of off] by (simp add: int32_small)
qed

lemma readBuf_ok:
  assumes c: "consistent E s" and off: "0 \<le> off" "off \<le> fsize s" and sz: "0 \<le> sz"
    and blocks: "\<And>n. drop_bit (e_bits E) off \<le> n \<Longrightarrow> n = drop_bit (e_bits E) off \<or> n * block_size E < fsize s \<Longrightarrow>
      coherent E s n \<and> loadable E s n"
  shows "returns (readBuf E sz off) s (\<lambda>(cnt, buf) t. seen E s t
    \<and> cnt = min sz (fsize s - off) \<and> buf = file_bytes E s (ino s) off cnt)"
proof -
  let ?sz = "min sz (fsize s - off)" and ?n = "drop_bit (e_bits E) off" and ?o = "take_bit (e_bits E) off"
  let ?chunk = "min ?sz (block_size E - ?o)"
  have szeq: "(if sz + off > fsize s then fsize s - off else sz) = ?sz" by auto
  have o: "0 \<le> ?o" "?o < block_size E" by (rule take_bit_bound)+
  have ch2: "0 \<le> ?chunk" "?chunk \<le> block_size E" using sz off o by (simp_all add: min_le_iff_disj)
  then have ch: "int32 ?chunk = ?chunk" "0 \<le> ?chunk" by (auto intro: int32_small)
  have "returns (read_chunk E ?n ?o ?chunk) s (\<lambda>bytes t.
      returns (read_loop E ?sz (drop_bit (e_bits E) (off + ?sz)) (nat ?sz) ?chunk ?n bytes) t
      (\<lambda>(cnt, buf) t. seen E s t \<and> cnt = ?sz \<and> buf = file_bytes E s (ino s) off cnt))"
  proof (rule returns_weaken[OF read_chunk_ok[OF c]])
    fix bytes t assume A: "seen E s t \<and> bytes = file_bytes E s (ino s) (?n * block_size E + ?o) ?chunk"
    then have q: "quiet E s t" and S: "seen E s t" by (auto simp: seen_def)
    show "returns (read_loop E ?sz (drop_bit (e_bits E) (off + ?sz)) (nat ?sz) ?chunk ?n bytes) t
      (\<lambda>(cnt, buf) t. seen E s t \<and> cnt = ?sz \<and> buf = file_bytes E s (ino s) off cnt)"
    proof (rule returns_weaken[OF read_loop_ok[of t ?n off ?sz ?chunk]])
      show "coherent E t m \<and> loadable E t m" if "?n < m" "m * block_size E < off + ?sz" for m
        using S blocks[of m] that by (auto simp: seen_def loadable_seen)
      show "off + ?chunk = (?n + 1) * block_size E \<or> ?sz \<le> ?chunk"
        using first_chunk(2)[of off] by (auto simp: algebra_simps min_def)
      show "?n * block_size E < off + ?sz \<or> ?sz \<le> ?chunk"
      proof (cases "?sz \<le> 0")
        case True
        with o show ?thesis by (intro disjI2) linarith
      next
        case False
        with first_chunk(2)[of off] o show ?thesis by (intro disjI1) linarith
      qed
    qed (use A S ch first_chunk(2)[of off] quietD(6)[OF q] sz off in
        \<open>auto simp: file_bytes_quiet[OF q] quietD[OF q] intro: seen_trans\<close>)
  qed (use blocks[of ?n] o ch in auto)
  then show ?thesis
    by (simp add: readBuf_def wp_simps Let_def szeq first_chunk(1) ch)
qed

end

context dedup_env
begin

lemma disk_block_alt: "disk_block E disk k = take (nat (block_size E)) (drop (nat (k * block_size E)) disk)"
  by (simp add: disk_block_def shiftl_mult block_size_eq)

end

subsection \<open>Properties\<close>

text \<open>A state for the witnesses, with blocks of 16 bytes: file 7 has 20 bytes, its block 0 is
  stored in block 1 of the storage file, its block 1 is a hole; nothing is cached.\<close>

definition demo_data :: "byte list" where "demo_data = replicate 16 65"

definition content_state :: "((int, block_info) RBT.rbt, (int, storage_block) RBT.rbt) cstate" where
  "content_state = demo_state\<lparr>
     c_db := init_db (demo_tables\<lparr>
       t_blocks := [\<lparr>br_id = 1, br_file = 7, br_offset = 0, br_hash = block_hash demo_data\<rparr>],
       t_hashes := [\<lparr>hr_id = 1, hr_hash = block_hash demo_data, hr_use = 1\<rparr>]\<rparr>),
     c_fi := \<lparr>fi_refcount = 1, fi_name = ''/a'', fi_depth = 1, fi_st = demo_stat\<lparr>st_size := 20\<rparr>, fi_blocks = RBT.empty\<rparr>,
     c_cache := RBT.empty, c_disk := replicate 16 0 @ demo_data\<rparr>"

lemma content_sel [simp]:
  "cached (std_env 4) content_state k = None" "fblock_at (std_env 4) content_state n = None"
  "ino content_state = 7" "fsize content_state = 20" "c_disk content_state = replicate 16 0 @ demo_data"
  "c_now content_state = 0" "db_script (c_db content_state) = []" "db_saved (c_db content_state) = None"
  "t_hashes (tabs content_state) = [\<lparr>hr_id = 1, hr_hash = block_hash demo_data, hr_use = 1\<rparr>]"
  "t_blocks (tabs content_state) = [\<lparr>br_id = 1, br_file = 7, br_offset = 0, br_hash = block_hash demo_data\<rparr>]"
  by (simp_all add: content_state_def cached_def fblock_at_def rbt_cds_def init_db_def demo_stat_def demo_state_def)

lemma std4_block_size: "block_size (std_env 4) = 16"
  using dedup_env.block_size_eq[OF dedup_env_std[of 4]] by simp

lemma demo_length: "length demo_data = 16"
  by (simp add: demo_data_def)

lemma content_sdata: "sdata (std_env 4) content_state 1 = demo_data"
  using dedup_env.disk_block_alt[OF dedup_env_std[of 4]] by (simp add: sdata_def std4_block_size demo_length)

lemma content_file_block: "file_block (tabs content_state) f n = (if f = 7 \<and> n = 0 then Some (block_hash demo_data) else None)"
  by (simp add: file_block_def)

lemma content_select: "stSelectBlockHash (block_hash demo_data) (tabs content_state)
    = Some \<lparr>hr_id = 1, hr_hash = block_hash demo_data, hr_use = 1\<rparr>"
  by (simp add: stSelectBlockHash_def)

lemma content_consistent: "consistent (std_env 4) content_state"
  using content_sdata demo_length std4_block_size
  by (simp add: consistent_def wf_rows_def counted_def refs_def)

lemma content_coherent: "coherent (std_env 4) content_state n"
  by (simp add: coherent_def)

lemma content_stored: "stored (std_env 4) content_state f n = (if f = 7 \<and> n = 0 then demo_data else zeros 16)"
  by (simp add: stored_def content_file_block content_select content_sdata std4_block_size)



text \<open>C36: When the storage file cannot deliver a block, \<open>_populateStorageBlock\<close> throws, but it has already
  made room for the data: the block stays in the cache with zeros behind what was read, this is its content
  from then on, and the next access finds it loaded and succeeds.  Nothing else has changed.\<close>

theorem failed_read_becomes_zeros:
  assumes "dedup_env E" and "cached E s k = Some b" and "sb_data b = []" and "sb_num b = k" and "k \<noteq> 0"
    and "int (length (disk_block E (c_disk s) k)) < block_size E"
  shows "\<exists>x t. populateStorageBlock E k s = (Exn x, t) \<and> c_db t = c_db s \<and> c_disk t = c_disk s
    \<and> sdata E t = (sdata E s)(k := disk_block E (c_disk s) k @ zeros (block_size E - int (length (disk_block E (c_disk s) k))))
    \<and> populateStorageBlock E k t = (Ok (), t)"
proof -
  let ?got = "disk_block E (c_disk s) k"
  let ?data = "?got @ zeros (block_size E - int (length ?got))"
  let ?t = "put_sblock E k (b\<lparr>sb_data := ?data\<rparr>) s"
  have data: "overlay 0 ?got (zeros (block_size E)) = ?data" "?data \<noteq> []"
    using assms(6) by (simp_all add: overlay_def zeros_def nat_diff_distrib)
  have "cached E ?t k = Some (b\<lparr>sb_data := ?data\<rparr>)" "sdata E ?t = (sdata E s)(k := ?data)"
    using dedup_env.cached_put[OF assms(1)] dedup_env.sdata_put[OF assms(1)] data(2) by simp_all
  moreover from this(1) data(2) have "populateStorageBlock E k ?t = (Ok (), ?t)"
    by (simp add: populateStorageBlock_def deref_sblock_def run_simps del: append_is_Nil_conv)
  moreover have "populateStorageBlock E k s = (Exn (SystemError ''Error reading block from storage''), ?t)"
    using assms(2-6) data(1) by (simp add: populateStorageBlock_def deref_sblock_def set_sblock_def run_simps)
  moreover have "c_db ?t = c_db s" "c_disk ?t = c_disk s" by (simp_all add: put_sblock_def)
  ultimately show ?thesis by blast
qed

text \<open>The storage file ends before block 3.\<close>

theorem failed_read_becomes_zeros_witness:
  "\<exists>x t. populateStorageBlock (std_env 4) 3 (put_sblock (std_env 4) 3 (new_storage_block 9 0 3) content_state) = (Exn x, t)
    \<and> sdata (std_env 4) t 3 = zeros 16 \<and> populateStorageBlock (std_env 4) 3 t = (Ok (), t)"
proof -
  let ?s = "put_sblock (std_env 4) 3 (new_storage_block 9 0 3) content_state"
  have "c_disk ?s = c_disk content_state" by (simp add: put_sblock_def)
  have gone: "disk_block (std_env 4) (c_disk ?s) 3 = []"
    by (simp add: disk_block_def put_sblock_def content_state_def demo_state_def push_bit_eq_mult demo_length)
  have c: "cached (std_env 4) ?s 3 = Some (new_storage_block 9 0 3)"
    using dedup_env.cached_put[OF dedup_env_std[of 4]] by simp
  have "\<exists>x t. populateStorageBlock (std_env 4) 3 ?s = (Exn x, t) \<and> c_db t = c_db ?s \<and> c_disk t = c_disk ?s
    \<and> sdata (std_env 4) t = (sdata (std_env 4) ?s)(3 := [] @ zeros (block_size (std_env 4) - int (length [])))
    \<and> populateStorageBlock (std_env 4) 3 t = (Ok (), t)"
    using failed_read_becomes_zeros[OF dedup_env_std[of 4] c] gone
    by (simp add: new_storage_block_def std4_block_size)
  then show ?thesis by (auto simp: std4_block_size)
qed

end
