(* ===== verification/Cache_Store.thy ===== *)
theory Cache_Store
  imports Cache_Content
begin

text \<open>
  What writing one block does to the contents of the files. \<open>_writeBlock\<close> has three ways: the hash is
  known; the old block has no other user and is changed in place; a new storage block. The first and
  the third share \<open>moved_to\<close>, the second is \<open>rehashed_to\<close>, and all rest on \<open>wrote_frame\<close>. Then
  \<open>_writeBlockWrapper\<close>, which splices bytes into the old block and writes the result.
\<close>

subsection \<open>Writing one block\<close>

text \<open>What writing \<open>data\<close> to block \<open>n\<close> changes: that block of that file, and nothing else.\<close>

definition wrote :: "('fm, 'sm) env \<Rightarrow> ('fm, 'sm) cstate \<Rightarrow> int \<Rightarrow> byte list \<Rightarrow> ('fm, 'sm) cstate \<Rightarrow> bool" where
  "wrote E s n data t \<longleftrightarrow> consistent E t
   \<and> (\<forall>g m. stored E t g m = (if g = ino s \<and> m = n then data else stored E s g m))
   \<and> (\<forall>g m. file_block (tabs t) g m = (if g = ino s \<and> m = n then Some (block_hash data) else file_block (tabs s) g m))
   \<and> t_files (tabs t) = t_files (tabs s)
   \<and> fi_st (c_fi t) = fi_st (c_fi s) \<and> c_disk t = c_disk s \<and> c_now t = c_now s
   \<and> (\<forall>m. m \<noteq> n \<longrightarrow> coherent E s m \<longrightarrow> coherent E t m)
   \<and> (\<forall>r\<in>set (t_hashes (tabs t)). sdata E t (hr_id r) = data
        \<or> (\<exists>r'\<in>set (t_hashes (tabs s)). sdata E t (hr_id r) = sdata E s (hr_id r')))"

text \<open>The old block: the row and the cached block a locked item refers to.\<close>

definition old_of :: "('fm, 'sm) env \<Rightarrow> ('fm, 'sm) cstate \<Rightarrow> int \<Rightarrow> storage_block option" where
  "old_of E s n =
    (case file_block (tabs s) (ino s) n of
      None \<Rightarrow> None
    | Some h \<Rightarrow> (case stSelectBlockHash h (tabs s) of
        None \<Rightarrow> None
      | Some r \<Rightarrow> cached E s (hr_id r)))"

context dedup_env
begin

lemma lock_old:
  assumes "knows E s n b" and "file_block (tabs s) (ino s) n \<noteq> None \<longrightarrow> bi_sblock b \<noteq> None"
  shows "lock_weak E (bi_sblock b) s = old_of E s n"
proof (cases "file_block (tabs s) (ino s) n")
  case None
  with assms(1) show ?thesis by (simp add: knows_def old_of_def lock_weak_def)
next
  case (Some h)
  with assms(2) have "bi_sblock b \<noteq> None" by simp
  with assms(1) Some show ?thesis by (auto simp: knows_def old_of_def lock_weak_def)
qed

lemma old_of_row:
  assumes c: "consistent E s" and "old_of E s n = Some sb"
  obtains h r where "file_block (tabs s) (ino s) n = Some h" "r \<in> set (t_hashes (tabs s))" "hr_hash r = h"
    "hr_id r = sb_num sb" "hr_use r = sb_use sb" "cached E s (sb_num sb) = Some sb"
proof -
  from assms(2) obtain h r where h: "file_block (tabs s) (ino s) n = Some h" "stSelectBlockHash h (tabs s) = Some r"
      "cached E s (hr_id r) = Some sb"
    by (auto simp: old_of_def split: option.splits)
  then have r: "r \<in> set (t_hashes (tabs s))" "hr_hash r = h" using select_Some[OF consistentD(1)[OF c]] by auto
  from consistentD(5)[OF c h(3)] obtain r' where r': "r' \<in> set (t_hashes (tabs s))" "hr_id r' = hr_id r" "hr_use r' = sb_use sb"
      and num: "sb_num sb = hr_id r" by (auto simp: cache_ok_def)
  with row_eq_id[OF consistentD(1)[OF c] r'(1) r(1)] have "r' = r" by simp
  with h r r' num that show thesis by simp
qed

lemma old_block_of:
  assumes c: "consistent E s" and "knows E s n b"
  shows "old_block (tabs s) (ino s) n (map_option (\<lambda>sb. (sb_num sb, sb_use sb)) (old_of E s n))"
proof (cases "old_of E s n")
  case None
  with assms(2) show ?thesis by (auto simp: old_block_def old_of_def knows_def split: option.splits)
next
  case (Some sb)
  from old_of_row[OF c Some] show ?thesis by (auto simp: old_block_def Some)
qed

end

text \<open>The cached blocks after the call, by what they mean.\<close>

definition moved_block :: "('fm, 'sm) cstate \<Rightarrow> int \<Rightarrow> byte list \<Rightarrow> int \<Rightarrow> storage_block \<Rightarrow> storage_block" where
  "moved_block s n hash k x =
     x\<lparr>sb_use := sb_use x - (if \<exists>r\<in>set (t_hashes (tabs s)). hr_id r = k \<and> file_block (tabs s) (ino s) n = Some (hr_hash r) then 1 else 0)
         + (if \<exists>r\<in>set (t_hashes (tabs s)). hr_id r = k \<and> hr_hash r = hash then 1 else 0)\<rparr>"

context dedup_env
begin

lemma moved_block_sel [simp]:
  "sb_num (moved_block s n hash k x) = sb_num x" "sb_data (moved_block s n hash k x) = sb_data x"
  "sb_dirty (moved_block s n hash k x) = sb_dirty x" "sb_oid (moved_block s n hash k x) = sb_oid x"
  by (simp_all add: moved_block_def)

end

lemma t_files_replace_rows [simp]: "t_files (replace_rows E f n hash old T) = t_files T"
  by (auto simp: replace_rows_def Let_def stmt_defs split: option.split prod.split)

lemma select_moved:
  assumes "t_hashes T' = map g (t_hashes T) @ x" and "\<And>r. hr_hash (g r) = hr_hash r"
    and "stSelectBlockHash h T = Some r"
  shows "stSelectBlockHash h T' = Some (g r)"
proof -
  have "find (\<lambda>r. hr_hash r = h) (map g hs) = map_option g (find (\<lambda>r. hr_hash r = h) hs)" for hs
    by (induction hs) (auto simp: assms(2))
  then show ?thesis using assms(1,3) by (simp add: stSelectBlockHash_def find_append)
qed

context dedup_env
begin
end

text \<open>
  Frame of a write: the new \<open>fileblocks\<close> row is there, and everything but the \<open>hashes\<close> rows and the
  cached blocks is as it was. A \<open>hashes\<close> row is kept when the same hash still names the same storage
  block with the same bytes and the same cached object.
\<close>

definition write_frame :: "('fm, 'sm) env \<Rightarrow> ('fm, 'sm) cstate \<Rightarrow> int \<Rightarrow> byte list \<Rightarrow> ('fm, 'sm) cstate \<Rightarrow> bool" where
  "write_frame E s n data t \<longleftrightarrow> wf_rows (tabs t) \<and> counted (tabs t)
   \<and> (\<forall>g m. file_block (tabs t) g m = (if g = ino s \<and> m = n then Some (block_hash data) else file_block (tabs s) g m))
   \<and> db_script (c_db t) = [] \<and> db_saved (c_db t) = None \<and> t_files (tabs t) = t_files (tabs s)
   \<and> fi_st (c_fi t) = fi_st (c_fi s) \<and> c_disk t = c_disk s \<and> c_now t = c_now s
   \<and> (\<forall>m. m \<noteq> n \<longrightarrow> fblock_at E t m = fblock_at E s m)"

definition keeps_row :: "('fm, 'sm) env \<Rightarrow> ('fm, 'sm) cstate \<Rightarrow> ('fm, 'sm) cstate \<Rightarrow> hash_row \<Rightarrow> bool" where
  "keeps_row E s t r \<longleftrightarrow> (\<exists>r'. stSelectBlockHash (hr_hash r) (tabs t) = Some r' \<and> hr_id r' = hr_id r)
   \<and> sdata E t (hr_id r) = sdata E s (hr_id r)
   \<and> map_option sb_oid (cached E t (hr_id r)) = map_option sb_oid (cached E s (hr_id r))"

lemma write_frameD:
  assumes "write_frame E s n data t"
  shows "wf_rows (tabs t)" "counted (tabs t)"
    "file_block (tabs t) g m = (if g = ino s \<and> m = n then Some (block_hash data) else file_block (tabs s) g m)"
    "db_script (c_db t) = []" "db_saved (c_db t) = None" "t_files (tabs t) = t_files (tabs s)"
    "fi_st (c_fi t) = fi_st (c_fi s)" "c_disk t = c_disk s" "c_now t = c_now s"
    "m \<noteq> n \<Longrightarrow> fblock_at E t m = fblock_at E s m"
  using assms by (simp_all add: write_frame_def)

context dedup_env
begin

lemma stored_frame:
  assumes c: "consistent E s" and F: "write_frame E s n data t"
    and new: "stSelectBlockHash (block_hash data) (tabs t) = Some r0" "sdata E t (hr_id r0) = data"
    and kept: "\<And>g m r. \<not> (g = ino s \<and> m = n) \<Longrightarrow> file_block (tabs s) g m = Some (hr_hash r)
       \<Longrightarrow> r \<in> set (t_hashes (tabs s)) \<Longrightarrow> keeps_row E s t r"
  shows "stored E t g m = (if g = ino s \<and> m = n then data else stored E s g m)"
proof (cases "g = ino s \<and> m = n")
  case True
  with new show ?thesis by (simp add: stored_def write_frameD[OF F])
next
  case False
  then have fb: "file_block (tabs t) g m = file_block (tabs s) g m"
    by (simp only: write_frameD(3)[OF F] if_False)
  have "stored E t g m = stored E s g m"
  proof (cases "file_block (tabs s) g m")
    case (Some h)
    from file_row[OF c this] obtain r where r: "stSelectBlockHash h (tabs s) = Some r"
        "r \<in> set (t_hashes (tabs s))" "hr_hash r = h" .
    from kept[OF False _ r(2)] Some r show ?thesis by (auto simp: stored_def fb keeps_row_def)
  qed (simp add: stored_def fb)
  with False show ?thesis by (simp only: if_False)
qed

lemma coherent_frame:
  assumes c: "consistent E s" and F: "write_frame E s n data t" and "m \<noteq> n" and coh: "coherent E s m"
    and kept: "\<And>r. file_block (tabs s) (ino s) m = Some (hr_hash r) \<Longrightarrow> r \<in> set (t_hashes (tabs s)) \<Longrightarrow> keeps_row E s t r"
  shows "coherent E t m"
proof -
  have "knows E t m b" if b: "knows E s m b" for b
  proof (cases "file_block (tabs s) (ino s) m")
    case None
    with b \<open>m \<noteq> n\<close> show ?thesis by (simp add: knows_def write_frameD[OF F])
  next
    case (Some h)
    with b obtain r sb where r: "stSelectBlockHash h (tabs s) = Some r" "cached E s (hr_id r) = Some sb"
      "bi_hash b = Some h" "bi_snum b = hr_id r" "bi_num b = m"
      "if bi_sblock b = None then \<not> bi_empty b else bi_sblock b = Some (hr_id r, sb_oid sb)"
      by (auto simp: knows_def)
    then have "r \<in> set (t_hashes (tabs s))" "hr_hash r = h" using select_Some[OF consistentD(1)[OF c]] by auto
    with kept[of r] Some r obtain r' sb' where "stSelectBlockHash h (tabs t) = Some r'" "hr_id r' = hr_id r"
        "cached E t (hr_id r) = Some sb'" "sb_oid sb' = sb_oid sb"
      by (auto simp: keeps_row_def)
    with r Some \<open>m \<noteq> n\<close> show ?thesis by (simp add: knows_def write_frameD[OF F])
  qed
  with coh write_frameD(10)[OF F \<open>m \<noteq> n\<close>] show ?thesis by (auto simp: coherent_def)
qed

lemma wrote_frame:
  assumes c: "consistent E s" and F: "write_frame E s n data t"
    and cok: "\<And>k y. cached E t k = Some y \<Longrightarrow> cache_ok E t k y"
    and row: "\<And>r. r \<in> set (t_hashes (tabs t)) \<Longrightarrow> int (length (sdata E t (hr_id r))) = block_size E
       \<and> block_hash (sdata E t (hr_id r)) = hr_hash r"
    and src: "\<And>r. r \<in> set (t_hashes (tabs t)) \<Longrightarrow> sdata E t (hr_id r) = data
       \<or> (\<exists>r'\<in>set (t_hashes (tabs s)). sdata E t (hr_id r) = sdata E s (hr_id r'))"
    and new: "r0 \<in> set (t_hashes (tabs t))" "hr_hash r0 = block_hash data" "sdata E t (hr_id r0) = data"
    and kept: "\<And>g m r. \<not> (g = ino s \<and> m = n) \<Longrightarrow> file_block (tabs s) g m = Some (hr_hash r)
       \<Longrightarrow> r \<in> set (t_hashes (tabs s)) \<Longrightarrow> keeps_row E s t r"
  shows "wrote E s n data t"
proof -
  have "consistent E t" using cok row by (simp add: consistent_def write_frameD[OF F])
  moreover have "stSelectBlockHash (block_hash data) (tabs t) = Some r0"
    using new select_Some[OF write_frameD(1)[OF F]] by simp
  note st = stored_frame[OF c F this new(3) kept]
  have "coherent E t m" if "m \<noteq> n" "coherent E s m" for m
    by (rule coherent_frame[OF c F that]) (rule kept[of "ino s" m], use that in auto)
  ultimately show ?thesis using st src by (simp add: wrote_def write_frameD[OF F])
qed

end

text \<open>A write that leaves every other \<open>hashes\<close> row but its use count, and adds at most one row.\<close>

definition moved_to :: "('fm, 'sm) env \<Rightarrow> ('fm, 'sm) cstate \<Rightarrow> int \<Rightarrow> byte list \<Rightarrow> hash_row list \<Rightarrow> storage_block
    \<Rightarrow> ('fm, 'sm) cstate \<Rightarrow> bool" where
  "moved_to E s n data extra x t \<longleftrightarrow>
     t_hashes (tabs t) = map (moved_use (tabs s) (ino s) n (block_hash data)) (t_hashes (tabs s)) @ extra
   \<and> cached E t = (\<lambda>k. if k \<in> hr_id ` set extra then Some x
          else map_option (moved_block s n (block_hash data) k) (cached E s k))
   \<and> (extra = [] \<and> (\<exists>r\<in>set (t_hashes (tabs s)). hr_hash r = block_hash data \<and> sdata E s (hr_id r) = data)
       \<or> (\<exists>rid. extra = [\<lparr>hr_id = rid, hr_hash = block_hash data, hr_use = 1\<rparr>] \<and> rid \<notin> hr_id ` set (t_hashes (tabs s))
           \<and> sb_num x = rid \<and> sb_use x = 1 \<and> sb_data x = data \<and> sb_dirty x))
   \<and> int (length data) = block_size E"

context dedup_env
begin

lemma moved_toD:
  assumes "moved_to E s n data extra x t"
  shows "t_hashes (tabs t) = map (moved_use (tabs s) (ino s) n (block_hash data)) (t_hashes (tabs s)) @ extra"
    "cached E t = (\<lambda>k. if k \<in> hr_id ` set extra then Some x
          else map_option (moved_block s n (block_hash data) k) (cached E s k))"
    "r \<in> set (t_hashes (tabs s)) \<Longrightarrow> hr_id r \<notin> hr_id ` set extra"
    "r \<in> set extra \<Longrightarrow> hr_id r = sb_num x \<and> hr_hash r = block_hash data \<and> hr_use r = 1"
    "k \<in> hr_id ` set extra \<Longrightarrow> k = sb_num x \<and> sb_use x = 1 \<and> sb_data x = data \<and> sb_dirty x"
    "int (length data) = block_size E"
  using assms by (auto simp: moved_to_def image_iff)

lemma moved_sdata:
  assumes M: "moved_to E s n data extra x t" and "c_disk t = c_disk s"
  shows "sdata E t k = (if k \<in> hr_id ` set extra then data else sdata E s k)"
  using assms(2) moved_toD(5,6)[OF M] block_size_pos
  by (auto simp: sdata_def moved_toD(2)[OF M] split: option.split)

lemma moved_cache_ok:
  assumes c: "consistent E s" and M: "moved_to E s n data extra x t" and d: "c_disk t = c_disk s"
    and y: "cached E t k = Some y"
  shows "cache_ok E t k y"
proof (cases "k \<in> hr_id ` set extra")
  case True
  with y have yx: "y = x" by (simp add: moved_toD(2)[OF M])
  from True obtain r where "r \<in> set extra" "hr_id r = k" by auto
  then have "\<exists>r\<in>set (t_hashes (tabs t)). hr_id r = k \<and> hr_use r = sb_use x"
    using moved_toD(4)[OF M] moved_toD(5)[OF M True] by (intro bexI[of _ r]) (simp_all add: moved_toD(1)[OF M])
  with moved_toD(5)[OF M True] moved_toD(6)[OF M] block_size_pos yx show ?thesis
    by (auto simp: cache_ok_def)
next
  case False
  let ?g = "moved_use (tabs s) (ino s) n (block_hash data)"
  from False y obtain z where z: "cached E s k = Some z" "y = moved_block s n (block_hash data) k z"
    by (auto simp: moved_toD(2)[OF M])
  from consistentD(5)[OF c z(1)] obtain r where r: "r \<in> set (t_hashes (tabs s))" "hr_id r = k" "hr_use r = sb_use z"
    and zok: "cache_ok E s k z" by (auto simp: cache_ok_def)
  have ex: "(\<exists>r'\<in>set (t_hashes (tabs s)). hr_id r' = k \<and> P (hr_hash r')) \<longleftrightarrow> P (hr_hash r)" for P
    using r row_eq_id[OF consistentD(1)[OF c] _ r(1)] by auto
  have "hr_use (?g r) = sb_use y"
    using r(3) unfolding z moved_block_def moved_use_def
    by (simp add: ex[of "\<lambda>h. file_block (tabs s) (ino s) n = Some h"] ex[of "\<lambda>h. h = block_hash data"])
  then have "\<exists>r\<in>set (t_hashes (tabs t)). hr_id r = k \<and> hr_use r = sb_use y"
    using r by (intro bexI[of _ "?g r"]) (simp_all add: moved_toD(1)[OF M])
  with zok show ?thesis by (simp add: cache_ok_def z d)
qed

text \<open>The three ways a block is written, on a state whose rows and cache changed that way.\<close>

lemma wrote_moved:
  assumes c: "consistent E s" and F: "write_frame E s n data t" and M: "moved_to E s n data extra x t"
  shows "wrote E s n data t"
proof -
  let ?g = "moved_use (tabs s) (ino s) n (block_hash data)"
  note rows = moved_toD(1)[OF M] and cache = moved_toD(2)[OF M] and new = moved_toD(3)[OF M]
    and sd = moved_sdata[OF M write_frameD(8)[OF F]]
  have row: "r \<in> set extra \<or> (\<exists>r'\<in>set (t_hashes (tabs s)). r = ?g r')" if "r \<in> set (t_hashes (tabs t))" for r
    using that by (auto simp: rows)
  have kept: "keeps_row E s t r" if r: "r \<in> set (t_hashes (tabs s))" for r
  proof -
    have "stSelectBlockHash (hr_hash r) (tabs s) = Some r" using r select_Some[OF consistentD(1)[OF c]] by simp
    from select_moved[OF rows _ this] new[OF r] show ?thesis
      by (simp add: keeps_row_def sd cache option.map_comp comp_def)
  qed
  have "\<exists>r0\<in>set (t_hashes (tabs t)). hr_hash r0 = block_hash data \<and> sdata E t (hr_id r0) = data"
    using M new by (force simp: moved_to_def rows sd)
  then obtain r0 where r0: "r0 \<in> set (t_hashes (tabs t))" "hr_hash r0 = block_hash data" "sdata E t (hr_id r0) = data" by blast
  have row: "(int (length (sdata E t (hr_id r))) = block_size E \<and> block_hash (sdata E t (hr_id r)) = hr_hash r)
      \<and> (sdata E t (hr_id r) = data \<or> (\<exists>r'\<in>set (t_hashes (tabs s)). sdata E t (hr_id r) = sdata E s (hr_id r')))"
    if "r \<in> set (t_hashes (tabs t))" for r
    using row[OF that]
  proof (elim disjE bexE)
    fix r' assume "r' \<in> set (t_hashes (tabs s))" "r = ?g r'"
    with consistentD(6,7)[OF c this(1)] new[OF this(1)] show ?thesis by (auto simp: sd)
  qed (use moved_toD(4,6)[OF M] in \<open>simp add: sd\<close>)
  show ?thesis
    by (rule wrote_frame[OF c F moved_cache_ok[OF c M write_frameD(8)[OF F]] _ _ r0 kept]) (use row in auto)
qed

lemma refs_one:
  assumes "wf_rows T" and "refs T h = 1" and "file_block T f n = Some h" and "file_block T g m = Some h"
  shows "g = f \<and> m = n"
proof (rule ccontr)
  assume ne: "\<not> (g = f \<and> m = n)"
  then have "file_block (stDeleteFileBlock f n T) g m = Some h" using assms by (simp add: file_block_delete)
  from file_block_Some_set[OF this] have "refs (stDeleteFileBlock f n T) h \<noteq> 0"
    by (auto simp: refs_def filter_empty_conv)
  with refs_delete(1)[OF assms(1), of f n h] assms(2,3) show False by simp
qed

end

text \<open>A write that gives the only row of the old hash the new hash, and its cached block the new bytes.\<close>

definition rehashed_to :: "('fm, 'sm) env \<Rightarrow> ('fm, 'sm) cstate \<Rightarrow> int \<Rightarrow> byte list \<Rightarrow> hash_row \<Rightarrow> storage_block
    \<Rightarrow> ('fm, 'sm) cstate \<Rightarrow> bool" where
  "rehashed_to E s n data r0 x t \<longleftrightarrow>
     t_hashes (tabs t) = map (rehashed (tabs s) (ino s) n (block_hash data)) (t_hashes (tabs s))
   \<and> cached E t = (cached E s)(hr_id r0 \<mapsto> x)
   \<and> r0 \<in> set (t_hashes (tabs s)) \<and> hr_use r0 = 1 \<and> file_block (tabs s) (ino s) n = Some (hr_hash r0)
   \<and> sb_num x = hr_id r0 \<and> sb_use x = 1 \<and> sb_data x = data \<and> sb_dirty x
   \<and> int (length data) = block_size E"

context dedup_env
begin

lemma rehashed_toD:
  assumes "rehashed_to E s n data r0 x t"
  shows "t_hashes (tabs t) = map (rehashed (tabs s) (ino s) n (block_hash data)) (t_hashes (tabs s))"
    "cached E t = (cached E s)(hr_id r0 \<mapsto> x)"
    "r0 \<in> set (t_hashes (tabs s))" "hr_use r0 = 1" "file_block (tabs s) (ino s) n = Some (hr_hash r0)"
    "sb_num x = hr_id r0" "sb_use x = 1" "sb_data x = data" "sb_dirty x" "int (length data) = block_size E"
  using assms by (simp_all add: rehashed_to_def)

lemma rehashed_sdata:
  assumes R: "rehashed_to E s n data r0 x t" and "c_disk t = c_disk s"
  shows "sdata E t k = (if k = hr_id r0 then data else sdata E s k)"
  using assms(2) rehashed_toD(10)[OF R] block_size_pos
  by (auto simp: sdata_def rehashed_toD(2,8)[OF R] split: option.split)

lemma rehashed_row:
  assumes c: "consistent E s" and R: "rehashed_to E s n data r0 x t" and r: "r \<in> set (t_hashes (tabs s))"
  shows "rehashed (tabs s) (ino s) n (block_hash data) r =
      (if r = r0 then r0\<lparr>hr_hash := block_hash data, hr_use := 1\<rparr> else r)"
    and "(if r = r0 then r0\<lparr>hr_hash := block_hash data, hr_use := 1\<rparr> else r) \<in> set (t_hashes (tabs t))"
    and "hr_id r = hr_id r0 \<longleftrightarrow> r = r0"
proof -
  note wf = consistentD(1)[OF c] and r0 = rehashed_toD(3)[OF R]
  show re: "rehashed (tabs s) (ino s) n (block_hash data) r =
      (if r = r0 then r0\<lparr>hr_hash := block_hash data, hr_use := 1\<rparr> else r)"
    using row_eq_hash[OF wf r r0] by (auto simp: rehashed_def rehashed_toD(4,5)[OF R])
  show "(if r = r0 then r0\<lparr>hr_hash := block_hash data, hr_use := 1\<rparr> else r) \<in> set (t_hashes (tabs t))"
    unfolding re[symmetric] rehashed_toD(1)[OF R] using r by (simp only: set_map imageI)
  show "hr_id r = hr_id r0 \<longleftrightarrow> r = r0" by (rule row_eq_id[OF wf r r0])
qed

lemma rehashed_cache_ok:
  assumes c: "consistent E s" and R: "rehashed_to E s n data r0 x t" and d: "c_disk t = c_disk s"
    and z: "cached E t k = Some z"
  shows "cache_ok E t k z"
proof (cases "k = hr_id r0")
  case True
  have "\<exists>r\<in>set (t_hashes (tabs t)). hr_id r = k \<and> hr_use r = sb_use x"
    by (rule bexI[OF _ rehashed_row(2)[OF c R rehashed_toD(3)[OF R]]]) (simp add: True rehashed_toD(7)[OF R])
  with True z rehashed_toD(6-10)[OF R] block_size_pos show ?thesis
    by (auto simp: rehashed_toD(2)[OF R] cache_ok_def)
next
  case False
  with z have "cached E s k = Some z" by (simp add: rehashed_toD(2)[OF R])
  from consistentD(5)[OF c this] obtain r where r: "r \<in> set (t_hashes (tabs s))" "hr_id r = k" "hr_use r = sb_use z"
      and zok: "cache_ok E s k z" by (auto simp: cache_ok_def)
  from r False have "r \<noteq> r0" by auto
  with rehashed_row(2)[OF c R r(1)] r have "\<exists>r\<in>set (t_hashes (tabs t)). hr_id r = k \<and> hr_use r = sb_use z" by auto
  with zok show ?thesis by (simp add: cache_ok_def d)
qed

lemma rehashed_keeps:
  assumes c: "consistent E s" and F: "write_frame E s n data t" and R: "rehashed_to E s n data r0 x t"
    and ne: "\<not> (g = ino s \<and> m = n)" and fb: "file_block (tabs s) g m = Some (hr_hash r)"
    and r: "r \<in> set (t_hashes (tabs s))"
  shows "keeps_row E s t r"
proof -
  have "refs (tabs s) (hr_hash r0) = 1"
    using consistentD(2)[OF c] rehashed_toD(3,4)[OF R] by (auto simp: counted_def)
  from refs_one[OF consistentD(1)[OF c] this rehashed_toD(5)[OF R]] ne fb have "r \<noteq> r0" by blast
  with rehashed_row(2,3)[OF c R r] have "r \<in> set (t_hashes (tabs t))" "hr_id r \<noteq> hr_id r0" by auto
  then show ?thesis
    using select_Some[OF write_frameD(1)[OF F]]
    by (auto simp: keeps_row_def rehashed_sdata[OF R write_frameD(8)[OF F]] rehashed_toD(2)[OF R])
qed

lemma wrote_inplace:
  assumes c: "consistent E s" and F: "write_frame E s n data t" and R: "rehashed_to E s n data r0 x t"
  shows "wrote E s n data t"
proof -
  let ?r = "r0\<lparr>hr_hash := block_hash data, hr_use := 1\<rparr>"
  note sd = rehashed_sdata[OF R write_frameD(8)[OF F]]
  have new: "?r \<in> set (t_hashes (tabs t))" using rehashed_row(2)[OF c R rehashed_toD(3)[OF R]] by simp
  have row: "int (length (sdata E t (hr_id r))) = block_size E \<and> block_hash (sdata E t (hr_id r)) = hr_hash r"
    if r: "r \<in> set (t_hashes (tabs t))" for r
  proof -
    from r obtain r' where r': "r' \<in> set (t_hashes (tabs s))" "r = rehashed (tabs s) (ino s) n (block_hash data) r'"
      by (auto simp: rehashed_toD(1)[OF R])
    with rehashed_row(1,3)[OF c R r'(1)] consistentD(6,7)[OF c r'(1)] rehashed_toD(10)[OF R]
    show ?thesis by (auto simp: sd)
  qed
  have src: "sdata E t (hr_id r) = data \<or> (\<exists>r'\<in>set (t_hashes (tabs s)). sdata E t (hr_id r) = sdata E s (hr_id r'))"
    if "r \<in> set (t_hashes (tabs t))" for r
    using that by (auto simp: rehashed_toD(1)[OF R] sd)
  show ?thesis
    by (rule wrote_frame[OF c F rehashed_cache_ok[OF c R write_frameD(8)[OF F]] row src new])
       (auto simp: sd intro: rehashed_keeps[OF c F R])
qed

lemma moved_block_cached:
  assumes c: "consistent E s" and x: "cached E s k = Some x"
  shows "moved_block s n hash k x = x\<lparr>sb_use := sb_use x
      - (if \<exists>y. old_of E s n = Some y \<and> sb_num y = k then 1 else 0)
      + (if \<exists>r. stSelectBlockHash hash (tabs s) = Some r \<and> hr_id r = k then 1 else 0)\<rparr>"
proof -
  note wf = consistentD(1)[OF c]
  have "(\<exists>r\<in>set (t_hashes (tabs s)). hr_id r = k \<and> file_block (tabs s) (ino s) n = Some (hr_hash r)) \<longleftrightarrow>
      (\<exists>y. old_of E s n = Some y \<and> sb_num y = k)"
  proof
    assume "\<exists>r\<in>set (t_hashes (tabs s)). hr_id r = k \<and> file_block (tabs s) (ino s) n = Some (hr_hash r)"
    then obtain r where r: "r \<in> set (t_hashes (tabs s))" "hr_id r = k" "file_block (tabs s) (ino s) n = Some (hr_hash r)" by blast
    then have "stSelectBlockHash (hr_hash r) (tabs s) = Some r" using select_Some[OF wf] by simp
    with r x have "old_of E s n = Some x" by (simp add: old_of_def)
    moreover have "sb_num x = k" using consistentD(5)[OF c x] by (simp add: cache_ok_def)
    ultimately show "\<exists>y. old_of E s n = Some y \<and> sb_num y = k" by blast
  next
    assume "\<exists>y. old_of E s n = Some y \<and> sb_num y = k"
    then obtain y where "old_of E s n = Some y" "sb_num y = k" by blast
    with old_of_row[OF c this(1)]
    show "\<exists>r\<in>set (t_hashes (tabs s)). hr_id r = k \<and> file_block (tabs s) (ino s) n = Some (hr_hash r)"
      by metis
  qed
  moreover have "(\<exists>r\<in>set (t_hashes (tabs s)). hr_id r = k \<and> hr_hash r = hash) \<longleftrightarrow>
      (\<exists>r. stSelectBlockHash hash (tabs s) = Some r \<and> hr_id r = k)"
    using select_Some[OF wf] by auto
  ultimately show ?thesis by (simp add: moved_block_def)
qed

end

text \<open>
  \<open>_writeBlock\<close> is the database's replacement followed by the cached bytes; the first half leaves
  the state \<open>replaced_in\<close> describes.
\<close>

definition store_bytes :: "('fm, 'sm) env \<Rightarrow> byte list \<Rightarrow> int \<Rightarrow> bool \<Rightarrow> (('fm, 'sm) cstate, unit) comp" where
  "store_bytes E data n present =
    bnd (deref_fblock E n) (\<lambda>fblock. bnd new_object (\<lambda>(oid, now).
    bnd (gets (\<lambda>s. cached E s (bi_snum fblock))) (\<lambda>found.
    if present then (case found of Some _ \<Rightarrow> set_sblock E (bi_snum fblock) (\<lambda>b. b\<lparr>sb_use := sb_use b + 1\<rparr>) | None \<Rightarrow> ret ())
    else (let item = (case found of Some b \<Rightarrow> b | None \<Rightarrow> new_storage_block oid now (bi_snum fblock))
               \<lparr>sb_data := data, sb_hash := Some (block_hash data), sb_use := 1, sb_dirty := True, sb_loaded := True\<rparr>
      in sqn (modify (put_sblock E (bi_snum fblock) item))
             (set_fblock E n (\<lambda>b. b\<lparr>bi_sblock := Some (bi_snum fblock, sb_oid item)\<rparr>))))))"

abbreviation old_key :: "('fm, 'sm) env \<Rightarrow> ('fm, 'sm) cstate \<Rightarrow> int \<Rightarrow> (int \<times> int) option" where
  "old_key E s n \<equiv> map_option (\<lambda>sb. (sb_num sb, sb_use sb)) (old_of E s n)"

definition replaced_in :: "('fm, 'sm) env \<Rightarrow> ('fm, 'sm) cstate \<Rightarrow> int \<Rightarrow> byte list \<Rightarrow> block_info \<Rightarrow> ('fm, 'sm) cstate \<Rightarrow> bool" where
  "replaced_in E s n data b w \<longleftrightarrow>
     tabs w = replace_rows E (ino s) n (block_hash data) (old_key E s n) (tabs s)
   \<and> db_script (c_db w) = [] \<and> db_saved (c_db w) = None
   \<and> fblock_at E w = (fblock_at E s)(n \<mapsto> replace_fblock E (block_hash data) (old_of E s n) (tabs s) b)
   \<and> cached E w = replace_cached (block_hash data) (old_of E s n) (tabs s) (cached E s)
   \<and> c_disk w = c_disk s \<and> c_next w = c_next s \<and> c_now w = c_now s \<and> fi_st (c_fi w) = fi_st (c_fi s)"

definition writable_block :: "('fm, 'sm) env \<Rightarrow> ('fm, 'sm) cstate \<Rightarrow> int \<Rightarrow> byte list \<Rightarrow> block_info \<Rightarrow> bool" where
  "writable_block E s n data b \<longleftrightarrow> consistent E s \<and> fblock_at E s n = Some b \<and> knows E s n b
   \<and> (file_block (tabs s) (ino s) n \<noteq> None \<longrightarrow> bi_sblock b \<noteq> None)
   \<and> int (length data) = block_size E \<and> file_block (tabs s) (ino s) n \<noteq> Some (block_hash data)"

context dedup_env
begin

lemma writable_blockD:
  assumes "writable_block E s n data b"
  shows "consistent E s" "fblock_at E s n = Some b" "knows E s n b" "int (length data) = block_size E"
    "file_block (tabs s) (ino s) n \<noteq> Some (block_hash data)" "lock_weak E (bi_sblock b) s = old_of E s n"
    "wf_rows (tabs s)" "old_block (tabs s) (ino s) n (old_key E s n)"
    "old_of E s n = Some sb \<Longrightarrow> cached E s (sb_num sb) = Some sb"
  using assms old_of_row[of s n sb] unfolding writable_block_def
  by (auto intro: lock_old old_block_of consistentD)

lemma replaced_inD:
  assumes "replaced_in E s n data b w"
  shows "tabs w = replace_rows E (ino s) n (block_hash data) (old_key E s n) (tabs s)"
    "db_script (c_db w) = []" "db_saved (c_db w) = None"
    "fblock_at E w = (fblock_at E s)(n \<mapsto> replace_fblock E (block_hash data) (old_of E s n) (tabs s) b)"
    "cached E w = replace_cached (block_hash data) (old_of E s n) (tabs s) (cached E s)"
    "c_disk w = c_disk s" "c_next w = c_next s" "c_now w = c_now s" "fi_st (c_fi w) = fi_st (c_fi s)"
  using assms by (simp_all add: replaced_in_def)

lemma writeBlock_split:
  assumes "int (length data) = block_size E"
  shows "writeBlock E data n = bnd (replaceStorageBlock E n (block_hash data)) (store_bytes E data n)"
proof -
  from assms have h: "MurmurHash3_x64_128 (take (nat (block_size E)) data) HASH_SEED = block_hash data"
    by (simp add: block_hash_def)
  show ?thesis unfolding writeBlock_def store_bytes_def[abs_def] h Let_def ..
qed

lemma replaced_ok:
  assumes "writable_block E s n data b"
  shows "returns (replaceStorageBlock E n (block_hash data)) s (\<lambda>present w.
    present = (stSelectBlockHash (block_hash data) (tabs s) \<noteq> None) \<and> replaced_in E s n data b w)"
  unfolding replaced_in_def using writable_blockD[OF assms] consistentD(3,4)[OF writable_blockD(1)[OF assms]]
  by (intro replaceStorageBlock_ok) auto

lemma replaced_frame:
  assumes A: "writable_block E s n data b" and R: "replaced_in E s n data b w"
    and t: "c_db t = c_db w" "fi_st (c_fi t) = fi_st (c_fi w)" "c_disk t = c_disk w" "c_now t = c_now w"
      "\<And>m. m \<noteq> n \<Longrightarrow> fblock_at E t m = fblock_at E w m"
  shows "write_frame E s n data t"
  using replace_rows_wf[OF writable_blockD(7)[OF A] consistentD(2)[OF writable_blockD(1)[OF A]] writable_blockD(8,5)[OF A]] t
  by (simp add: write_frame_def replaced_inD[OF R] file_block_replace_rows)

text \<open>The use counts of the cached blocks after the replacement.\<close>

lemma replaced_cached:
  assumes A: "writable_block E s n data b" and R: "replaced_in E s n data b w"
    and "stSelectBlockHash (block_hash data) (tabs s) \<noteq> None \<or> \<not> (\<exists>k. old_key E s n = Some (k, 1))"
  shows "cached E w k = map_option (\<lambda>x. x\<lparr>sb_use := sb_use x
     - (if \<exists>y. old_of E s n = Some y \<and> sb_num y = k then 1 else 0)\<rparr>) (cached E s k)"
  using assms(3) writable_blockD(9)[OF A]
  by (cases "old_of E s n") (auto simp: replaced_inD[OF R] replace_cached_def option.map_ident_strong)

lemma store_shared:
  assumes A: "writable_block E s n data b" and R: "replaced_in E s n data b w"
    and p: "stSelectBlockHash (block_hash data) (tabs s) = Some r0" and same: "sdata E s (hr_id r0) = data"
  shows "returns (store_bytes E data n True) w (\<lambda>_ t. wrote E s n data t \<and> (\<exists>b'. fblock_at E t n = Some b'))"
proof -
  note c = writable_blockD(1)[OF A] and wf = writable_blockD(7)[OF A]
  have r0: "r0 \<in> set (t_hashes (tabs s))" "hr_hash r0 = block_hash data" using select_Some[OF wf] p by auto
  note cw = replaced_cached[OF A R, unfolded p, simplified]
  let ?w = "w\<lparr>c_next := Suc (c_next s)\<rparr>"
  let ?t = "case cached E w (hr_id r0) of None \<Rightarrow> ?w
     | Some y \<Rightarrow> put_sblock E (hr_id r0) (y\<lparr>sb_use := sb_use y + 1\<rparr>) ?w"
  have t: "fi_st (c_fi ?t) = fi_st (c_fi w)" "c_db ?t = c_db w" "c_disk ?t = c_disk w" "c_now ?t = c_now w"
      "fblock_at E ?t = fblock_at E w" "tabs ?t = tabs w"
    by (simp_all split: option.split)
  have "cached E ?t = (\<lambda>k. map_option (moved_block s n (block_hash data) k) (cached E s k))"
  proof
    fix k show "cached E ?t k = map_option (moved_block s n (block_hash data) k) (cached E s k)"
      using p by (cases "cached E s k"; cases "cached E s (hr_id r0)")
        (auto simp: cw moved_block_cached[OF c] split: option.splits)
  qed
  then have M: "moved_to E s n data [] x ?t" for x
    unfolding moved_to_def t(6) replaced_inD(1)[OF R]
    using hashes_present[OF wf writable_blockD(8,5)[OF A]] p r0 same writable_blockD(4)[OF A] by auto
  have "wrote E s n data ?t" by (rule wrote_moved[OF c replaced_frame[OF A R t(2,1,3,4)] M]) (simp only: t)
  moreover have "fblock_at E ?t n = Some (replace_fblock E (block_hash data) (old_of E s n) (tabs s) b)"
    by (simp only: t(5) replaced_inD(4)[OF R] fun_upd_same)
  ultimately show ?thesis
    using p by (cases "cached E w (hr_id r0)")
      (simp_all add: store_bytes_def wp_simps replace_fblock_def replaced_inD(4,7)[OF R])
qed

lemma store_inplace:
  assumes A: "writable_block E s n data b" and R: "replaced_in E s n data b w"
    and p: "stSelectBlockHash (block_hash data) (tabs s) = None"
    and sb: "old_of E s n = Some sb" "sb_use sb = 1"
  shows "returns (store_bytes E data n False) w (\<lambda>_ t. wrote E s n data t \<and> (\<exists>b'. fblock_at E t n = Some b'))"
proof -
  note c = writable_blockD(1)[OF A] and wf = writable_blockD(7)[OF A]
  from old_of_row[OF c sb(1)] obtain r0 where r0: "file_block (tabs s) (ino s) n = Some (hr_hash r0)"
      "r0 \<in> set (t_hashes (tabs s))" "hr_id r0 = sb_num sb" "hr_use r0 = sb_use sb" "cached E s (sb_num sb) = Some sb"
    by metis
  have snum: "bi_snum b = sb_num sb"
    using writable_blockD(3)[OF A] r0 select_Some[OF wf, of "hr_hash r0" r0] by (auto simp: knows_def)
  have cw: "cached E w = cached E s" using p sb by (simp add: replaced_inD[OF R] replace_cached_def)
  let ?x = "sb\<lparr>sb_data := data, sb_hash := Some (block_hash data), sb_use := 1, sb_dirty := True, sb_loaded := True\<rparr>"
  let ?u = "put_sblock E (sb_num sb) ?x (w\<lparr>c_next := Suc (c_next s)\<rparr>)"
  let ?t = "put_fblock E n (b\<lparr>bi_hash := Some (block_hash data), bi_sblock := Some (sb_num sb, sb_oid sb)\<rparr>) ?u"
  have "old_block (tabs s) (ino s) n (Some (sb_num sb, 1))" using writable_blockD(8)[OF A] sb by simp
  from hashes_inplace[OF wf this p, of E] have M: "rehashed_to E s n data r0 ?x ?t"
    using r0 sb writable_blockD(4)[OF A] by (simp add: rehashed_to_def replaced_inD(1)[OF R] cw)
  have "wrote E s n data ?t" by (rule wrote_inplace[OF c replaced_frame[OF A R] M]) simp_all
  then show ?thesis
    using p sb snum r0 by (simp add: store_bytes_def wp_simps replace_fblock_def replaced_inD(4,7)[OF R] cw Let_def)
qed

lemma store_fresh:
  assumes A: "writable_block E s n data b" and R: "replaced_in E s n data b w"
    and p: "stSelectBlockHash (block_hash data) (tabs s) = None" and o: "\<not> (\<exists>k. old_key E s n = Some (k, 1))"
  shows "returns (store_bytes E data n False) w (\<lambda>_ t. wrote E s n data t \<and> (\<exists>b'. fblock_at E t n = Some b'))"
proof -
  note c = writable_blockD(1)[OF A] and wf = writable_blockD(7)[OF A]
  let ?rid = "e_newid E (map hr_id (t_hashes (tabs s)))"
  have nid: "?rid \<notin> hr_id ` set (t_hashes (tabs s))"
    using newid_fresh[of "map hr_id (t_hashes (tabs s))"] by simp
  have free: "cached E s ?rid = None"
  proof (cases "cached E s ?rid")
    case (Some x)
    from consistentD(5)[OF c this] nid show ?thesis by (auto simp: cache_ok_def image_iff)
  qed
  have cw: "cached E w k = map_option (\<lambda>x. x\<lparr>sb_use := sb_use x
     - (if \<exists>y. old_of E s n = Some y \<and> sb_num y = k then 1 else 0)\<rparr>) (cached E s k)" for k
    by (rule replaced_cached[OF A R]) (use o in blast)
  have fbn: "fblock_at E w n = Some (b\<lparr>bi_hash := Some (block_hash data), bi_snum := ?rid, bi_sblock := None\<rparr>)"
    using o p by (cases "old_of E s n") (auto simp: replaced_inD[OF R] replace_fblock_def)
  let ?x = "(new_storage_block (c_next s) (c_now s) ?rid)\<lparr>sb_data := data, sb_hash := Some (block_hash data),
      sb_use := 1, sb_dirty := True, sb_loaded := True\<rparr>"
  let ?u = "put_sblock E ?rid ?x (w\<lparr>c_next := Suc (c_next s)\<rparr>)"
  let ?t = "put_fblock E n (b\<lparr>bi_hash := Some (block_hash data), bi_snum := ?rid, bi_sblock := Some (?rid, c_next s)\<rparr>) ?u"
  have "cached E ?t = (\<lambda>k. if k = ?rid then Some ?x else map_option (moved_block s n (block_hash data) k) (cached E s k))"
  proof
    fix k show "cached E ?t k = (if k = ?rid then Some ?x else map_option (moved_block s n (block_hash data) k) (cached E s k))"
      using p free by (cases "cached E s k") (auto simp: cw moved_block_cached[OF c])
  qed
  moreover have "sb_num ?x = ?rid" "sb_use ?x = 1" "sb_data ?x = data" "sb_dirty ?x"
    by (simp_all add: new_storage_block_def)
  moreover have "tabs ?t = tabs w" by simp
  ultimately have M: "moved_to E s n data [\<lparr>hr_id = ?rid, hr_hash = block_hash data, hr_use = 1\<rparr>] ?x ?t"
    using hashes_fresh[OF wf writable_blockD(8)[OF A] nid p o] nid writable_blockD(4)[OF A]
    unfolding moved_to_def replaced_inD(1)[OF R] by simp
  have "wrote E s n data ?t" by (rule wrote_moved[OF c replaced_frame[OF A R] M]) simp_all
  then show ?thesis
    using fbn free by (simp add: store_bytes_def wp_simps cw new_storage_block_def replaced_inD(7,8)[OF R] Let_def)
qed

lemma writeBlock_ok:
  assumes A: "writable_block E s n data b"
    and nocoll: "\<And>r. r \<in> set (t_hashes (tabs s)) \<Longrightarrow> hr_hash r = block_hash data \<Longrightarrow> sdata E s (hr_id r) = data"
  shows "returns (writeBlock E data n) s (\<lambda>_ t. wrote E s n data t \<and> (\<exists>b'. fblock_at E t n = Some b'))"
  unfolding writeBlock_split[OF writable_blockD(4)[OF A]] returns_bnd[of "replaceStorageBlock E n _"]
proof (rule returns_weaken[OF replaced_ok[OF A]], elim conjE)
  fix present w
  assume p: "present = (stSelectBlockHash (block_hash data) (tabs s) \<noteq> None)" and R: "replaced_in E s n data b w"
  show "returns (store_bytes E data n present) w (\<lambda>_ t. wrote E s n data t \<and> (\<exists>b'. fblock_at E t n = Some b'))"
  proof (cases "stSelectBlockHash (block_hash data) (tabs s)")
    case (Some r0)
    then have "sdata E s (hr_id r0) = data" using nocoll select_Some[OF writable_blockD(7)[OF A]] by auto
    from store_shared[OF A R Some this] p Some show ?thesis by simp
  next
    case None
    show ?thesis
    proof (cases "\<exists>sb. old_of E s n = Some sb \<and> sb_use sb = 1")
      case True
      then show ?thesis using store_inplace[OF A R None] p None by auto
    next
      case False
      then show ?thesis using store_fresh[OF A R None] p None by auto
    qed
  qed
qed

lemma wrote_quiet:
  assumes q: "quiet E s u" and w: "wrote E u n data t"
    and coh: "\<And>m. m \<noteq> n \<Longrightarrow> coherent E s m \<Longrightarrow> coherent E u m"
  shows "wrote E s n data t"
  using w coh unfolding wrote_def quietD[OF q] by auto

lemma wrote_unlock:
  assumes w: "wrote E s n data t"
  shows "wrote E s n data (put_fblock E n b t)"
proof -
  have q: "quiet E t (put_fblock E n b t)" using w by (auto simp: wrote_def intro: quiet_put_fblock)
  have "coherent E (put_fblock E n b t) m" if "m \<noteq> n" "coherent E t m" for m
    using that by (intro coherent_quiet[OF q]) auto
  with w quietD[OF q] show ?thesis unfolding wrote_def by auto
qed

end

text \<open>
  \<open>_writeBlockWrapper\<close>: the old bytes where they are needed (the part of the block outside the
  written range), the splice, and the write of the new block.
\<close>

definition old_bytes :: "('fm, 'sm) env \<Rightarrow> int \<Rightarrow> storage_block option \<Rightarrow> (('fm, 'sm) cstate, byte list) comp" where
  "old_bytes E len firstBlock =
    (case firstBlock of
        None \<Rightarrow> ret []
      | Some b \<Rightarrow>
          bnd (gets c_now) (\<lambda>now.
          sqn (set_sblock E (sb_num b) (sb_access now))
         (if sb_num b \<noteq> 0 \<and> len < block_size E then
            sqn (populateStorageBlock E (sb_num b))
           (bnd (deref_sblock E (sb_num b)) (\<lambda>b. ret (sb_data b)))
          else ret [])))"

definition splice_block :: "('fm, 'sm) env \<Rightarrow> byte list \<Rightarrow> int \<Rightarrow> int \<Rightarrow> int \<Rightarrow> byte list \<Rightarrow> (('fm, 'sm) cstate, unit) comp" where
  "splice_block E buf n len off old =
    bnd (memcpy_into (if old = [] then zeros (block_size E) else old) off buf len)
      (\<lambda>data. sqn (writeBlock E data n) (unlock_fblock E n))"

definition spliced :: "('fm, 'sm) env \<Rightarrow> ('fm, 'sm) cstate \<Rightarrow> int \<Rightarrow> int \<Rightarrow> int \<Rightarrow> byte list \<Rightarrow> byte list \<Rightarrow> bool" where
  "spliced E s n off len buf data \<longleftrightarrow>
     0 \<le> off \<and> 0 \<le> len \<and> off + len \<le> block_size E \<and> len \<le> int (length buf)
   \<and> data = overlay (nat off) (take (nat len) buf) (stored E s (ino s) n)
   \<and> file_block (tabs s) (ino s) n \<noteq> Some (block_hash data)
   \<and> (\<forall>r\<in>set (t_hashes (tabs s)). hr_hash r = block_hash data \<longrightarrow> sdata E s (hr_id r) = data)"

text \<open>Bytes from which the splice gives the new block: none of them matter, or they are the stored ones.\<close>

definition old_enough :: "('fm, 'sm) env \<Rightarrow> ('fm, 'sm) cstate \<Rightarrow> int \<Rightarrow> int \<Rightarrow> int \<Rightarrow> byte list \<Rightarrow> bool" where
  "old_enough E s n off len old \<longleftrightarrow>
     old = [] \<and> (off = 0 \<and> len = block_size E \<or> stored E s (ino s) n = zeros (block_size E))
   \<or> old = stored E s (ino s) n"

context dedup_env
begin

lemma writeBlockWrapper_split:
  "writeBlockWrapper E buf n len off =
    sqn (getLockedFileBlock E n) (bnd (deref_fblock E n) (\<lambda>fileBlock.
      bnd (gets (lock_weak E (bi_sblock fileBlock))) (\<lambda>firstBlock.
      bnd (old_bytes E len firstBlock) (splice_block E buf n len off))))"
  unfolding writeBlockWrapper_def old_bytes_def splice_block_def[abs_def] Let_def ..

lemma splice_ok:
  assumes c: "consistent E s" and L: "locked_item E s n t" and S: "spliced E s n off len buf data"
    and u: "quiet E t u" "fblock_at E u = fblock_at E t" and old: "old_enough E s n off len old"
  shows "returns (splice_block E buf n len off old) u (\<lambda>_ v. wrote E s n data v)"
proof -
  from L obtain b where fb: "fblock_at E t = (fblock_at E s)(n \<mapsto> b)" and k: "knows E t n b" and q: "quiet E s t"
    and ref: "file_block (tabs s) (ino s) n \<noteq> None \<longrightarrow> bi_sblock b \<noteq> None"
    by (auto simp: locked_item_def)
  from S have r: "0 \<le> off" "0 \<le> len" "off + len \<le> block_size E" "len \<le> int (length buf)"
    and d: "data = overlay (nat off) (take (nat len) buf) (stored E s (ino s) n)"
    and new: "file_block (tabs s) (ino s) n \<noteq> Some (block_hash data)"
    unfolding spliced_def by blast+
  note qu = quiet_trans[OF q u(1)]
  have Ls: "int (length (stored E s (ino s) n)) = block_size E"
    using length_stored[OF c] block_size_pos by simp
  have lenold: "int (length (if old = [] then zeros (block_size E) else old)) = block_size E"
    using old Ls block_size_pos by (auto simp: old_enough_def)
  have ov: "overlay (nat off) (take (nat len) buf) (if old = [] then zeros (block_size E) else old) = data"
    using old r Ls block_size_pos unfolding d by (auto simp: overlay_def old_enough_def)
  have ld: "int (length data) = block_size E" using r Ls by (simp add: d)
  have coh': "coherent E u m" if "m \<noteq> n" "coherent E s m" for m
    by (rule coherent_quiet[OF qu _ that(2)]) (use that u fb in simp)
  have "writable_block E u n data b"
    using quietD(6)[OF u(1)] knows_quiet[OF u(1) k] ld ref new u fb
    by (simp add: writable_block_def quietD[OF qu])
  then have "returns (writeBlock E data n) u (\<lambda>_ v. wrote E u n data v \<and> (\<exists>b'. fblock_at E v n = Some b'))"
    by (rule writeBlock_ok) (use S in \<open>auto simp: quietD[OF qu] spliced_def\<close>)
  then have "returns (writeBlock E data n) u (\<lambda>_ v. wrote E s n data v \<and> (\<exists>b'. fblock_at E v n = Some b'))"
    by (rule returns_weaken) (auto intro: wrote_quiet[OF qu _ coh'])
  then have "returns (writeBlock E data n) u (\<lambda>_ v. returns (unlock_fblock E n) v (\<lambda>_ v. wrote E s n data v))"
    by (rule returns_weaken) (auto simp: unlock_fblock_def wp_simps intro: wrote_unlock)
  then show ?thesis using r lenold by (simp add: splice_block_def memcpy_into_def wp_simps ov)
qed

lemma old_bytes_ok:
  assumes c: "consistent E t" and old: "old_of E t n = Some sb" and r: "0 \<le> off" "0 \<le> len" "off + len \<le> block_size E"
  shows "returns (old_bytes E len (Some sb)) t (\<lambda>old u. quiet E t u \<and> fblock_at E u = fblock_at E t
     \<and> old_enough E t n off len old)"
proof -
  from old_of_row[OF c old] obtain r where r': "file_block (tabs t) (ino t) n = Some (hr_hash r)"
      "r \<in> set (t_hashes (tabs t))" "hr_id r = sb_num sb" "cached E t (sb_num sb) = Some sb" by metis
  have num: "sb_num sb \<noteq> 0" using wf_rowsD(3)[OF consistentD(1)[OF c] r'(2)] r' by simp
  let ?a = "put_sblock E (sb_num sb) (sb_access (c_now t) sb) t"
  have qa: "quiet E t ?a" using cached_seen[OF c r'(4)] by (simp add: seen_def)
  have st: "sdata E ?a (sb_num sb) = stored E t (ino t) n"
    unfolding quietD(5)[OF qa]
    using stored_Some[of t "ino t" n "hr_hash r" r E] r' select_Some[OF consistentD(1)[OF c], of "hr_hash r" r] by simp
  show ?thesis
  proof (cases "len < block_size E")
    case False
    with r have "off = 0" "len = block_size E" by auto
    with qa r' show ?thesis by (simp add: old_bytes_def wp_simps old_enough_def)
  next
    case True
    have "returns (populateStorageBlock E (sb_num sb)) ?a (\<lambda>_ u. quiet E t u \<and> fblock_at E u = fblock_at E t
        \<and> (\<exists>b'. cached E u (sb_num sb) = Some b' \<and> sb_data b' = stored E t (ino t) n))"
      by (rule returns_weaken[OF populate_ok[OF quietD(6)[OF qa]]])
        (auto simp: seen_def st intro: quiet_trans[OF qa])
    then have "returns (populateStorageBlock E (sb_num sb)) ?a (\<lambda>_ u. returns (deref_sblock E (sb_num sb)) u
        (\<lambda>b u. quiet E t u \<and> fblock_at E u = fblock_at E t \<and> old_enough E t n off len (sb_data b)))"
      by (rule returns_weaken) (auto simp: wp_simps old_enough_def)
    with True r' num show ?thesis by (simp add: old_bytes_def wp_simps)
  qed
qed

lemma writeBlockWrapper_ok:
  assumes c: "consistent E s" and coh: "coherent E s n" and ld: "loadable E s n"
    and S: "spliced E s n off len buf data"
  shows "returns (writeBlockWrapper E buf n len off) s (\<lambda>_ t. wrote E s n data t)"
  unfolding writeBlockWrapper_split returns_sqn[of "getLockedFileBlock E n"]
proof (rule returns_weaken[OF getLockedFileBlock_ok[OF c coh ld]])
  fix t assume L: "locked_item E s n t"
  then obtain b where fb: "fblock_at E t n = Some b" and k: "knows E t n b" and q: "quiet E s t"
    and ref: "file_block (tabs s) (ino s) n \<noteq> None \<longrightarrow> bi_sblock b \<noteq> None"
    by (auto simp: locked_item_def)
  note ct = quietD(6)[OF q]
  have lock: "lock_weak E (bi_sblock b) t = old_of E t n"
    by (rule lock_old[OF k]) (use ref in \<open>simp add: quietD[OF q]\<close>)
  have "returns (old_bytes E len (old_of E t n)) t (\<lambda>old u. quiet E t u \<and> fblock_at E u = fblock_at E t
     \<and> old_enough E s n off len old)"
  proof (cases "old_of E t n")
    case None
    with k have "file_block (tabs s) (ino s) n = None"
      by (auto simp: knows_def old_of_def quietD[OF q] split: option.splits)
    with None show ?thesis by (simp add: old_bytes_def wp_simps quiet_refl[OF ct] old_enough_def stored_None)
  next
    case (Some sb)
    then show ?thesis using old_bytes_ok[OF ct Some] S by (simp add: spliced_def old_enough_def quietD[OF q])
  qed
  then have "returns (old_bytes E len (old_of E t n)) t (\<lambda>old u. returns (splice_block E buf n len off old) u
     (\<lambda>_ v. wrote E s n data v))"
    by (rule returns_weaken) (auto intro: splice_ok[OF c L S])
  then show "returns (bnd (deref_fblock E n) (\<lambda>fileBlock. bnd (gets (lock_weak E (bi_sblock fileBlock))) (\<lambda>firstBlock.
      bnd (old_bytes E len firstBlock) (splice_block E buf n len off)))) t (\<lambda>_ t. wrote E s n data t)"
    by (simp add: wp_simps fb lock)
qed

end

end
