(* ===== verification/Cache_Write.thy ===== *)
theory Cache_Write
  imports Cache_Store
begin

text \<open>
  What the writing operations of the block cache do to the contents: the loop of \<open>writeBuf\<close>, the
  growth of the file before it, and the release of the blocks behind the new end in \<open>truncate\<close>.
\<close>

subsection \<open>Writing a range\<close>

definition contents :: "('fm, 'sm) env \<Rightarrow> ('fm, 'sm) cstate \<Rightarrow> byte list set" where
  "contents E s = (\<lambda>r. sdata E s (hr_id r)) ` set (t_hashes (tabs s))"

text \<open>Block \<open>n\<close> of the handle's file after \<open>buf\<close> has been written at \<open>off\<close>.\<close>

definition new_block :: "('fm, 'sm) env \<Rightarrow> ('fm, 'sm) cstate \<Rightarrow> byte list \<Rightarrow> int \<Rightarrow> int \<Rightarrow> byte list" where
  "new_block E s buf off n =
    map (\<lambda>i. if off \<le> i \<and> i < off + int (length buf) then buf ! nat (i - off) else byte_at E s (ino s) i)
      [n * block_size E..n * block_size E + block_size E - 1]"

definition wrote_range :: "('fm, 'sm) env \<Rightarrow> ('fm, 'sm) cstate \<Rightarrow> int \<Rightarrow> int \<Rightarrow> (int \<Rightarrow> byte list) \<Rightarrow> ('fm, 'sm) cstate \<Rightarrow> bool" where
  "wrote_range E s n0 n1 new t \<longleftrightarrow> consistent E t
   \<and> (\<forall>g m. stored E t g m = (if g = ino s \<and> n0 \<le> m \<and> m \<le> n1 then new m else stored E s g m))
   \<and> (\<forall>g m. file_block (tabs t) g m = (if g = ino s \<and> n0 \<le> m \<and> m \<le> n1 then Some (block_hash (new m)) else file_block (tabs s) g m))
   \<and> t_files (tabs t) = t_files (tabs s)
   \<and> fi_st (c_fi t) = fi_st (c_fi s) \<and> c_disk t = c_disk s \<and> c_now t = c_now s
   \<and> (\<forall>m. \<not> (n0 \<le> m \<and> m \<le> n1) \<longrightarrow> coherent E s m \<longrightarrow> coherent E t m)
   \<and> contents E t \<subseteq> contents E s \<union> new ` {n0..n1}"

lemma wrote_range_one: "wrote E s n (new n) t \<Longrightarrow> wrote_range E s n n new t"
  unfolding wrote_def wrote_range_def contents_def by auto

lemma wrote_range_step:
  assumes "wrote_range E s n0 n1 new t" and "wrote E t (n1 + 1) (new (n1 + 1)) u" and "n0 \<le> n1"
  shows "wrote_range E s n0 (n1 + 1) new u"
proof -
  have i: "ino t = ino s" using assms(1) by (simp add: wrote_range_def)
  have "contents E u \<subseteq> contents E t \<union> {new (n1 + 1)}" using assms(2) unfolding wrote_def contents_def by auto
  also have "\<dots> \<subseteq> contents E s \<union> new ` {n0..n1 + 1}"
  proof -
    have "new ` {n0..n1} \<subseteq> new ` {n0..n1 + 1}" by (rule image_mono) auto
    with assms(1,3) show ?thesis unfolding wrote_range_def by auto
  qed
  finally have cont: "contents E u \<subseteq> contents E s \<union> new ` {n0..n1 + 1}" .
  have r: "(n0 \<le> m \<and> m \<le> n1 + 1) \<longleftrightarrow> (n0 \<le> m \<and> m \<le> n1) \<or> m = n1 + 1" for m using assms(3) by auto
  from assms(1) have t: "stored E t g m = (if g = ino s \<and> n0 \<le> m \<and> m \<le> n1 then new m else stored E s g m)"
      "file_block (tabs t) g m = (if g = ino s \<and> n0 \<le> m \<and> m \<le> n1 then Some (block_hash (new m)) else file_block (tabs s) g m)"
      "\<not> (n0 \<le> m \<and> m \<le> n1) \<Longrightarrow> coherent E s m \<Longrightarrow> coherent E t m" for g m
    unfolding wrote_range_def by blast+
  from assms(2) have u: "stored E u g m = (if g = ino s \<and> m = n1 + 1 then new (n1 + 1) else stored E t g m)"
      "file_block (tabs u) g m = (if g = ino s \<and> m = n1 + 1 then Some (block_hash (new (n1 + 1))) else file_block (tabs t) g m)"
      "m \<noteq> n1 + 1 \<Longrightarrow> coherent E t m \<Longrightarrow> coherent E u m" for g m
    unfolding wrote_def i by blast+
  have "stored E u g m = (if g = ino s \<and> n0 \<le> m \<and> m \<le> n1 + 1 then new m else stored E s g m)" for g m
    unfolding r u(1) t(1) by auto
  moreover have "file_block (tabs u) g m = (if g = ino s \<and> n0 \<le> m \<and> m \<le> n1 + 1 then Some (block_hash (new m)) else file_block (tabs s) g m)" for g m
    unfolding r u(2) t(2) by auto
  moreover have "coherent E u m" if "\<not> (n0 \<le> m \<and> m \<le> n1 + 1)" "coherent E s m" for m
    using that t(3)[of m] u(3)[of m] unfolding r by blast
  moreover have "consistent E u" "t_files (tabs u) = t_files (tabs s)" "fi_st (c_fi u) = fi_st (c_fi s)"
      "c_disk u = c_disk s" "c_now u = c_now s"
    using assms(1,2) unfolding wrote_range_def wrote_def by simp_all
  ultimately show ?thesis using cont unfolding wrote_range_def by blast
qed

context dedup_env
begin

lemma length_new_block [simp]: "length (new_block E s buf off n) = nat (block_size E)"
  by (simp add: new_block_def)

lemma overlay_new_block:
  assumes c: "consistent E s" and l: "0 \<le> o'" "0 \<le> len" "o' + len \<le> block_size E" "0 \<le> d" "d + len \<le> int (length buf)"
    and pos: "n * block_size E + o' = off + d" and lo: "o' = 0 \<or> d = 0"
    and hi: "o' + len = block_size E \<or> d + len = int (length buf)"
  shows "overlay (nat o') (take (nat len) (drop (nat d) buf)) (stored E s (ino s) n) = new_block E s buf off n"
proof (rule nth_equalityI)
  have L: "int (length (stored E s (ino s) n)) = block_size E"
    using length_stored[OF c] block_size_pos by simp
  have lt: "length (take (nat len) (drop (nat d) buf)) = nat len" using l by simp
  have fit: "nat o' + length (take (nat len) (drop (nat d) buf)) \<le> length (stored E s (ino s) n)"
    using L l lt by simp
  show "length (overlay (nat o') (take (nat len) (drop (nat d) buf)) (stored E s (ino s) n)) = length (new_block E s buf off n)"
    using fit L by simp
  fix i assume "i < length (overlay (nat o') (take (nat len) (drop (nat d) buf)) (stored E s (ino s) n))"
  then have i: "i < length (stored E s (ino s) n)" "int i < block_size E" using fit L by auto
  have byte: "byte_at E s (ino s) (n * block_size E + int i) = stored E s (ino s) n ! i"
    using block_split[of "int i" n] i by (simp add: byte_at_def)
  have "new_block E s buf off n ! i = (if off \<le> n * block_size E + int i \<and> n * block_size E + int i < off + int (length buf)
      then buf ! nat (n * block_size E + int i - off) else stored E s (ino s) n ! i)"
    using i by (simp add: new_block_def byte)
  also have "off \<le> n * block_size E + int i \<and> n * block_size E + int i < off + int (length buf) \<longleftrightarrow>
      o' \<le> int i \<and> int i < o' + len"
    using pos lo hi l i by auto
  finally have new: "new_block E s buf off n ! i = (if o' \<le> int i \<and> int i < o' + len
      then buf ! nat (n * block_size E + int i - off) else stored E s (ino s) n ! i)" .
  show "overlay (nat o') (take (nat len) (drop (nat d) buf)) (stored E s (ino s) n) ! i = new_block E s buf off n ! i"
  proof (cases "o' \<le> int i \<and> int i < o' + len")
    case True
    have "n * block_size E + int i - off = int i + d - o'" using pos by simp
    then have "new_block E s buf off n ! i = buf ! nat (int i + d - o')" using new True by (simp only: simp_thms if_True)
    moreover have "nat (int i + d - o') = nat d + (i - nat o')" using True l by linarith
    moreover have "nat o' \<le> i" "i < nat o' + nat len" "i - nat o' < nat len" "nat d \<le> length buf" using True l by linarith+
    ultimately show ?thesis using overlay_nth[OF fit i(1)] lt by simp
  next
    case False
    then have "\<not> (nat o' \<le> i \<and> i < nat o' + nat len)" using l by linarith
    then show ?thesis using overlay_nth[OF fit i(1)] lt new False by auto
  qed
qed

end

text \<open>What a write relies on, in terms of contents: the hash tells the blocks that are stored or
  written apart, and a block that exists gets a different content.\<close>

definition writable :: "('fm, 'sm) env \<Rightarrow> ('fm, 'sm) cstate \<Rightarrow> (int \<Rightarrow> byte list) \<Rightarrow> int \<Rightarrow> int \<Rightarrow> bool" where
  "writable E s new n0 n1 \<longleftrightarrow>
     inj_on block_hash (contents E s \<union> new ` {n0..n1})
   \<and> (\<forall>n\<in>{n0..n1}. file_block (tabs s) (ino s) n = None \<or> stored E s (ino s) n \<noteq> new n)"

context dedup_env
begin

lemma writable_hash:
  assumes c: "consistent E s" and w: "writable E s new n0 n1" and n: "n \<in> {n0..n1}"
  shows "file_block (tabs s) (ino s) n \<noteq> Some (block_hash (new n))"
proof
  assume h: "file_block (tabs s) (ino s) n = Some (block_hash (new n))"
  from file_row[OF c h] obtain r where r: "stSelectBlockHash (block_hash (new n)) (tabs s) = Some r"
      "r \<in> set (t_hashes (tabs s))" "hr_hash r = block_hash (new n)" .
  have "block_hash (sdata E s (hr_id r)) = block_hash (new n)" using consistentD(7)[OF c r(2)] r(3) by simp
  moreover have "sdata E s (hr_id r) \<in> contents E s" using r(2) by (simp add: contents_def)
  ultimately have "sdata E s (hr_id r) = new n"
    using w n unfolding writable_def inj_on_def by blast
  with stored_Some[OF h r(1)] have "stored E s (ino s) n = new n" by simp
  with w h n show False unfolding writable_def by (metis option.distinct(1))
qed

lemma write_step_ok:
  assumes c: "consistent E s" and w: "writable E s (new_block E s buf off) n0 n1"
    and t: "consistent E t" "stored E t (ino s) n = stored E s (ino s) n"
      "file_block (tabs t) (ino s) n = file_block (tabs s) (ino s) n" "ino t = ino s"
      "contents E t \<subseteq> contents E s \<union> new_block E s buf off ` {n0..n1}"
    and coh: "coherent E t n" and ld: "loadable E t n" and n: "n \<in> {n0..n1}"
    and l: "0 \<le> o'" "0 \<le> len" "o' + len \<le> block_size E" "0 \<le> d" "d + len \<le> int (length buf)"
    and pos: "n * block_size E + o' = off + d" and lo: "o' = 0 \<or> d = 0"
    and hi: "o' + len = block_size E \<or> d + len = int (length buf)"
  shows "returns (writeBlockWrapper E (drop (nat d) buf) n len o') t (\<lambda>_ u. wrote E t n (new_block E s buf off n) u)"
proof (rule writeBlockWrapper_ok[OF t(1) coh ld])
  have "sdata E t (hr_id r) = new_block E s buf off n"
    if r: "r \<in> set (t_hashes (tabs t))" "hr_hash r = block_hash (new_block E s buf off n)" for r
  proof -
    have "block_hash (sdata E t (hr_id r)) = block_hash (new_block E s buf off n)"
      using consistentD(7)[OF t(1) r(1)] r(2) by simp
    moreover have "sdata E t (hr_id r) \<in> contents E s \<union> new_block E s buf off ` {n0..n1}"
      using t(5) r(1) by (auto simp: contents_def)
    ultimately show ?thesis using w n unfolding writable_def inj_on_def by blast
  qed
  moreover have "new_block E s buf off n = overlay (nat o') (take (nat len) (drop (nat d) buf)) (stored E t (ino t) n)"
    using overlay_new_block[OF c l pos lo hi] t by simp
  ultimately show "spliced E t n o' len (drop (nat d) buf) (new_block E s buf off n)"
    using l writable_hash[OF c w n] t(3,4) unfolding spliced_def by auto
qed

end

text \<open>
  \<open>fc\<close> bytes are written and the block \<open>cur\<close> is done: the next byte starts a block, or nothing is left.
\<close>

definition progress :: "('fm, 'sm) env \<Rightarrow> int \<Rightarrow> int \<Rightarrow> int \<Rightarrow> int \<Rightarrow> int \<Rightarrow> bool" where
  "progress E off sz n1 fc cur \<longleftrightarrow> 0 \<le> fc \<and> fc \<le> sz \<and> cur \<le> n1
     \<and> (off + fc = (cur + 1) * block_size E \<or> fc = sz \<and> cur = n1)"

context dedup_env
begin

lemma block_before:
  assumes "n * block_size E < (m + 1) * block_size E"
  shows "n \<le> m"
  using assms block_size_pos by (simp add: mult_less_cancel_right)

lemma progress_end:
  assumes "progress E off sz n1 sz cur" and "n1 * block_size E < off + sz"
  shows "cur = n1"
  using assms block_before[of n1 cur] by (auto simp: progress_def)

lemma progress_step:
  assumes p: "progress E off sz n1 fc cur" and fc: "fc < sz"
    and n1: "n1 * block_size E < off + sz" "off + sz \<le> (n1 + 1) * block_size E"
  shows "cur + 1 \<le> n1" "off + fc = (cur + 1) * block_size E"
    "progress E off sz n1 (fc + min (block_size E) (sz - fc)) (cur + 1)"
proof -
  show pos: "off + fc = (cur + 1) * block_size E" using p fc by (auto simp: progress_def)
  show n: "cur + 1 \<le> n1" using pos fc n1(2) by (intro block_before) simp
  show "progress E off sz n1 (fc + min (block_size E) (sz - fc)) (cur + 1)"
  proof (cases "block_size E \<le> sz - fc")
    case True
    with p n pos block_size_pos show ?thesis by (simp add: progress_def algebra_simps)
  next
    case False
    then have "n1 \<le> cur + 1" using n1(1) pos by (intro block_before) (simp add: algebra_simps)
    with p n False fc show ?thesis by (simp add: progress_def)
  qed
qed

lemma write_round_ok:
  assumes c: "consistent E s" and w: "writable E s (new_block E s buf off) n0 n1"
    and coh: "coherent E s (cur + 1)" and ld: "(cur + 1) * e_db_block_size E \<le> fsize s"
    and t: "wrote_range E s n0 cur (new_block E s buf off) t"
    and n: "n0 \<le> cur" "cur + 1 \<le> n1" and fc: "0 \<le> fc" "fc < int (length buf)" "off + fc = (cur + 1) * block_size E"
  shows "returns (writeBlockWrapper E (drop (nat fc) buf) (cur + 1) (min (block_size E) (int (length buf) - fc)) 0) t
    (\<lambda>_ u. wrote_range E s n0 (cur + 1) (new_block E s buf off) u)"
proof (rule returns_weaken[OF write_step_ok[OF c w] wrote_range_step[OF t _ n(1)]])
  have "new_block E s buf off ` {n0..cur} \<subseteq> new_block E s buf off ` {n0..n1}"
    using n by (intro image_mono) auto
  then show "contents E t \<subseteq> contents E s \<union> new_block E s buf off ` {n0..n1}"
    using t unfolding wrote_range_def by blast
  show "coherent E t (cur + 1)" using t coh by (auto simp: wrote_range_def)
  show "loadable E t (cur + 1)" using ld t by (simp add: loadable_def wrote_range_def)
qed (use t fc n block_size_pos in \<open>auto simp: wrote_range_def\<close>)

lemma write_loop_ok:
  assumes c: "consistent E s" and w: "writable E s (new_block E s buf off) n0 n1" and sz: "sz = int (length buf)"
    and n1: "n1 * block_size E < off + sz" "off + sz \<le> (n1 + 1) * block_size E"
    and coh: "\<And>m. n0 \<le> m \<Longrightarrow> m \<le> n1 \<Longrightarrow> coherent E s m"
    and t: "wrote_range E s n0 cur (new_block E s buf off) t"
    and ld: "\<And>m. n0 \<le> m \<Longrightarrow> m \<le> n1 \<Longrightarrow> m * e_db_block_size E \<le> fsize s"
    and "n0 \<le> cur" "progress E off sz n1 fc cur" "sz - fc \<le> int rounds"
  shows "returns (write_loop E buf sz n1 rounds fc cur) t (\<lambda>cnt u. cnt = sz \<and> wrote_range E s n0 n1 (new_block E s buf off) u)"
  using assms(7-)
proof (induction rounds arbitrary: t fc cur)
  case 0
  then have "fc = sz" by (simp add: progress_def)
  with 0 progress_end[OF _ n1(1)] show ?case by (auto simp: wp_simps)
next
  case (Suc rounds)
  show ?case
  proof (cases "fc < sz")
    case False
    then have "fc = sz" using Suc.prems by (simp add: progress_def)
    with Suc.prems progress_end[OF _ n1(1)] show ?thesis by (auto simp: wp_simps)
  next
    case True
    let ?chunk = "min (block_size E) (sz - fc)"
    note P = progress_step[OF Suc.prems(4) True n1]
    have ch: "int32 ?chunk = ?chunk" "0 < ?chunk" using True block_size_pos by (auto intro!: int32_small)
    have "returns (writeBlockWrapper E (drop (nat fc) buf) (cur + 1) ?chunk 0) t
        (\<lambda>_ u. wrote_range E s n0 (cur + 1) (new_block E s buf off) u)"
      unfolding sz
      by (rule write_round_ok[OF c w _ _ Suc.prems(1,3) P(1) _ _ P(2)])
        (use Suc.prems coh ld P(1) True sz in \<open>auto simp: progress_def\<close>)
    then have "returns (writeBlockWrapper E (drop (nat fc) buf) (cur + 1) ?chunk 0) t (\<lambda>_ u.
        returns (write_loop E buf sz n1 rounds (fc + ?chunk) (cur + 1)) u (\<lambda>cnt u. cnt = sz \<and> wrote_range E s n0 n1 (new_block E s buf off) u))"
      by (rule returns_weaken) (rule Suc.IH, use Suc.prems P ld ch in auto)
    then show ?thesis using True P(1) ch by (simp add: wp_simps Let_def)
  qed
qed

text \<open>Only the size of a file changed.\<close>

lemma rows_t_files [simp]:
  "wf_rows (T\<lparr>t_files := fs\<rparr>) = wf_rows T" "counted (T\<lparr>t_files := fs\<rparr>) = counted T"
  "file_block (T\<lparr>t_files := fs\<rparr>) = file_block T" "stSelectBlockHash h (T\<lparr>t_files := fs\<rparr>) = stSelectBlockHash h T"
  by (simp_all add: wf_rows_def counted_def refs_def file_block_def stSelectBlockHash_def fun_eq_iff)

end

definition resized :: "int \<Rightarrow> ('fm, 'sm) cstate \<Rightarrow> ('fm, 'sm) cstate" where
  "resized n s = s\<lparr>c_db := (c_db s)\<lparr>db_tabs := stUpdateFileSize n (ino s) (tabs s)\<rparr>,
     c_fi := (c_fi s)\<lparr>fi_st := (fi_st (c_fi s))\<lparr>st_size := n\<rparr>\<rparr>\<rparr>"

context dedup_env
begin

lemma resized_sel [simp]:
  "fsize (resized n s) = n" "ino (resized n s) = ino s" "tabs (resized n s) = stUpdateFileSize n (ino s) (tabs s)"
  "c_disk (resized n s) = c_disk s" "c_now (resized n s) = c_now s" "c_next (resized n s) = c_next s"
  "cached E (resized n s) = cached E s" "fblock_at E (resized n s) = fblock_at E s"
  "db_script (c_db (resized n s)) = db_script (c_db s)" "db_saved (c_db (resized n s)) = db_saved (c_db s)"
  by (simp_all add: resized_def cached_def fblock_at_def fun_eq_iff)

lemma resized_content [simp]:
  "sdata E (resized n s) = sdata E s" "stored E (resized n s) = stored E s" "contents E (resized n s) = contents E s"
  "byte_at E (resized n s) = byte_at E s" "consistent E (resized n s) = consistent E s"
  "coherent E (resized n s) m = coherent E s m"
proof -
  show sd: "sdata E (resized n s) = sdata E s" by (simp add: sdata_def fun_eq_iff split: option.split)
  then show st: "stored E (resized n s) = stored E s"
    by (simp add: stored_def stUpdateFileSize_def fun_eq_iff split: option.split)
  show "contents E (resized n s) = contents E s" using sd by (simp add: contents_def stUpdateFileSize_def)
  show "byte_at E (resized n s) = byte_at E s" using st by (simp add: byte_at_def fun_eq_iff)
  show "consistent E (resized n s) = consistent E s"
    using sd by (simp add: consistent_def cache_ok_def stUpdateFileSize_def)
  show "coherent E (resized n s) m = coherent E s m"
    by (simp add: coherent_def knows_def stUpdateFileSize_def cong: option.case_cong)
qed

lemma db_ftruncate_ok:
  assumes "consistent E s" and "0 \<le> n"
  shows "returns (db_ftruncate n) s (\<lambda>x t. x = 0 \<and> t = (if fsize s = n then s else resized n s))"
  using assms by (auto simp: db_ftruncate_def wp_simps consistentD resized_def)

end

text \<open>Block range of a write, and the file after it.\<close>

definition last_block :: "('fm, 'sm) env \<Rightarrow> int \<Rightarrow> int \<Rightarrow> int" where
  "last_block E off sz = drop_bit (e_bits E) (off + sz - 1)"

context dedup_env
begin

lemma last_block_bounds:
  assumes "0 < sz"
  shows "last_block E off sz * block_size E < off + sz" "off + sz \<le> (last_block E off sz + 1) * block_size E"
    "drop_bit (e_bits E) off \<le> last_block E off sz"
proof -
  have *: "last_block E off sz * block_size E + take_bit (e_bits E) (off + sz - 1) = off + sz - 1"
    unfolding last_block_def by (rule block_join)
  have tb: "0 \<le> take_bit (e_bits E) (off + sz - 1)" "take_bit (e_bits E) (off + sz - 1) < block_size E"
    by (rule take_bit_bound)+
  from * tb(1) show "last_block E off sz * block_size E < off + sz" by linarith
  have "(last_block E off sz + 1) * block_size E = last_block E off sz * block_size E + block_size E"
    by (simp add: algebra_simps)
  with * tb(2) show "off + sz \<le> (last_block E off sz + 1) * block_size E" by linarith
  show "drop_bit (e_bits E) off \<le> last_block E off sz"
    unfolding last_block_def drop_bit_eq_div using assms by (intro zdiv_mono1) auto
qed

lemma byte_at_new_block:
  assumes "\<And>g m. stored E t g m = (if g = ino s \<and> drop_bit (e_bits E) off \<le> m \<and> m \<le> last_block E off (int (length buf))
      then new_block E s buf off m else stored E s g m)" and "0 < length buf"
  shows "byte_at E t g i = (if g = ino s \<and> off \<le> i \<and> i < off + int (length buf) then buf ! nat (i - off) else byte_at E s g i)"
proof -
  let ?m = "drop_bit (e_bits E) i" and ?o = "take_bit (e_bits E) i"
  have j: "?m * block_size E + ?o = i" by (rule block_join)
  have o: "0 \<le> ?o" "?o < block_size E" by (rule take_bit_bound)+
  have inside: "new_block E s buf off ?m ! nat ?o =
      (if off \<le> i \<and> i < off + int (length buf) then buf ! nat (i - off) else byte_at E s (ino s) i)"
  proof -
    have len: "nat ?o < length [?m * block_size E..?m * block_size E + block_size E - 1]" using o block_size_pos by simp
    have "[?m * block_size E..?m * block_size E + block_size E - 1] ! nat ?o = i" using o j by simp
    then show ?thesis unfolding new_block_def nth_map[OF len] by simp
  qed
  have range: "drop_bit (e_bits E) off \<le> ?m \<and> ?m \<le> last_block E off (int (length buf))" if "off \<le> i" "i < off + int (length buf)"
    using that unfolding last_block_def drop_bit_eq_div by (auto intro: zdiv_mono1)
  show ?thesis
  proof (cases "g = ino s \<and> drop_bit (e_bits E) off \<le> ?m \<and> ?m \<le> last_block E off (int (length buf))")
    case True
    then have "byte_at E t g i = new_block E s buf off ?m ! nat ?o" by (simp add: byte_at_def assms(1))
    with True inside show ?thesis by simp
  next
    case False
    then have "byte_at E t g i = byte_at E s g i" unfolding byte_at_def assms(1) by (simp only: if_False)
    moreover have "\<not> (g = ino s \<and> off \<le> i \<and> i < off + int (length buf))" using False range by blast
    ultimately show ?thesis by (simp only: if_False)
  qed
qed

lemma new_block_resized [simp]: "new_block E (resized n s) buf off = new_block E s buf off"
  by (simp add: new_block_def fun_eq_iff)

lemma writable_resized [simp]: "writable E (resized n s) new n0 n1 = writable E s new n0 n1"
  by (simp add: writable_def stUpdateFileSize_def)

lemma writeBuf_body_ok:
  assumes c: "consistent E s" and sz: "0 < length buf" and off: "0 \<le> off" "off + int (length buf) \<le> fsize s"
    and dbs: "e_db_block_size E \<le> block_size E"
    and coh: "\<And>m. drop_bit (e_bits E) off \<le> m \<Longrightarrow> m \<le> last_block E off (int (length buf)) \<Longrightarrow> coherent E s m"
    and w: "writable E s (new_block E s buf off) (drop_bit (e_bits E) off) (last_block E off (int (length buf)))"
  defines "n0 \<equiv> drop_bit (e_bits E) off" and "chunk \<equiv> min (int (length buf)) (block_size E - take_bit (e_bits E) off)"
  shows "returns (sqn (writeBlockWrapper E buf n0 chunk (take_bit (e_bits E) off))
      (write_loop E buf (int (length buf)) (last_block E off (int (length buf))) (length buf) chunk n0)) s
    (\<lambda>cnt t. cnt = int (length buf) \<and> wrote_range E s n0 (last_block E off (int (length buf))) (new_block E s buf off) t)"
proof -
  let ?sz = "int (length buf)" and ?n1 = "last_block E off (int (length buf))" and ?o = "take_bit (e_bits E) off"
  have j: "n0 * block_size E + ?o = off" unfolding n0_def by (rule block_join)
  have o: "0 \<le> ?o" "?o < block_size E" by (rule take_bit_bound)+
  have ch: "0 < chunk" "chunk \<le> block_size E - ?o" "chunk \<le> ?sz" using sz o by (auto simp: chunk_def)
  have n: "n0 \<le> ?n1" "?n1 * block_size E < off + ?sz" "off + ?sz \<le> (?n1 + 1) * block_size E"
    unfolding n0_def using last_block_bounds[of ?sz off] sz by auto
  have "0 \<le> n0" using off by (simp add: n0_def)
  have ld: "m * e_db_block_size E \<le> fsize s" if "n0 \<le> m" "m \<le> ?n1" for m
  proof -
    have "m * e_db_block_size E \<le> m * block_size E" using dbs that \<open>0 \<le> n0\<close> by (intro mult_left_mono) auto
    also have "\<dots> \<le> ?n1 * block_size E" using that block_size_pos by (intro mult_right_mono) auto
    finally show ?thesis using n off by simp
  qed
  have "returns (writeBlockWrapper E buf n0 chunk ?o) s (\<lambda>_ u. wrote E s n0 (new_block E s buf off n0) u)"
    using write_step_ok[OF c w c refl refl refl, of n0 ?o chunk 0]
      coh[of n0] ld[of n0] n j o ch unfolding n0_def[symmetric]
    by (auto simp: loadable_def chunk_def min_def split: if_splits)
  then have "returns (writeBlockWrapper E buf n0 chunk ?o) s (\<lambda>_ u.
      returns (write_loop E buf ?sz ?n1 (length buf) chunk n0) u
        (\<lambda>cnt t. cnt = ?sz \<and> wrote_range E s n0 ?n1 (new_block E s buf off) t))"
  proof (rule returns_weaken)
    fix u assume "wrote E s n0 (new_block E s buf off n0) u"
    note u = wrote_range_one[where new = "new_block E s buf off", OF this]
    have "progress E off ?sz ?n1 chunk n0"
    proof (cases "?sz \<le> block_size E - ?o")
      case True
      with j n have "?n1 \<le> n0" by (intro block_before) (simp add: algebra_simps)
      with True n show ?thesis by (simp add: progress_def chunk_def)
    next
      case False
      with j n o show ?thesis by (simp add: progress_def chunk_def algebra_simps)
    qed
    then show "returns (write_loop E buf ?sz ?n1 (length buf) chunk n0) u
        (\<lambda>cnt t. cnt = ?sz \<and> wrote_range E s n0 ?n1 (new_block E s buf off) t)"
      by (intro write_loop_ok[OF c w[folded n0_def] refl n(2,3) _ u ld]) (use coh n ch in \<open>auto simp: n0_def\<close>)
  qed
  then show ?thesis by (simp add: wp_simps)
qed

end

definition grown :: "int \<Rightarrow> ('fm, 'sm) cstate \<Rightarrow> ('fm, 'sm) cstate" where
  "grown n s = (if n > fsize s then resized n s else s)"

context dedup_env
begin

lemma grown_sel [simp]:
  "fsize (grown n s) = max n (fsize s)" "ino (grown n s) = ino s" "c_disk (grown n s) = c_disk s"
  "consistent E (grown n s) = consistent E s" "coherent E (grown n s) m = coherent E s m"
  "stored E (grown n s) = stored E s" "byte_at E (grown n s) = byte_at E s"
  "new_block E (grown n s) buf off = new_block E s buf off" "writable E (grown n s) new n0 n1 = writable E s new n0 n1"
  by (simp_all add: grown_def)

lemma writeBuf_ok:
  assumes c: "consistent E s" and sz: "0 < length buf" and off: "0 \<le> off" and dbs: "e_db_block_size E \<le> block_size E"
    and coh: "\<And>m. drop_bit (e_bits E) off \<le> m \<Longrightarrow> m \<le> last_block E off (int (length buf)) \<Longrightarrow> coherent E s m"
    and w: "writable E s (new_block E s buf off) (drop_bit (e_bits E) off) (last_block E off (int (length buf)))"
  shows "returns (writeBuf E buf (int (length buf)) off) s (\<lambda>cnt t. cnt = int (length buf)
    \<and> wrote_range E (grown (off + int (length buf)) s) (drop_bit (e_bits E) off) (last_block E off (int (length buf)))
        (new_block E s buf off) t)"
proof -
  let ?sz = "int (length buf)" and ?o = "take_bit (e_bits E) off"
  let ?s = "grown (off + ?sz) s"
  let ?chunk = "min ?sz (block_size E - ?o)"
  have "0 \<le> ?chunk" "?chunk \<le> block_size E"
    using take_bit_bound[of off] by (simp_all add: min_le_iff_disj)
  then have ch: "int32 ?chunk = ?chunk" by (rule int32_small)
  have "returns (if ?sz + off > fsize s then sqn (db_ftruncate (?sz + off)) (ret ()) else ret ()) s (\<lambda>_ t. t = ?s)"
  proof (cases "?sz + off > fsize s")
    case True
    have "returns (db_ftruncate (?sz + off)) s (\<lambda>_ t. t = ?s)"
      by (rule returns_weaken[OF db_ftruncate_ok[OF c]]) (use True off in \<open>auto simp: grown_def add.commute\<close>)
    with True show ?thesis by (simp add: wp_simps)
  qed (simp add: wp_simps grown_def)
  then have "returns (if ?sz + off > fsize s then sqn (db_ftruncate (?sz + off)) (ret ()) else ret ()) s (\<lambda>_ u.
      returns (sqn (writeBlockWrapper E buf (drop_bit (e_bits E) off) ?chunk ?o)
        (write_loop E buf ?sz (last_block E off ?sz) (length buf) ?chunk (drop_bit (e_bits E) off))) u
        (\<lambda>cnt t. cnt = ?sz \<and> wrote_range E ?s (drop_bit (e_bits E) off) (last_block E off ?sz) (new_block E s buf off) t))"
  proof (rule returns_weaken)
    fix u assume u: "u = ?s"
    show "returns (sqn (writeBlockWrapper E buf (drop_bit (e_bits E) off) ?chunk ?o)
        (write_loop E buf ?sz (last_block E off ?sz) (length buf) ?chunk (drop_bit (e_bits E) off))) u
        (\<lambda>cnt t. cnt = ?sz \<and> wrote_range E ?s (drop_bit (e_bits E) off) (last_block E off ?sz) (new_block E s buf off) t)"
      using writeBuf_body_ok[of ?s buf off] c sz off dbs coh w u by simp
  qed
  then show ?thesis
    by (simp add: writeBuf_def wp_simps Let_def first_chunk(1) ch last_block_def del: returns_if)
qed

end

subsection \<open>Releasing blocks\<close>

text \<open>What releasing the blocks \<open>ks\<close> of the handle's file changes: they become holes.\<close>

definition dropped :: "('fm, 'sm) env \<Rightarrow> ('fm, 'sm) cstate \<Rightarrow> int set \<Rightarrow> ('fm, 'sm) cstate \<Rightarrow> bool" where
  "dropped E s ks t \<longleftrightarrow> consistent E t \<and> sdata E t = sdata E s
   \<and> (\<forall>g m. file_block (tabs t) g m = (if g = ino s \<and> m \<in> ks then None else file_block (tabs s) g m))
   \<and> (\<forall>g m. stored E t g m = (if g = ino s \<and> m \<in> ks then zeros (block_size E) else stored E s g m))
   \<and> t_files (tabs t) = t_files (tabs s)
   \<and> fi_st (c_fi t) = fi_st (c_fi s) \<and> c_disk t = c_disk s \<and> c_now t = c_now s
   \<and> (\<forall>m. coherent E s m \<longrightarrow> coherent E t m)"

lemma dropped_refl: "consistent E s \<Longrightarrow> dropped E s {} s"
  by (simp add: dropped_def)

lemma dropped_trans:
  assumes "dropped E s ks t" and "dropped E t ks' u"
  shows "dropped E s (ks \<union> ks') u"
proof -
  have "ino t = ino s" using assms(1) by (simp add: dropped_def)
  with assms show ?thesis unfolding dropped_def by auto
qed

lemma select_map:
  assumes "t_hashes T' = map g (t_hashes T)" and "\<And>r. hr_hash (g r) = hr_hash r"
  shows "stSelectBlockHash h T' = map_option g (stSelectBlockHash h T)"
proof -
  have "find (\<lambda>r. hr_hash r = h) (map g hs) = map_option g (find (\<lambda>r. hr_hash r = h) hs)" for hs
    by (induction hs) (auto simp: assms(2))
  then show ?thesis by (simp add: stSelectBlockHash_def assms(1))
qed

context dedup_env
begin

lemma released_cache_ok:
  assumes c: "consistent E s" and r: "r \<in> set (t_hashes (tabs s))" and d: "c_disk t = c_disk s"
    and rows: "t_hashes (tabs t) = map (\<lambda>x. if hr_hash x = hr_hash r then x\<lparr>hr_use := hr_use x - 1\<rparr> else x) (t_hashes (tabs s))"
      (is "_ = map ?g _")
    and z: "map_option (\<lambda>b. if k = hr_id r then b\<lparr>sb_use := sb_use b - 1\<rparr> else b) (cached E s k) = Some z"
  shows "cache_ok E t k z"
proof -
  from z obtain y where y: "cached E s k = Some y" "z = (if k = hr_id r then y\<lparr>sb_use := sb_use y - 1\<rparr> else y)"
    by auto
  from consistentD(5)[OF c y(1)] obtain x where x: "x \<in> set (t_hashes (tabs s))" "hr_id x = k" "hr_use x = sb_use y"
    and yok: "cache_ok E s k y" by (auto simp: cache_ok_def)
  have "hr_hash x = hr_hash r \<longleftrightarrow> k = hr_id r"
    using row_eq_hash[OF consistentD(1)[OF c] x(1) r] row_eq_id[OF consistentD(1)[OF c] x(1) r] x(2) by auto
  then have "hr_use (?g x) = sb_use z" using x y by auto
  moreover have "?g x \<in> set (t_hashes (tabs t))" unfolding rows set_map using x(1) by (rule imageI)
  moreover have "hr_id (?g x) = k" using x(2) by simp
  ultimately have "\<exists>r\<in>set (t_hashes (tabs t)). hr_id r = k \<and> hr_use r = sb_use z" by blast
  with yok y show ?thesis by (cases "k = hr_id r") (auto simp: cache_ok_def d)
qed

lemma released_coherent:
  assumes "coherent E s m" and handle: "fblock_at E t = (fblock_at E s)(n := None)"
    and fb: "\<And>m. m \<noteq> n \<Longrightarrow> file_block (tabs t) (ino s) m = file_block (tabs s) (ino s) m"
    and sel: "\<And>h r. stSelectBlockHash h (tabs s) = Some r \<Longrightarrow> \<exists>r'. stSelectBlockHash h (tabs t) = Some r' \<and> hr_id r' = hr_id r"
    and cache: "\<And>k. map_option sb_oid (cached E t k) = map_option sb_oid (cached E s k)"
    and rest: "fi_st (c_fi t) = fi_st (c_fi s)"
  shows "coherent E t m"
proof (cases "m = n")
  case False
  have "knows E t m b" if b: "knows E s m b" for b
  proof (cases "file_block (tabs s) (ino s) m")
    case (Some h)
    with b obtain r sb where r: "stSelectBlockHash h (tabs s) = Some r" "cached E s (hr_id r) = Some sb"
      "bi_hash b = Some h" "bi_snum b = hr_id r" "bi_num b = m"
      "if bi_sblock b = None then \<not> bi_empty b else bi_sblock b = Some (hr_id r, sb_oid sb)"
      by (auto simp: knows_def)
    from sel[OF r(1)] cache[of "hr_id r"] r obtain r' sb' where "stSelectBlockHash h (tabs t) = Some r'"
        "hr_id r' = hr_id r" "cached E t (hr_id r) = Some sb'" "sb_oid sb' = sb_oid sb"
      by auto
    with r Some False show ?thesis by (simp add: knows_def fb rest)
  qed (use b False in \<open>simp add: knows_def fb rest\<close>)
  with assms(1) False show ?thesis by (auto simp: coherent_def handle)
qed (simp add: coherent_def handle)

lemma dropped_release:
  assumes c: "consistent E s" and h: "file_block (tabs s) (ino s) n = Some h" and r: "stSelectBlockHash h (tabs s) = Some r"
    and T: "tabs t = release_rows (ino s) n h (tabs s)"
    and cache: "cached E t = (\<lambda>k. if k = hr_id r then map_option (\<lambda>b. b\<lparr>sb_use := sb_use b - 1\<rparr>) (cached E s k) else cached E s k)"
    and rest: "db_script (c_db t) = []" "db_saved (c_db t) = None" "fi_st (c_fi t) = fi_st (c_fi s)"
      "c_disk t = c_disk s" "c_now t = c_now s"
    and handle: "fblock_at E t = (fblock_at E s)(n := None)"
  shows "dropped E s {n} t"
proof -
  have rmem: "r \<in> set (t_hashes (tabs s))" "hr_hash r = h" using r select_Some[OF consistentD(1)[OF c]] by auto
  let ?g = "\<lambda>x :: hash_row. if hr_hash x = hr_hash r then x\<lparr>hr_use := hr_use x - 1\<rparr> else x"
  have rows: "t_hashes (tabs t) = map ?g (t_hashes (tabs s))" by (simp add: T hashes_release_rows rmem(2))
  have sel: "stSelectBlockHash h' (tabs t) = map_option ?g (stSelectBlockHash h' (tabs s))" for h'
    by (rule select_map[OF rows]) auto
  have cache': "cached E t k = map_option (\<lambda>b. if k = hr_id r then b\<lparr>sb_use := sb_use b - 1\<rparr> else b) (cached E s k)" for k
    by (simp add: cache option.map_ident)
  have fb: "file_block (tabs t) f m = (if f = ino s \<and> m = n then None else file_block (tabs s) f m)" for f m
    by (simp add: T file_block_release_rows)
  have sd: "sdata E t = sdata E s"
    by (auto simp: sdata_def cache rest fun_eq_iff split: option.split)
  have "cache_ok E t k z" if "cached E t k = Some z" for k z
    by (rule released_cache_ok[OF c rmem(1) rest(4) rows]) (use that in \<open>simp add: cache'\<close>)
  then have cons: "consistent E t"
    using release_rows_wf[OF consistentD(1,2)[OF c] h] consistentD(6,7)[OF c] rest
    by (auto simp: consistent_def T[symmetric] sd rows)
  have st: "stored E t f m = (if f = ino s \<and> m = n then zeros (block_size E) else stored E s f m)" for f m
    by (auto simp: stored_def fb sel sd split: option.split)
  have "coherent E t m" if "coherent E s m" for m
    by (rule released_coherent[OF that handle]) (auto simp: fb sel cache' rest(3) option.map_comp comp_def intro: option.map_cong)
  with cons sd fb st rest show ?thesis by (simp add: dropped_def T release_rows_def stDecreaseUseCount_def stDeleteFileBlock_def)
qed

text \<open>The state a truncation needs of each block it releases: the file has it.\<close>

lemma truncate_loop_ok:
  assumes "consistent E s" and "distinct ks"
    and "\<And>k. k \<in> set ks \<Longrightarrow> coherent E s k \<and> k * e_db_block_size E \<le> fsize s \<and> file_block (tabs s) (ino s) k \<noteq> None"
  shows "returns (truncate_loop E ks) s (\<lambda>_ t. dropped E s (set ks) t)"
  using assms
proof (induction ks arbitrary: s)
  case Nil
  then show ?case by (simp add: wp_simps dropped_refl)
next
  case (Cons n ks)
  note c = Cons.prems(1)
  from Cons.prems(3)[of n] obtain h where h: "file_block (tabs s) (ino s) n = Some h" and coh: "coherent E s n"
    and ld: "n * e_db_block_size E \<le> fsize s" by auto
  from file_row[OF c h] obtain r where r: "stSelectBlockHash h (tabs s) = Some r" "0 < hr_id r" .
  have known: "case fblock_at E s n of Some b \<Rightarrow> bi_hash b = Some h \<and> bi_snum b = hr_id r
      | None \<Rightarrow> n * e_db_block_size E \<le> fsize s"
    using coh h r ld by (auto simp: coherent_def knows_def split: option.split)
  show ?case
    unfolding truncate_loop.simps returns_bnd[of "releaseStorageBlock E n"]
  proof (rule returns_weaken[OF releaseStorageBlock_ok[OF consistentD(3,4)[OF c] h r(1) known]], elim conjE)
    fix k t
    assume k: "k = hr_id r" and t: "tabs t = release_rows (ino s) n h (tabs s)" "db_script (c_db t) = []" "db_saved (c_db t) = None"
      "fblock_at E t = (fblock_at E s)(n := None)" "cached E t = cached E s" "c_disk t = c_disk s"
      "c_next t = c_next s" "c_now t = c_now s" "fi_st (c_fi t) = fi_st (c_fi s)"
    let ?t = "t\<lparr>c_next := Suc (c_next t)\<rparr>"
    let ?u = "case cached E s (hr_id r) of None \<Rightarrow> ?t | Some b \<Rightarrow> put_sblock E (hr_id r) (b\<lparr>sb_use := sb_use b - 1\<rparr>) ?t"
    have "dropped E s {n} ?u"
      by (rule dropped_release[OF c h r(1)]) (auto simp: t fun_eq_iff split: option.split)
    note D = this
    have "returns (truncate_loop E ks) ?u (\<lambda>_ v. dropped E ?u (set ks) v)"
    proof (rule Cons.IH)
      show "consistent E ?u" using D by (simp add: dropped_def)
      show "distinct ks" using Cons.prems by simp
      fix m assume m: "m \<in> set ks"
      with Cons.prems have "m \<noteq> n" by auto
      have i: "ino ?u = ino s" "fsize ?u = fsize s" using D by (simp_all add: dropped_def)
      show "coherent E ?u m \<and> m * e_db_block_size E \<le> fsize ?u \<and> file_block (tabs ?u) (ino ?u) m \<noteq> None"
        using Cons.prems(3)[of m] m D \<open>m \<noteq> n\<close> unfolding i by (simp add: dropped_def)
    qed
    then have "returns (truncate_loop E ks) ?u (\<lambda>_ v. dropped E s (set (n # ks)) v)"
      by (rule returns_weaken) (use dropped_trans[OF D] in simp)
    then show "returns (sqn (if k \<noteq> 0 then sqn new_object (bnd (gets (\<lambda>s. cached E s k)) (\<lambda>found.
        case found of Some _ \<Rightarrow> set_sblock E k (\<lambda>b. b\<lparr>sb_use := sb_use b - 1\<rparr>) | None \<Rightarrow> ret ())) else ret ())
        (truncate_loop E ks)) t (\<lambda>_. dropped E s (set (n # ks)))"
      using r(2) by (cases "cached E s (hr_id r)") (simp_all add: wp_simps k t)
  qed
qed

lemma le_block_iff: "k \<le> drop_bit (e_bits E) (x - 1) \<longleftrightarrow> k * block_size E < x"
proof -
  have "k \<le> drop_bit (e_bits E) (x - 1) \<longleftrightarrow> k * block_size E \<le> x - 1"
    unfolding drop_bit_eq_div block_size_eq
    by (metis block_size_eq block_size_pos div_mult_mod_eq le_drop_bit drop_bit_eq_div mult_right_mono
        order_trans less_imp_le pos_mod_sign le_add_same_cancel1)
  then show ?thesis by auto
qed

lemma truncate_blocks:
  assumes "0 \<le> n" and "n < len"
  shows "set [if n \<noteq> 0 then drop_bit (e_bits E) (n - 1) + 1 else 0..
      (if len \<noteq> 0 then drop_bit (e_bits E) (len - 1) + 1 else 1) - 1] =
    {k. n \<le> k * block_size E \<and> k * block_size E < len}"
proof -
  have "(if n \<noteq> 0 then drop_bit (e_bits E) (n - 1) + 1 else 0) \<le> k \<longleftrightarrow> n \<le> k * block_size E" for k
    using le_block_iff[of k n] assms block_size_pos
    by (auto simp: zero_le_mult_iff not_le not_less)
  with le_block_iff[of _ len] assms show ?thesis by auto
qed

lemma truncate_ok:
  assumes c: "consistent E s" and n: "0 \<le> n"
    and coh: "\<And>m. coherent E s m" and dbs: "e_db_block_size E \<le> block_size E"
    and full: "\<And>k. n \<le> k * block_size E \<Longrightarrow> k * block_size E < fsize s \<Longrightarrow> file_block (tabs s) (ino s) k \<noteq> None"
  shows "returns (truncate E n) s (\<lambda>x t. x = 0 \<and> consistent E t \<and> fsize t = n \<and> ino t = ino s
    \<and> (\<forall>m. coherent E t m) \<and> c_disk t = c_disk s \<and> sdata E t = sdata E s
    \<and> t_files (tabs t) = (if fsize s = n then t_files (tabs s) else t_files (stUpdateFileSize n (ino s) (tabs s)))
    \<and> (\<forall>g m. file_block (tabs t) g m =
        (if g = ino s \<and> n \<le> m * block_size E \<and> m * block_size E < fsize s then None else file_block (tabs s) g m))
    \<and> (\<forall>g m. stored E t g m =
        (if g = ino s \<and> n \<le> m * block_size E \<and> m * block_size E < fsize s then zeros (block_size E) else stored E s g m)))"
proof (cases "fsize s \<le> n")
  case True
  then have no: "\<not> (n \<le> m * block_size E \<and> m * block_size E < fsize s)" for m by auto
  have "returns (db_ftruncate n) s (\<lambda>x t. x = 0 \<and> t = (if fsize s = n then s else resized n s))"
    by (rule db_ftruncate_ok[OF c n])
  then have "returns (truncate E n) s (\<lambda>x t. x = 0 \<and> t = (if fsize s = n then s else resized n s))"
    using True n by (simp add: truncate_def wp_simps)
  then show ?thesis
    by (rule returns_weaken) (use c coh no in \<open>auto simp: stUpdateFileSize_def\<close>)
next
  case False
  let ?ks = "[if n \<noteq> 0 then drop_bit (e_bits E) (n - 1) + 1 else 0..
      (if fsize s \<noteq> 0 then drop_bit (e_bits E) (fsize s - 1) + 1 else 1) - 1]"
  have ks: "set ?ks = {k. n \<le> k * block_size E \<and> k * block_size E < fsize s}"
    by (rule truncate_blocks) (use n False in auto)
  have "returns (truncate_loop E ?ks) s (\<lambda>_ t. dropped E s (set ?ks) t)"
  proof (rule truncate_loop_ok[OF c])
    fix k assume "k \<in> set ?ks"
    then have k: "n \<le> k * block_size E" "k * block_size E < fsize s" unfolding ks by auto
    then have "0 \<le> k" using n block_size_pos by (metis order_trans zero_le_mult_iff not_le)
    then have "k * e_db_block_size E \<le> k * block_size E" using dbs by (intro mult_left_mono) auto
    with k coh full show "coherent E s k \<and> k * e_db_block_size E \<le> fsize s \<and> file_block (tabs s) (ino s) k \<noteq> None"
      by fastforce
  qed simp
  then have "returns (truncate_loop E ?ks) s (\<lambda>_ t. returns (db_ftruncate n) t
      (\<lambda>x u. x = 0 \<and> dropped E s (set ?ks) t \<and> u = resized n t))"
  proof (rule returns_weaken)
    fix t assume D: "dropped E s (set ?ks) t"
    then have "consistent E t" "fsize t = fsize s" by (simp_all add: dropped_def)
    with db_ftruncate_ok[OF this(1) n] D False
    show "returns (db_ftruncate n) t (\<lambda>x u. x = 0 \<and> dropped E s (set ?ks) t \<and> u = resized n t)"
      by (auto elim!: returns_weaken)
  qed
  then have "returns (truncate_loop E ?ks) s (\<lambda>_ t. returns (db_ftruncate n) t
      (\<lambda>x u. x = 0 \<and> (\<exists>t. dropped E s (set ?ks) t \<and> u = resized n t)))"
    by (elim returns_weaken) blast
  then have "returns (truncate E n) s (\<lambda>x u. x = 0 \<and> (\<exists>t. dropped E s (set ?ks) t \<and> u = resized n t))"
    using False n by (simp add: truncate_def wp_simps Let_def del: returns_if)
  then have "returns (truncate E n) s (\<lambda>x u. x = 0
      \<and> (\<exists>t. dropped E s {k. n \<le> k * block_size E \<and> k * block_size E < fsize s} t \<and> u = resized n t))"
    unfolding ks .
  then show ?thesis
    by (rule returns_weaken) (use coh False in \<open>auto simp: dropped_def stUpdateFileSize_def\<close>)
qed

end

subsection \<open>Properties\<close>


lemma block_hash_inj_16: "length x = 16 \<Longrightarrow> length y = 16 \<Longrightarrow> block_hash x = block_hash y \<longleftrightarrow> x = y"
  using x64_128_group_inj[of "[]" x y "[]" HASH_SEED] by (simp add: block_hash_def)




end
