(* ===== verification/Cache_Writer.thy ===== *)
theory Cache_Writer
  imports Cache_Write
begin

text \<open>
  The writer thread (\<open>BlocksCache::run\<close>): flushing dirty blocks to the storage file and
  evicting old ones.  A round of its loop is \<open>run_pass\<close>.  The clock stands still during a
  round; \<open>sb_atime\<close> is what \<open>access\<close> or the constructor stored.

  The lemmas show that a round changes no content, that what it has flushed survives the
  process, and that the writer returns to waiting.
\<close>

subsection \<open>The pass\<close>

text \<open>\<open>pwrite\<close> at a position of the storage file; a gap before it reads as zeros.\<close>

definition pwrite :: "byte list \<Rightarrow> nat \<Rightarrow> byte list \<Rightarrow> byte list" where
  "pwrite data pos disk =
    (let disk = disk @ replicate (pos - length disk) 0 in
     take pos disk @ data @ drop (pos + length data) disk)"

definition pwrite_block :: "('fm, 'sm) env \<Rightarrow> storage_block \<Rightarrow> (('fm, 'sm) cstate, unit) comp" where
  "pwrite_block E b =
    (if block_size E \<le> int (length (sb_data b)) then
       modify (\<lambda>s. s\<lparr>c_disk := pwrite (take (nat (block_size E)) (sb_data b))
         (nat (push_bit (e_bits E) (sb_num b))) (c_disk s)\<rparr>)
     else halt BadLength)"

definition flush_block :: "('fm, 'sm) env \<Rightarrow> int \<Rightarrow> (('fm, 'sm) cstate, unit) comp" where
  "flush_block E k =
    bnd (deref_sblock E k) (\<lambda>block.
    if sb_dirty block then
      sqn (pwrite_block E block)
     (set_sblock E k (\<lambda>b. b\<lparr>sb_dirty := False\<rparr>))
    else ret ())"

text \<open>The first loop: flush every block, and find the oldest access.\<close>

primrec flush_loop :: "('fm, 'sm) env \<Rightarrow> int list \<Rightarrow> int \<Rightarrow> (('fm, 'sm) cstate, int) comp" where
  "flush_loop E [] mintime = ret mintime"
| "flush_loop E (k # ks) mintime =
    bnd (deref_sblock E k) (\<lambda>block.
    sqn (flush_block E k)
   (flush_loop E ks (min mintime (sb_atime block))))"

text \<open>The second loop: up to 64 blocks that were not used for 10 seconds after that.\<close>

primrec mark_loop :: "('fm, 'sm) env \<Rightarrow> int \<Rightarrow> int list \<Rightarrow> int list \<Rightarrow> (('fm, 'sm) cstate, int list) comp" where
  "mark_loop E mintime [] toDelete = ret toDelete"
| "mark_loop E mintime (k # ks) toDelete =
    (if length toDelete > 63 then ret toDelete
     else bnd (deref_sblock E k) (\<lambda>block.
       if sb_atime block < mintime + 10 then
         sqn (flush_block E k) (mark_loop E mintime ks (toDelete @ [k]))
       else mark_loop E mintime ks toDelete))"

definition erase_sblock :: "('fm, 'sm) env \<Rightarrow> int \<Rightarrow> ('fm, 'sm) cstate \<Rightarrow> ('fm, 'sm) cstate" where
  "erase_sblock E k s = s\<lparr>c_cache := cs_erase (e_sblocks E) k (c_cache s)\<rparr>"

primrec erase_loop :: "('fm, 'sm) env \<Rightarrow> int list \<Rightarrow> (('fm, 'sm) cstate, unit) comp" where
  "erase_loop E [] = ret ()"
| "erase_loop E (k # ks) = sqn (modify (erase_sblock E k)) (erase_loop E ks)"

definition cache_keys :: "('fm, 'sm) env \<Rightarrow> ('fm, 'sm) cstate \<Rightarrow> int list" where
  "cache_keys E s = map fst (cs_items (e_sblocks E) (c_cache s))"

text \<open>One round of the loop of \<open>run\<close>; the result is its flag \<open>repeat\<close>.\<close>

definition run_pass :: "('fm, 'sm) env \<Rightarrow> (('fm, 'sm) cstate, bool) comp" where
  "run_pass E =
    bnd (gets c_now) (\<lambda>now.
    bnd (gets (cache_keys E)) (\<lambda>ks.
    bnd (flush_loop E ks now) (\<lambda>mintime.
    bnd (gets (\<lambda>s. length (cache_keys E s))) (\<lambda>count.
    if count > 500 then
      bnd (gets (cache_keys E)) (\<lambda>ks.
      bnd (mark_loop E mintime ks []) (\<lambda>toDelete.
      sqn (erase_loop E toDelete)
     (gets (\<lambda>s. length (cache_keys E s) > 500))))
    else ret False))))"

subsection \<open>What a pass does\<close>

text \<open>From \<open>s\<close> to \<open>t\<close> no row, no handle and no content changed.\<close>

definition same_store :: "('fm, 'sm) env \<Rightarrow> ('fm, 'sm) cstate \<Rightarrow> ('fm, 'sm) cstate \<Rightarrow> bool" where
  "same_store E s t \<longleftrightarrow> c_db t = c_db s \<and> c_fi t = c_fi s \<and> c_now t = c_now s
   \<and> stored E t = stored E s \<and> consistent E t
   \<and> (\<forall>r\<in>set (t_hashes (tabs s)). sdata E t (hr_id r) = sdata E s (hr_id r))"

lemma stored_cong:
  assumes "consistent E s" and "tabs t = tabs s"
    and "\<And>r. r \<in> set (t_hashes (tabs s)) \<Longrightarrow> sdata E t (hr_id r) = sdata E s (hr_id r)"
  shows "stored E t = stored E s"
proof (intro ext)
  fix f n show "stored E t f n = stored E s f n"
  proof (cases "file_block (tabs s) f n")
    case (Some h)
    from file_row[OF assms(1) this] obtain r where "stSelectBlockHash h (tabs s) = Some r" "r \<in> set (t_hashes (tabs s))" .
    with Some assms(2,3) show ?thesis by (simp add: stored_def)
  qed (simp add: stored_def assms(2))
qed

definition cleaned :: "int set \<Rightarrow> (int \<Rightarrow> storage_block option) \<Rightarrow> int \<Rightarrow> storage_block option" where
  "cleaned ks c = (\<lambda>k. if k \<in> ks then map_option (\<lambda>b. b\<lparr>sb_dirty := False\<rparr>) (c k) else c k)"

lemma cleaned_insert:
  "cleaned ks (c(k := map_option (\<lambda>b. b\<lparr>sb_dirty := False\<rparr>) (c k))) = cleaned (insert k ks) c"
  by (auto simp: cleaned_def fun_eq_iff option.map_comp o_def)

lemma same_store_refl: "consistent E s \<Longrightarrow> same_store E s s"
  by (simp add: same_store_def)

lemma same_store_trans: "same_store E s t \<Longrightarrow> same_store E t u \<Longrightarrow> same_store E s u"
  by (simp add: same_store_def)

context dedup_env
begin

lemma cached_erase [simp]: "cached E (erase_sblock E k s) = (cached E s)(k := None)"
  by (simp add: cached_def erase_sblock_def sb.cds_simps fun_eq_iff)

lemma erase_sel [simp]:
  "c_db (erase_sblock E k s) = c_db s" "c_fi (erase_sblock E k s) = c_fi s" "c_now (erase_sblock E k s) = c_now s"
  "c_disk (erase_sblock E k s) = c_disk s" "fblock_at E (erase_sblock E k s) = fblock_at E s"
  by (simp_all add: erase_sblock_def fblock_at_def fun_eq_iff)

lemma set_cache_keys: "set (cache_keys E s) = dom (cached E s)"
  using sb.items_iff[of _ _ "c_cache s"] by (force simp: cache_keys_def cached_def)

lemma distinct_cache_keys: "distinct (cache_keys E s)"
  by (simp add: cache_keys_def sb.distinct_items)

lemma length_cache_keys: "length (cache_keys E s) = card (dom (cached E s))"
  using distinct_card[OF distinct_cache_keys] set_cache_keys by metis

lemma length_pwrite: "length (pwrite data pos disk) = max (length disk) (pos + length data)"
  by (auto simp: pwrite_def Let_def)

lemma pwrite_nth:
  assumes "i < max (length disk) (pos + length data)"
  shows "pwrite data pos disk ! i = (if pos \<le> i \<and> i < pos + length data then data ! (i - pos)
    else if i < length disk then disk ! i else 0)"
  using assms by (auto simp: pwrite_def Let_def nth_append min_def)

lemma disk_block_pwrite_same:
  assumes "0 \<le> k" and "int (length data) = block_size E"
  shows "disk_block E (pwrite data (nat (k * block_size E)) disk) k = data"
  using assms by (auto simp: disk_block_alt pwrite_def Let_def)

lemma disk_block_pwrite_other:
  assumes "0 \<le> k" "0 \<le> m" "k \<noteq> m" and len: "int (length data) = block_size E"
    and full: "int (length (disk_block E disk m)) = block_size E"
  shows "disk_block E (pwrite data (nat (k * block_size E)) disk) m = disk_block E disk m"
proof (rule nth_equalityI)
  let ?b = "nat (block_size E)" and ?p = "nat (k * block_size E)" and ?q = "nat (m * block_size E)"
  have q: "?q + ?b \<le> length disk"
    using full block_size_pos by (simp add: disk_block_alt min_def split: if_splits)
  have l: "length data = ?b" using len by simp
  have apart: "?p + ?b \<le> ?q \<or> ?q + ?b \<le> ?p"
  proof -
    from \<open>k \<noteq> m\<close> consider "k + 1 \<le> m" | "m + 1 \<le> k" by linarith
    then show ?thesis
    proof cases
      case 1
      then have "(k + 1) * block_size E \<le> m * block_size E" using block_size_pos by (intro mult_right_mono) auto
      then have "nat (k * block_size E + block_size E) \<le> ?q" by (simp add: algebra_simps)
      with block_size_pos assms(1) show ?thesis by (simp add: nat_add_distrib)
    next
      case 2
      then have "(m + 1) * block_size E \<le> k * block_size E" using block_size_pos by (intro mult_right_mono) auto
      then have "nat (m * block_size E + block_size E) \<le> ?p" by (simp add: algebra_simps)
      with block_size_pos assms(2) show ?thesis by (simp add: nat_add_distrib)
    qed
  qed
  show "length (disk_block E (pwrite data ?p disk) m) = length (disk_block E disk m)"
    using q by (simp add: disk_block_alt length_pwrite)
  fix i assume "i < length (disk_block E (pwrite data ?p disk) m)"
  then have i: "i < ?b" by (simp add: disk_block_alt)
  then show "disk_block E (pwrite data ?p disk) m ! i = disk_block E disk m ! i"
    using q apart l by (simp add: disk_block_alt pwrite_nth length_pwrite) linarith
qed

text \<open>Flushing one block.\<close>

lemma flushed_other:
  assumes c: "consistent E s" and k: "0 < k" and len: "int (length data) = block_size E"
    and r: "r \<in> set (t_hashes (tabs s))" "hr_id r \<noteq> k"
    and l: "int (length (disk_block E (c_disk s) (hr_id r))) = block_size E"
  shows "disk_block E (pwrite data (nat (k * block_size E)) (c_disk s)) (hr_id r) = disk_block E (c_disk s) (hr_id r)"
  using disk_block_pwrite_other[OF _ _ _ len l] k wf_rowsD(3)[OF consistentD(1)[OF c] r(1)] r(2) by simp

lemma flushed_sdata:
  assumes c: "consistent E s" and b: "cached E s k = Some b" and k: "0 < k" and len: "int (length (sb_data b)) = block_size E"
    and r: "r \<in> set (t_hashes (tabs s))"
  shows "sdata E (put_sblock E k (b\<lparr>sb_dirty := False\<rparr>) (s\<lparr>c_disk := pwrite (sb_data b) (nat (k * block_size E)) (c_disk s)\<rparr>))
    (hr_id r) = sdata E s (hr_id r)"
proof (cases "hr_id r = k \<or> (\<exists>x. cached E s (hr_id r) = Some x \<and> sb_data x \<noteq> [])")
  case True
  have "sb_data b \<noteq> []" using len block_size_pos by auto
  with True b show ?thesis by (cases "hr_id r = k") (auto simp: sdata_def)
next
  case False
  then have "sdata E s (hr_id r) = disk_block E (c_disk s) (hr_id r)" by (auto simp: sdata_def split: option.split)
  with flushed_other[OF c k len r] consistentD(6)[OF c r] False show ?thesis
    by (auto simp: sdata_def split: option.split)
qed

lemma flush_block_ok:
  assumes c: "consistent E s" and b: "cached E s k = Some b"
  shows "returns (flush_block E k) s (\<lambda>_ t. same_store E s t \<and> cached E t = (cached E s)(k \<mapsto> b\<lparr>sb_dirty := False\<rparr>))"
proof (cases "sb_dirty b")
  case False
  then have "b\<lparr>sb_dirty := False\<rparr> = b" by simp
  with False b c show ?thesis by (simp add: flush_block_def wp_simps same_store_refl fun_upd_idem)
next
  case True
  from consistentD(5)[OF c b] True obtain r where r: "r \<in> set (t_hashes (tabs s))" "hr_id r = k" "hr_use r = sb_use b"
    and num: "sb_num b = k" and len: "int (length (sb_data b)) = block_size E" by (auto simp: cache_ok_def split: if_splits)
  have k: "0 < k" using wf_rowsD(3)[OF consistentD(1)[OF c] r(1)] r(2) by simp
  let ?d = "pwrite (sb_data b) (nat (k * block_size E)) (c_disk s)"
  let ?t = "put_sblock E k (b\<lparr>sb_dirty := False\<rparr>) (s\<lparr>c_disk := ?d\<rparr>)"
  note sd = flushed_sdata[OF c b k len]
  have "cache_ok E ?t m x" if x: "cached E ?t m = Some x" for m x
  proof (cases "m = k")
    case True
    with x r num len disk_block_pwrite_same[OF _ len] k block_size_pos show ?thesis by (auto simp: cache_ok_def)
  next
    case False
    with x have "cached E s m = Some x" by simp
    from consistentD(5)[OF c this] obtain r' where r': "r' \<in> set (t_hashes (tabs s))" "hr_id r' = m" "hr_use r' = sb_use x"
      and "cache_ok E s m x" by (auto simp: cache_ok_def)
    with flushed_other[OF c k len r'(1)] False show ?thesis by (auto simp: cache_ok_def)
  qed
  then have "consistent E ?t" using c sd by (auto simp: consistent_def)
  moreover have "stored E ?t = stored E s"
    by (rule stored_cong[OF c]) (use sd in auto)
  ultimately have "same_store E s ?t" using sd by (simp add: same_store_def)
  with True b num len show ?thesis
    by (simp add: flush_block_def wp_simps pwrite_block_def shiftl_mult block_size_eq[symmetric])
qed

text \<open>A clean block can go: the storage file has its content.\<close>

lemma erase_sblock_ok:
  assumes c: "consistent E s" and clean: "\<And>b. cached E s k = Some b \<Longrightarrow> \<not> sb_dirty b"
  shows "same_store E s (erase_sblock E k s)"
proof -
  have sd: "sdata E (erase_sblock E k s) = sdata E s"
  proof
    fix m show "sdata E (erase_sblock E k s) m = sdata E s m"
      using clean consistentD(5)[OF c] by (cases "cached E s m") (force simp: sdata_def cache_ok_def split: if_splits)+
  qed
  have "consistent E (erase_sblock E k s)"
    using c by (auto simp: consistent_def sd cache_ok_def)
  moreover have "stored E (erase_sblock E k s) = stored E s" by (rule stored_cong[OF c]) (simp_all add: sd)
  ultimately show ?thesis by (simp add: same_store_def sd)
qed

lemma erase_loop_ok:
  assumes "consistent E s" and "\<And>k b. k \<in> set ks \<Longrightarrow> cached E s k = Some b \<Longrightarrow> \<not> sb_dirty b"
  shows "returns (erase_loop E ks) s (\<lambda>_ t. same_store E s t \<and> cached E t = cached E s |` (- set ks))"
  using assms
proof (induction ks arbitrary: s)
  case Nil
  then show ?case by (simp add: wp_simps same_store_refl restrict_map_def)
next
  case (Cons k ks)
  have S: "same_store E s (erase_sblock E k s)" by (rule erase_sblock_ok) (use Cons.prems in auto)
  then have c: "consistent E (erase_sblock E k s)" by (simp add: same_store_def)
  have "returns (erase_loop E ks) (erase_sblock E k s) (\<lambda>_ t. same_store E (erase_sblock E k s) t
      \<and> cached E t = cached E (erase_sblock E k s) |` (- set ks))"
    using Cons.prems(2) by (intro Cons.IH[OF c]) (auto split: if_splits)
  then have "returns (erase_loop E ks) (erase_sblock E k s) (\<lambda>_ t. same_store E s t
      \<and> cached E t = cached E s |` (- set (k # ks)))"
    by (rule returns_weaken) (auto intro: same_store_trans[OF S] simp: restrict_map_def fun_eq_iff)
  then show ?case by (simp add: wp_simps)
qed

lemma flush_loop_ok:
  assumes "consistent E s" and "set ks \<subseteq> dom (cached E s)"
  shows "returns (flush_loop E ks m) s (\<lambda>m' t. same_store E s t \<and> cached E t = cleaned (set ks) (cached E s)
    \<and> m' = foldl min m (map (\<lambda>k. sb_atime (the (cached E s k))) ks))"
  using assms
proof (induction ks arbitrary: s m)
  case Nil
  then show ?case by (simp add: wp_simps same_store_refl cleaned_def)
next
  case (Cons k ks)
  then obtain b where b: "cached E s k = Some b" by auto
  have "returns (flush_block E k) s (\<lambda>_ u. returns (flush_loop E ks (min m (sb_atime b))) u
     (\<lambda>m' t. same_store E s t \<and> cached E t = cleaned (set (k # ks)) (cached E s)
    \<and> m' = foldl min m (map (\<lambda>k. sb_atime (the (cached E s k))) (k # ks))))"
  proof (rule returns_weaken[OF flush_block_ok[OF Cons.prems(1) b]], elim conjE)
    fix u assume S: "same_store E s u" and cu: "cached E u = (cached E s)(k \<mapsto> b\<lparr>sb_dirty := False\<rparr>)"
    then have c: "consistent E u" by (simp add: same_store_def)
    have at: "(\<lambda>k'. sb_atime (the (cached E u k'))) = (\<lambda>k'. sb_atime (the (cached E s k')))"
      by (auto simp: cu b fun_eq_iff)
    have cl: "cleaned (set ks) (cached E u) = cleaned (set (k # ks)) (cached E s)"
      using cleaned_insert[of "set ks" "cached E s" k] b by (simp add: cu)
    have dom: "set ks \<subseteq> dom (cached E u)" using Cons.prems(2) by (auto simp: cu)
    show "returns (flush_loop E ks (min m (sb_atime b))) u
     (\<lambda>m' t. same_store E s t \<and> cached E t = cleaned (set (k # ks)) (cached E s)
      \<and> m' = foldl min m (map (\<lambda>k. sb_atime (the (cached E s k))) (k # ks)))"
      by (rule returns_weaken[OF Cons.IH[OF c dom]])
        (use b in \<open>auto simp: cl at intro: same_store_trans[OF S] simp del: set_simps\<close>)
  qed
  with b show ?case by (simp add: wp_simps)
qed

end

text \<open>What choosing the blocks to evict leaves: at most 64, all old enough, all clean, and every old one
  if there was room.\<close>

definition marked :: "('fm, 'sm) env \<Rightarrow> int \<Rightarrow> int list \<Rightarrow> int list \<Rightarrow> ('fm, 'sm) cstate \<Rightarrow> int list \<Rightarrow> ('fm, 'sm) cstate \<Rightarrow> bool" where
  "marked E m ks del s del' t \<longleftrightarrow> same_store E s t \<and> length del' \<le> 64
    \<and> (\<exists>new. del' = del @ new \<and> set new \<subseteq> set ks \<and> (distinct ks \<longrightarrow> distinct new)
        \<and> cached E t = cleaned (set new) (cached E s)
        \<and> (\<forall>k\<in>set new. sb_atime (the (cached E s k)) < m + 10)
        \<and> (length del' = 64 \<or> (\<forall>k\<in>set ks. sb_atime (the (cached E s k)) < m + 10 \<longrightarrow> k \<in> set new)))"

context dedup_env
begin

lemma marked_skip:
  assumes "marked E m ks del s del' t" and "\<not> sb_atime (the (cached E s k)) < m + 10"
  shows "marked E m (k # ks) del s del' t"
  using assms unfolding marked_def by auto

lemma marked_flush:
  assumes M: "marked E m ks (del @ [k]) u del' t" and S: "same_store E s u"
    and b: "cached E s k = Some b" "sb_atime b < m + 10" and cu: "cached E u = (cached E s)(k \<mapsto> b\<lparr>sb_dirty := False\<rparr>)"
  shows "marked E m (k # ks) del s del' t"
proof -
  from M obtain new where *: "same_store E u t" "length del' \<le> 64" "del' = (del @ [k]) @ new" "set new \<subseteq> set ks"
    "distinct ks \<longrightarrow> distinct new" "cached E t = cleaned (set new) (cached E u)"
    "\<forall>k\<in>set new. sb_atime (the (cached E u k)) < m + 10"
    "length del' = 64 \<or> (\<forall>k\<in>set ks. sb_atime (the (cached E u k)) < m + 10 \<longrightarrow> k \<in> set new)"
    unfolding marked_def by blast
  have at: "sb_atime (the (cached E u x)) = sb_atime (the (cached E s x))" for x by (simp add: cu b)
  have "cleaned (set new) (cached E u) = cleaned (set (k # new)) (cached E s)"
    using cleaned_insert[of "set new" "cached E s" k] b by (simp add: cu)
  with *(6) have "cached E t = cleaned (set (k # new)) (cached E s)" by simp
  moreover have "same_store E s t" by (rule same_store_trans[OF S *(1)])
  ultimately show ?thesis
    unfolding marked_def using * b at by (intro conjI exI[of _ "k # new"]) auto
qed

lemma mark_loop_ok:
  assumes "consistent E s" and "set ks \<subseteq> dom (cached E s)" and "length del \<le> 64"
  shows "returns (mark_loop E m ks del) s (\<lambda>del' t. marked E m ks del s del' t)"
  using assms
proof (induction ks arbitrary: s del)
  case Nil
  then show ?case by (simp add: wp_simps marked_def same_store_refl cleaned_def)
next
  case (Cons k ks)
  then obtain b where b: "cached E s k = Some b" by auto
  show ?case
  proof (cases "length del > 63")
    case True
    with Cons.prems show ?thesis by (simp add: wp_simps marked_def same_store_refl cleaned_def)
  next
    case False
    show ?thesis
    proof (cases "sb_atime b < m + 10")
      case no: False
      with Cons.IH[OF Cons.prems(1), of del] Cons.prems False b show ?thesis
        by (auto simp: wp_simps elim!: returns_weaken intro: marked_skip)
    next
      case True
      have "returns (mark_loop E m ks (del @ [k])) u (\<lambda>del' t. marked E m (k # ks) del s del' t)"
        if S: "same_store E s u" and cu: "cached E u = (cached E s)(k \<mapsto> b\<lparr>sb_dirty := False\<rparr>)" for u
        by (rule returns_weaken[OF Cons.IH marked_flush[OF _ S b True cu]])
          (use S Cons.prems(2) False in \<open>auto simp: same_store_def cu\<close>)
      then have "returns (flush_block E k) s (\<lambda>_ u. returns (mark_loop E m ks (del @ [k])) u
          (\<lambda>del' t. marked E m (k # ks) del s del' t))"
        by (intro returns_weaken[OF flush_block_ok[OF Cons.prems(1) b]]) blast
      with True False b show ?thesis by (simp add: wp_simps)
    qed
  qed
qed

lemma foldl_min_le: "foldl min m (xs :: int list) \<le> m \<and> (\<forall>x\<in>set xs. foldl min m xs \<le> x)"
proof (induction xs arbitrary: m)
  case (Cons x xs)
  from Cons[of "min m x"] show ?case by auto
qed simp

lemma foldl_min_in: "foldl min m (xs :: int list) \<in> insert m (set xs)"
proof (induction xs arbitrary: m)
  case (Cons x xs)
  from Cons[of "min m x"] show ?case by (auto simp: min_def split: if_splits)
qed simp

lemma dom_cleaned [simp]: "dom (cleaned ks c) = dom c"
  by (auto simp: cleaned_def dom_def split: if_splits)

lemma finite_cached: "finite (dom (cached E s))"
  using finite_set[of "cache_keys E s"] by (simp add: set_cache_keys)

lemma flushed_oldest:
  assumes ne: "cache_keys E s \<noteq> []" and at: "\<And>k b. cached E s k = Some b \<Longrightarrow> sb_atime b \<le> now"
  obtains k where "k \<in> dom (cached E s)"
    "sb_atime (the (cached E s k)) \<le> foldl min now (map (\<lambda>k. sb_atime (the (cached E s k))) (cache_keys E s))"
proof -
  let ?at = "\<lambda>k. sb_atime (the (cached E s k))" and ?ks = "cache_keys E s"
  obtain k0 where k0: "k0 \<in> set ?ks" using ne by (cases ?ks) auto
  consider "foldl min now (map ?at ?ks) = now" | k where "k \<in> set ?ks" "?at k = foldl min now (map ?at ?ks)"
    using foldl_min_in[of now "map ?at ?ks"] by auto
  then show thesis
  proof cases
    case 1
    have "?at k0 \<le> now" using at k0 by (auto simp: set_cache_keys)
    with 1 k0 that show thesis by (auto simp: set_cache_keys)
  qed (use that in \<open>auto simp: set_cache_keys\<close>)
qed

end

text \<open>What a round does to the cache, when it began with the cache of \<open>s\<close>.\<close>

definition pass_done :: "('fm, 'sm) env \<Rightarrow> ('fm, 'sm) cstate \<Rightarrow> bool \<Rightarrow> ('fm, 'sm) cstate \<Rightarrow> bool" where
  "pass_done E s rep t \<longleftrightarrow> same_store E s t
    \<and> (\<forall>k b. cached E t k = Some b \<longrightarrow> \<not> sb_dirty b \<and> (\<exists>b'. cached E s k = Some b' \<and> b = b'\<lparr>sb_dirty := False\<rparr>))
    \<and> card (dom (cached E s)) \<le> card (dom (cached E t)) + 64
    \<and> rep = (card (dom (cached E t)) > 500)
    \<and> (card (dom (cached E s)) > 500 \<and> (\<forall>k b. cached E s k = Some b \<longrightarrow> sb_atime b \<le> c_now s) \<longrightarrow>
         card (dom (cached E t)) < card (dom (cached E s)))"

context dedup_env
begin

lemma evicted_done:
  assumes S: "same_store E s w" and del: "set del \<subseteq> dom (cached E s)" "distinct del" "length del \<le> 64"
    and cw: "cached E w = (\<lambda>k. map_option (\<lambda>b. b\<lparr>sb_dirty := False\<rparr>) (cached E s k)) |` (- set del)"
    and some: "(\<And>k b. cached E s k = Some b \<Longrightarrow> sb_atime b \<le> c_now s) \<Longrightarrow> del \<noteq> []"
  shows "pass_done E s (length (cache_keys E w) > 500) w"
proof -
  have "dom (cached E w) = dom (cached E s) - set del" by (auto simp: cw)
  then have card: "card (dom (cached E w)) = card (dom (cached E s)) - length del"
    using del by (simp add: card_Diff_subset distinct_card finite_subset[OF del(1) finite_cached])
  have le: "length del \<le> card (dom (cached E s))"
    using card_mono[OF finite_cached del(1)] del(2) by (simp add: distinct_card)
  have "card (dom (cached E w)) < card (dom (cached E s))"
    if big: "card (dom (cached E s)) > 500" and at: "\<forall>k b. cached E s k = Some b \<longrightarrow> sb_atime b \<le> c_now s"
  proof -
    from at have "del \<noteq> []" by (intro some) blast
    with card big show ?thesis by (cases del) simp_all
  qed
  then show ?thesis
    unfolding pass_done_def using S card le del(3)
    by (auto simp: length_cache_keys cw restrict_map_def split: if_splits)
qed

lemma evict_ok:
  assumes S: "same_store E s u" and cu: "cached E u = (\<lambda>k. map_option (\<lambda>b. b\<lparr>sb_dirty := False\<rparr>) (cached E s k))"
    and mt: "mintime = foldl min (c_now s) (map (\<lambda>k. sb_atime (the (cached E s k))) (cache_keys E s))"
    and ne: "cache_keys E s \<noteq> []"
    and M: "marked E mintime (cache_keys E u) [] u del v"
  shows "returns (erase_loop E del) v (\<lambda>_ w. pass_done E s (length (cache_keys E w) > 500) w)"
proof -
  have dom_u: "set (cache_keys E u) = dom (cached E s)" by (auto simp: set_cache_keys cu dom_def)
  have at: "sb_atime (the (cached E u k)) = sb_atime (the (cached E s k))" if "k \<in> dom (cached E s)" for k
    using that by (auto simp: cu)
  from M have Sv: "same_store E u v" and del: "length del \<le> 64" "set del \<subseteq> dom (cached E s)" "distinct del"
    and cv: "cached E v = cleaned (set del) (cached E u)"
    and old: "length del = 64 \<or> (\<forall>k\<in>dom (cached E s). sb_atime (the (cached E u k)) < mintime + 10 \<longrightarrow> k \<in> set del)"
    using distinct_cache_keys[of u] unfolding marked_def dom_u by auto
  have cv': "cached E v = cached E u" by (auto simp: cv cleaned_def cu fun_eq_iff option.map_comp o_def)
  have some: "del \<noteq> []" if at_now: "\<And>k b. cached E s k = Some b \<Longrightarrow> sb_atime b \<le> c_now s"
  proof -
    obtain k where k: "k \<in> dom (cached E s)" "sb_atime (the (cached E s k)) \<le> mintime"
      unfolding mt by (rule flushed_oldest[OF ne at_now])
    with at[OF k(1)] have "sb_atime (the (cached E u k)) < mintime + 10" by simp
    with old k(1) show ?thesis by auto
  qed
  have "returns (erase_loop E del) v (\<lambda>_ t. same_store E v t \<and> cached E t = cached E v |` (- set del))"
    using Sv cv' by (intro erase_loop_ok) (auto simp: same_store_def cu)
  then show ?thesis
    by (rule returns_weaken)
      (auto intro!: evicted_done[OF _ del(2,3,1) _ some] intro: same_store_trans[OF same_store_trans[OF S Sv]] simp: cv' cu)
qed

lemma run_pass_ok:
  assumes c: "consistent E s"
  shows "returns (run_pass E) s (\<lambda>rep t. same_store E s t
    \<and> (\<forall>k b. cached E t k = Some b \<longrightarrow> \<not> sb_dirty b \<and> (\<exists>b'. cached E s k = Some b' \<and> b = b'\<lparr>sb_dirty := False\<rparr>))
    \<and> card (dom (cached E s)) \<le> card (dom (cached E t)) + 64
    \<and> rep = (card (dom (cached E t)) > 500)
    \<and> (card (dom (cached E s)) > 500 \<and> (\<forall>k b. cached E s k = Some b \<longrightarrow> sb_atime b \<le> c_now s) \<longrightarrow>
         card (dom (cached E t)) < card (dom (cached E s))))"
proof -
  have "returns (if length (cache_keys E u) > 500 then bnd (mark_loop E mintime (cache_keys E u) []) (\<lambda>toDelete.
        sqn (erase_loop E toDelete) (gets (\<lambda>s. length (cache_keys E s) > 500))) else ret False) u (pass_done E s)"
    if S: "same_store E s u" and cl: "cached E u = cleaned (set (cache_keys E s)) (cached E s)"
      and mt: "mintime = foldl min (c_now s) (map (\<lambda>k. sb_atime (the (cached E s k))) (cache_keys E s))" for mintime u
  proof -
    have cu: "cached E u = (\<lambda>k. map_option (\<lambda>b. b\<lparr>sb_dirty := False\<rparr>) (cached E s k))"
      by (auto simp: cl cleaned_def set_cache_keys fun_eq_iff dom_def)
    have len: "length (cache_keys E u) = card (dom (cached E s))" by (simp add: length_cache_keys cu dom_def)
    show ?thesis
    proof (cases "length (cache_keys E u) > 500")
      case False
      with S len show ?thesis by (auto simp: wp_simps pass_done_def cu dom_def)
    next
      case True
      then have ne: "cache_keys E s \<noteq> []" using len by (auto simp: length_cache_keys[symmetric])
      have "returns (mark_loop E mintime (cache_keys E u) []) u (\<lambda>del v. returns (erase_loop E del) v (\<lambda>_ w.
          pass_done E s (length (cache_keys E w) > 500) w))"
        by (rule returns_weaken[OF mark_loop_ok evict_ok[OF S cu mt ne]]) (use S in \<open>auto simp: same_store_def set_cache_keys\<close>)
      with True show ?thesis by (simp add: wp_simps)
    qed
  qed
  then have "returns (flush_loop E (cache_keys E s) (c_now s)) s (\<lambda>mintime u.
     returns (if length (cache_keys E u) > 500 then bnd (mark_loop E mintime (cache_keys E u) []) (\<lambda>toDelete.
        sqn (erase_loop E toDelete) (gets (\<lambda>s. length (cache_keys E s) > 500))) else ret False) u (pass_done E s))"
    by (intro returns_weaken[OF flush_loop_ok[OF c]]) (simp_all add: set_cache_keys)
  then have "returns (run_pass E) s (pass_done E s)"
    unfolding run_pass_def returns_bnd returns_gets returns_if returns_sqn returns_ret .
  then show ?thesis unfolding pass_done_def .
qed

end

subsection \<open>Repeated passes\<close>

text \<open>The rounds the writer makes without waiting, as long as \<open>repeat\<close> is set.  The result is
  the flag after the last round, so \<open>False\<close> means that the writer went back to waiting.\<close>

primrec run_repeat :: "('fm, 'sm) env \<Rightarrow> nat \<Rightarrow> (('fm, 'sm) cstate, bool) comp" where
  "run_repeat E 0 = ret True"
| "run_repeat E (Suc rounds) = bnd (run_pass E) (\<lambda>repeat. if repeat then run_repeat E rounds else ret False)"

text \<open>The process ends and starts again: the cache is empty, rows and storage file stay.\<close>

definition restart :: "('fm, 'sm) env \<Rightarrow> ('fm, 'sm) cstate \<Rightarrow> ('fm, 'sm) cstate" where
  "restart E s = s\<lparr>c_cache := cs_empty (e_sblocks E),
     c_fi := (c_fi s)\<lparr>fi_blocks := cs_empty (e_fblocks E)\<rparr>\<rparr>"

context dedup_env
begin

lemma restart_sel [simp]:
  "cached E (restart E s) = Map.empty" "fblock_at E (restart E s) = Map.empty"
  "c_db (restart E s) = c_db s" "c_disk (restart E s) = c_disk s" "fi_st (c_fi (restart E s)) = fi_st (c_fi s)"
  by (simp_all add: restart_def cached_def fblock_at_def sb.cds_simps fb.cds_simps fun_eq_iff)

lemma restart_ok:
  assumes c: "consistent E s" and clean: "\<And>k b. cached E s k = Some b \<Longrightarrow> \<not> sb_dirty b"
  shows "consistent E (restart E s) \<and> stored E (restart E s) = stored E s"
proof -
  have sd: "sdata E (restart E s) = sdata E s"
  proof
    fix m show "sdata E (restart E s) m = sdata E s m"
      using clean consistentD(5)[OF c] by (cases "cached E s m") (force simp: sdata_def cache_ok_def split: if_splits)+
  qed
  have "consistent E (restart E s)" using c by (auto simp: consistent_def sd)
  moreover have "stored E (restart E s) = stored E s" by (rule stored_cong[OF c]) (simp_all add: sd)
  ultimately show ?thesis by simp
qed

lemma run_repeat_ok:
  assumes "consistent E s" and "\<And>k b. cached E s k = Some b \<Longrightarrow> sb_atime b \<le> c_now s"
    and "card (dom (cached E s)) < 500 + n" and "0 < n"
  shows "returns (run_repeat E n) s (\<lambda>rep t. \<not> rep \<and> card (dom (cached E t)) \<le> 500 \<and> same_store E s t)"
  using assms
proof (induction n arbitrary: s)
  case (Suc n)
  have "returns (run_pass E) s (\<lambda>rep t. returns (if rep then run_repeat E n else ret False) t
      (\<lambda>rep t. \<not> rep \<and> card (dom (cached E t)) \<le> 500 \<and> same_store E s t))"
  proof (rule returns_weaken[OF run_pass_ok[OF Suc.prems(1)]], elim conjE)
    fix rep t
    assume S: "same_store E s t" and rep: "rep = (card (dom (cached E t)) > 500)"
      and cache: "\<forall>k b. cached E t k = Some b \<longrightarrow> \<not> sb_dirty b \<and> (\<exists>b'. cached E s k = Some b' \<and> b = b'\<lparr>sb_dirty := False\<rparr>)"
      and less: "card (dom (cached E s)) > 500 \<and> (\<forall>k b. cached E s k = Some b \<longrightarrow> sb_atime b \<le> c_now s) \<longrightarrow>
         card (dom (cached E t)) < card (dom (cached E s))"
    have sub: "dom (cached E t) \<subseteq> dom (cached E s)" using cache by (auto simp: dom_def)
    show "returns (if rep then run_repeat E n else ret False) t
      (\<lambda>rep t. \<not> rep \<and> card (dom (cached E t)) \<le> 500 \<and> same_store E s t)"
    proof (cases rep)
      case False
      with rep S show ?thesis by (simp add: wp_simps)
    next
      case True
      with rep have big: "card (dom (cached E t)) > 500" by simp
      with card_mono[OF finite_cached sub] have "card (dom (cached E s)) > 500" by simp
      with less Suc.prems(2) have "card (dom (cached E t)) < card (dom (cached E s))" by blast
      with Suc.prems(3) have n: "card (dom (cached E t)) < 500 + n" by simp
      with big have "0 < n" by simp
      have c: "consistent E t" using S by (simp add: same_store_def)
      have at: "sb_atime b \<le> c_now t" if "cached E t k = Some b" for k b
      proof -
        from cache that obtain b' where "cached E s k = Some b'" "b = b'\<lparr>sb_dirty := False\<rparr>" by blast
        with Suc.prems(2)[of k b'] S show ?thesis by (simp add: same_store_def)
      qed
      have "returns (run_repeat E n) t (\<lambda>rep u. \<not> rep \<and> card (dom (cached E u)) \<le> 500 \<and> same_store E t u)"
        by (rule Suc.IH[OF c _ n \<open>0 < n\<close>]) (rule at)
      then have "returns (run_repeat E n) t (\<lambda>rep u. \<not> rep \<and> card (dom (cached E u)) \<le> 500 \<and> same_store E s u)"
        by (rule returns_weaken) (auto intro: same_store_trans[OF S])
      with True show ?thesis by simp
    qed
  qed
  then show ?case by (simp add: wp_simps)
qed simp

end

subsection \<open>Properties\<close>

text \<open>C5: A pass of the writer changes no content: on a consistent store it ends normally; the rows,
  the handle and the content of every block of every file are the same, the store is
  consistent, no cached block is dirty any more, at most 64 blocks left the cache, and the
  pass asks to be repeated exactly if more than 500 blocks are left.\<close>

theorem run_pass_content:
  assumes "dedup_env E" and "consistent E s"
  shows "returns (run_pass E) s (\<lambda>rep t. consistent E t \<and> c_db t = c_db s \<and> c_fi t = c_fi s
    \<and> stored E t = stored E s
    \<and> (\<forall>k b. cached E t k = Some b \<longrightarrow> \<not> sb_dirty b \<and> cached E s k \<noteq> None)
    \<and> card (dom (cached E s)) \<le> card (dom (cached E t)) + 64
    \<and> rep = (card (dom (cached E t)) > 500))"
  by (rule returns_weaken[OF dedup_env.run_pass_ok[OF assms]]) (auto simp: same_store_def, blast+)

theorem run_pass_content_witness:
  "returns (run_pass (std_env 4)) content_state (\<lambda>rep t. stored (std_env 4) t 7 0 = demo_data)"
  by (rule returns_weaken[OF run_pass_content[OF dedup_env_std content_consistent]])
    (simp_all add: content_stored)



text \<open>C19: The writer stops repeating: when no cached block was accessed after now, the passes it
  makes without waiting bring the cache down to 500 blocks; one round more than there are blocks
  above 500 is enough.\<close>

theorem run_repeat_terminates:
  assumes "dedup_env E" and "consistent E s" and "\<And>k b. cached E s k = Some b \<Longrightarrow> sb_atime b \<le> c_now s"
    and "card (dom (cached E s)) < 500 + n" and "0 < n"
  shows "returns (run_repeat E n) s (\<lambda>rep t. \<not> rep \<and> card (dom (cached E t)) \<le> 500 \<and> stored E t = stored E s)"
  by (rule returns_weaken[OF dedup_env.run_repeat_ok[OF assms]]) (auto simp: same_store_def)

theorem run_repeat_terminates_witness:
  "returns (run_repeat (std_env 4) 1) content_state (\<lambda>rep t. \<not> rep \<and> card (dom (cached (std_env 4) t)) \<le> 500)"
  by (rule returns_weaken[OF run_repeat_terminates[OF dedup_env_std content_consistent]]) (simp_all add: dom_def)

text \<open>Nothing protects a block between the loop that marks it and the loop that erases it: if a
  handler writes to a marked block in between, erasing it drops the written data, and the
  block's content falls back to what the storage file has.\<close>

theorem erase_loop_loses_data:
  assumes "dedup_env E" and "cached E s k = Some b" and "sb_data b \<noteq> []"
    and "disk_block E (c_disk s) k \<noteq> sb_data b"
  shows "returns (erase_loop E [k]) s (\<lambda>_ t. sdata E s k = sb_data b
    \<and> sdata E t k = disk_block E (c_disk s) k \<and> sdata E t k \<noteq> sdata E s k)"
  using assms(2-4) by (simp add: wp_simps sdata_def dedup_env.cached_erase[OF assms(1)] dedup_env.erase_sel[OF assms(1)])

theorem erase_loop_loses_data_witness:
  "returns (erase_loop (std_env 4) [1]) (demo_state\<lparr>c_cache := RBT.insert 1 (demo_sblock\<lparr>sb_data := demo_data, sb_dirty := True\<rparr>) RBT.empty\<rparr>)
    (\<lambda>_ t. sdata (std_env 4) t 1 \<noteq> demo_data)"
  by (rule returns_weaken[OF erase_loop_loses_data[where b = "demo_sblock\<lparr>sb_data := demo_data, sb_dirty := True\<rparr>"]])
    (auto simp: dedup_env_std cached_def rbt_cds_def demo_data_def demo_state_def disk_block_def)

end
