(* ===== verification/Dedup_Fs.thy ===== *)
theory Dedup_Fs
  imports Cache_Writer
begin

text \<open>
  The FUSE handlers of class \<open>DedupFS\<close> (\<open>dedupfs.cpp\<close>) on the state of the daemon, and
  the try blocks of \<open>wrap.cpp\<close> around them.

  The state holds the connection of the thread, the cache and the storage file, the
  \<open>file_info\<close> objects that a handle refers to by their address, and the flag of the
  writer's condition variable.  Addresses are numbers that are not given out twice, so
  using one after its object is gone is seen (\<open>UseAfterFree\<close>).  What a handler passes
  back through a pointer argument (the \<open>stat\<close>, \<open>fh\<close>, the bytes read) is part of its
  result.
\<close>

subsection \<open>The state of the daemon\<close>

record ('fm, 'sm) fs =
  fs_db :: sqldb
  fs_cache :: 'sm
  fs_disk :: "byte list"
  fs_next :: nat
  fs_now :: int
  fs_objects :: "nat \<rightharpoonup> 'fm file_info"
  fs_fresh :: nat
  fs_instance :: bool            \<comment> \<open>this thread has its \<open>DedupFS\<close>\<close>
  fs_triggered :: bool           \<comment> \<open>\<open>writeTriggered\<close>\<close>

definition enter :: "'fm file_info \<Rightarrow> ('fm, 'sm) fs \<Rightarrow> ('fm, 'sm) cstate" where
  "enter fi s = \<lparr>c_db = fs_db s, c_fi = fi, c_cache = fs_cache s, c_disk = fs_disk s,
     c_next = fs_next s, c_now = fs_now s\<rparr>"

definition leave :: "('fm, 'sm) cstate \<Rightarrow> ('fm, 'sm) fs \<Rightarrow> ('fm, 'sm) fs" where
  "leave c s = s\<lparr>fs_db := c_db c, fs_cache := c_cache c, fs_disk := c_disk c, fs_next := c_next c\<rparr>"

definition fs_on_db :: "(sqldb, 'a) comp \<Rightarrow> (('fm, 'sm) fs, 'a) comp" where
  "fs_on_db = zoom fs_db fs_db_update"

text \<open>A call on an object that only the handler refers to.\<close>

definition with_temp :: "'fm file_info \<Rightarrow> (('fm, 'sm) cstate, 'a) comp \<Rightarrow> (('fm, 'sm) fs, 'a) comp" where
  "with_temp fi m = (\<lambda>s. case m (enter fi s) of (r, c) \<Rightarrow> (r, leave c s))"

text \<open>A call that gets the address of a handle as an \<open>intrusive_ptr\<close>: the reference is counted
  while the call runs, and given back on every way out.\<close>

definition with_handle :: "nat \<Rightarrow> (('fm, 'sm) cstate, 'a) comp \<Rightarrow> (('fm, 'sm) fs, 'a) comp" where
  "with_handle fh m = (\<lambda>s.
    case fs_objects s fh of
      None \<Rightarrow> (Halt (if fh = 0 then NullDeref else UseAfterFree), s)
    | Some fi \<Rightarrow>
        (case m (enter (intrusive_ptr_add_ref fi) s) of
          (r, c) \<Rightarrow> (r, (leave c s)\<lparr>fs_objects := (fs_objects s)(fh := intrusive_ptr_release (c_fi c))\<rparr>)))"

text \<open>\<open>fi.detach()\<close>: the object outlives the handler, with the reference the handler had.\<close>

definition detach :: "'fm file_info \<Rightarrow> (('fm, 'sm) fs, nat) comp" where
  "detach fi = (\<lambda>s. (Ok (fs_fresh s), s\<lparr>fs_objects := (fs_objects s)(fs_fresh s \<mapsto> fi), fs_fresh := Suc (fs_fresh s)\<rparr>))"

text \<open>\<open>intrusive_ptr_release((file_info*)fh)\<close>\<close>

definition release_handle :: "nat \<Rightarrow> (('fm, 'sm) fs, unit) comp" where
  "release_handle fh = (\<lambda>s.
    case fs_objects s fh of
      None \<Rightarrow> (Halt (if fh = 0 then NullDeref else UseAfterFree), s)
    | Some fi \<Rightarrow> (Ok (), s\<lparr>fs_objects := (fs_objects s)(fh := intrusive_ptr_release fi)\<rparr>))"

definition sync :: "(('fm, 'sm) fs, unit) comp" where
  "sync = modify (fs_triggered_update (\<lambda>_. True))"

text \<open>The writer's round on the state of the daemon; it takes the flag back first.  The writer
  has no file.\<close>

definition no_file :: "('fm, 'sm) env \<Rightarrow> 'fm file_info" where
  "no_file E = \<lparr>fi_refcount = 0, fi_name = [], fi_depth = 0,
     fi_st = \<lparr>st_ino = 0, st_size = 0, st_mode = 0, st_uid = 0, st_gid = 0, st_mtime = 0, st_ctime = 0\<rparr>,
     fi_blocks = cs_empty (e_fblocks E)\<rparr>"

definition writer_round :: "('fm, 'sm) env \<Rightarrow> (('fm, 'sm) fs, bool) comp" where
  "writer_round E =
    sqn (modify (fs_triggered_update (\<lambda>_. False)))
        (with_temp (no_file E) (run_pass E))"

subsection \<open>Instance\<close>

text \<open>\<open>DedupFS::Instance\<close>: the first call of a thread opens its connection and makes sure that
  there is a root directory.\<close>

definition DedupFS_Instance :: "('fm, 'sm) env \<Rightarrow> (('fm, 'sm) fs, unit) comp" where
  "DedupFS_Instance E =
    bnd (gets fs_instance) (\<lambda>there.
    if there then ret ()
    else bnd (gets fs_now) (\<lambda>now.
      sqn (fs_on_db (DataBase_new E now))
          (modify (fs_instance_update (\<lambda>_. True)))))"

subsection \<open>Names\<close>

definition Getattr :: "('fm, 'sm) env \<Rightarrow> string \<Rightarrow> (('fm, 'sm) fs, int \<times> stat option) comp" where
  "Getattr E path =
    bnd (fs_on_db (getByPath E path)) (\<lambda>fi.
    if fi_ino fi \<noteq> 0 then ret (0, Some (fi_st fi)) else ret (- ENOENT, None))"

definition Mkdir :: "('fm, 'sm) env \<Rightarrow> string \<Rightarrow> 32 word \<Rightarrow> (('fm, 'sm) fs, int) comp" where
  "Mkdir E path mode = bnd (gets fs_now) (\<lambda>now. fs_on_db (create E now path (mode OR S_IFDIR)))"

definition Unlink :: "('fm, 'sm) env \<Rightarrow> string \<Rightarrow> (('fm, 'sm) fs, int) comp" where
  "Unlink E path =
    bnd (fs_on_db (getByPath E path)) (\<lambda>fi.
    if fi_ino fi = 0 then ret (- ENOENT)
    else if S_ISDIR (fi_mode fi) then ret (- EISDIR)
    else bnd (with_temp fi (Blocks_Cache.truncate E 0)) (\<lambda>res.
      if res \<noteq> 0 then ret res else fs_on_db (remove path)))"

definition Rmdir :: "('fm, 'sm) env \<Rightarrow> string \<Rightarrow> (('fm, 'sm) fs, int) comp" where
  "Rmdir E path =
    bnd (fs_on_db (getByPath E path)) (\<lambda>fi.
    if \<not> S_ISDIR (fi_mode fi) then ret (- ENOTDIR)
    else bnd (fs_on_db (dirEmpty fi)) (\<lambda>empty.
      if \<not> empty then ret (- ENOTEMPTY) else fs_on_db (remove path)))"

definition Rename :: "('fm, 'sm) env \<Rightarrow> string \<Rightarrow> string \<Rightarrow> (('fm, 'sm) fs, int) comp" where
  "Rename E path newpath = fs_on_db (rename E path newpath)"

definition Truncate :: "('fm, 'sm) env \<Rightarrow> string \<Rightarrow> int \<Rightarrow> (('fm, 'sm) fs, int) comp" where
  "Truncate E path newSize =
    bnd (fs_on_db (getByPath E path)) (\<lambda>fi.
    if fi_ino fi = 0 then ret (- ENOENT)
    else if \<not> S_ISREG (fi_mode fi) then ret (- EINVAL)
    else with_temp fi (Blocks_Cache.truncate E newSize))"

definition Utime :: "string \<Rightarrow> int \<Rightarrow> (('fm, 'sm) fs, int) comp" where
  "Utime path modtime = fs_on_db (utime path modtime)"

subsection \<open>Open files\<close>

definition Open :: "('fm, 'sm) env \<Rightarrow> string \<Rightarrow> (('fm, 'sm) fs, int \<times> nat option) comp" where
  "Open E path =
    bnd (fs_on_db (getByPath E path)) (\<lambda>fi.
    if fi_ino fi = 0 then ret (- ENOENT, None)
    else if \<not> S_ISREG (fi_mode fi) then ret (- EIO, None)
    else bnd (detach fi) (\<lambda>fh. ret (0, Some fh)))"

definition Create :: "('fm, 'sm) env \<Rightarrow> string \<Rightarrow> 32 word \<Rightarrow> (('fm, 'sm) fs, int \<times> nat option) comp" where
  "Create E path mode =
    bnd (gets fs_now) (\<lambda>now.
    bnd (fs_on_db (create E now path mode)) (\<lambda>res.
    if res \<ge> 0 then
      bnd (fs_on_db (getByPath E path)) (\<lambda>fi.
      bnd (detach fi) (\<lambda>fh. ret (res, Some fh)))
    else ret (res, Some 0)))"

definition Read :: "('fm, 'sm) env \<Rightarrow> nat \<Rightarrow> int \<Rightarrow> int \<Rightarrow> (('fm, 'sm) fs, int \<times> byte list) comp" where
  "Read E fh sz offset =
    bnd (with_handle fh (readBuf E sz offset)) (\<lambda>(cnt, buf). ret (int32 cnt, buf))"

definition Write :: "('fm, 'sm) env \<Rightarrow> nat \<Rightarrow> byte list \<Rightarrow> int \<Rightarrow> int \<Rightarrow> (('fm, 'sm) fs, int) comp" where
  "Write E fh buf sz offset =
    bnd (with_handle fh (writeBuf E buf sz offset)) (\<lambda>cnt. ret (int32 cnt))"

definition Flush :: "(('fm, 'sm) fs, int) comp" where
  "Flush = sqn sync (ret 0)"

definition Release :: "nat \<Rightarrow> (('fm, 'sm) fs, int) comp" where
  "Release fh = sqn (release_handle fh) (sqn sync (ret 0))"

definition Fsync :: "(('fm, 'sm) fs, int) comp" where
  "Fsync = sqn sync (ret 0)"

definition Ftruncate :: "('fm, 'sm) env \<Rightarrow> nat \<Rightarrow> int \<Rightarrow> (('fm, 'sm) fs, int) comp" where
  "Ftruncate E fh newSize = with_handle fh (Blocks_Cache.truncate E newSize)"

subsection \<open>Open directories\<close>

definition Opendir :: "('fm, 'sm) env \<Rightarrow> string \<Rightarrow> (('fm, 'sm) fs, int \<times> nat option) comp" where
  "Opendir E path =
    bnd (fs_on_db (getByPath E path)) (\<lambda>fi.
    if fi_ino fi \<noteq> 0 then
      if \<not> S_ISDIR (fi_mode fi) then ret (- ENOTDIR, None)
      else bnd (detach fi) (\<lambda>fh. ret (0, Some fh))
    else ret (- ENOENT, None))"

text \<open>\<open>filler\<close> is the caller's: it adds an entry to its buffer, and says whether that is full.
  The loop ends at the first entry it refuses.\<close>

fun fill_entries :: "('fm, 'sm) env \<Rightarrow> ('b \<Rightarrow> string \<Rightarrow> stat \<Rightarrow> 'b \<times> bool) \<Rightarrow> 'fm file_info list \<Rightarrow> 'b \<Rightarrow> 'b" where
  "fill_entries E filler [] buf = buf"
| "fill_entries E filler (file # files) buf =
    (case filler buf (e_leaf E (fi_name file)) (fi_st file) of
      (buf, full) \<Rightarrow> if full then buf else fill_entries E filler files buf)"

definition Readdir :: "('fm, 'sm) env \<Rightarrow> ('b \<Rightarrow> string \<Rightarrow> stat \<Rightarrow> 'b \<times> bool) \<Rightarrow> nat \<Rightarrow> 'b
    \<Rightarrow> (('fm, 'sm) fs, int \<times> 'b) comp" where
  "Readdir E filler fh buf =
    with_handle fh
     (bnd (gets c_fi) (\<lambda>fi.
      bnd (on_db (readdir E fi)) (\<lambda>files.
      let buf = fst (filler buf ''.'' (fi_st fi));
          buf = fst (filler buf ''..'' (fi_st fi))
      in ret (0, fill_entries E filler files buf))))"

definition Releasedir :: "nat \<Rightarrow> (('fm, 'sm) fs, int) comp" where
  "Releasedir fh = sqn (release_handle fh) (ret 0)"

definition Fsyncdir :: "(('fm, 'sm) fs, int) comp" where
  "Fsyncdir = ret 0"

subsection \<open>Handlers that are not implemented\<close>

definition Readlink :: "string \<Rightarrow> int \<Rightarrow> (('fm, 'sm) fs, int) comp" where
  "Readlink path sz = ret (- ENOSYS)"

definition Mknod :: "string \<Rightarrow> 32 word \<Rightarrow> (('fm, 'sm) fs, int) comp" where
  "Mknod path mode = ret (- ENOSYS)"

definition Symlink :: "string \<Rightarrow> string \<Rightarrow> (('fm, 'sm) fs, int) comp" where
  "Symlink path link = ret (- ENOSYS)"

definition Link :: "string \<Rightarrow> string \<Rightarrow> (('fm, 'sm) fs, int) comp" where
  "Link path newpath = ret (- ENOSYS)"

definition Chmod :: "string \<Rightarrow> 32 word \<Rightarrow> (('fm, 'sm) fs, int) comp" where
  "Chmod path mode = ret (- ENOSYS)"

definition Chown :: "string \<Rightarrow> int \<Rightarrow> int \<Rightarrow> (('fm, 'sm) fs, int) comp" where
  "Chown path uid gid = ret (- ENOSYS)"

definition Statfs :: "string \<Rightarrow> (('fm, 'sm) fs, int) comp" where
  "Statfs path = ret (- ENOSYS)"

definition Setxattr :: "string \<Rightarrow> string \<Rightarrow> byte list \<Rightarrow> (('fm, 'sm) fs, int) comp" where
  "Setxattr path name val = ret (- ENOSYS)"

definition Getxattr :: "string \<Rightarrow> string \<Rightarrow> (('fm, 'sm) fs, int) comp" where
  "Getxattr path name = ret (- ENOSYS)"

definition Listxattr :: "string \<Rightarrow> (('fm, 'sm) fs, int) comp" where
  "Listxattr path = ret (- ENOSYS)"

definition Removexattr :: "string \<Rightarrow> string \<Rightarrow> (('fm, 'sm) fs, int) comp" where
  "Removexattr path name = ret (- ENOSYS)"

text \<open>\<open>Init\<close> hands the options through.\<close>

definition Init :: "'p \<Rightarrow> (('fm, 'sm) fs, 'p option) comp" where
  "Init private_data = ret (Some private_data)"

end
