(* ===== verification/Wrap.thy ===== *)
theory Wrap
  imports Dedup_Fs
begin

text \<open>
  \<open>wrap.cpp\<close>: the functions FUSE calls.  Each runs a handler of the thread's \<open>DedupFS\<close> in a
  try block and answers \<open>-EIO\<close> to an exception; the outputs are then what the caller
  passed, here \<open>None\<close> or the empty list.  \<open>request\<close> and \<open>serve\<close> are the operations table
  that \<open>main\<close> fills (\<open>main.cpp\<close>); the entries that are \<open>NULL\<close> there are left out.
\<close>

subsection \<open>The try blocks\<close>

definition wrap :: "('fm, 'sm) env \<Rightarrow> 'a \<Rightarrow> (('fm, 'sm) fs, 'a) comp \<Rightarrow> (('fm, 'sm) fs, 'a) comp" where
  "wrap E err m = try_catch (sqn (DedupFS_Instance E) m) (\<lambda>e. ret err)"

definition wrap_getattr :: "('fm, 'sm) env \<Rightarrow> string \<Rightarrow> (('fm, 'sm) fs, int \<times> stat option) comp" where
  "wrap_getattr E path = wrap E (- EIO, None) (Getattr E path)"

definition wrap_readlink :: "('fm, 'sm) env \<Rightarrow> string \<Rightarrow> int \<Rightarrow> (('fm, 'sm) fs, int) comp" where
  "wrap_readlink E path sz = wrap E (- EIO) (Readlink path sz)"

definition wrap_mknod :: "('fm, 'sm) env \<Rightarrow> string \<Rightarrow> 32 word \<Rightarrow> (('fm, 'sm) fs, int) comp" where
  "wrap_mknod E path mode = wrap E (- EIO) (Mknod path mode)"

definition wrap_mkdir :: "('fm, 'sm) env \<Rightarrow> string \<Rightarrow> 32 word \<Rightarrow> (('fm, 'sm) fs, int) comp" where
  "wrap_mkdir E path mode = wrap E (- EIO) (Mkdir E path mode)"

definition wrap_unlink :: "('fm, 'sm) env \<Rightarrow> string \<Rightarrow> (('fm, 'sm) fs, int) comp" where
  "wrap_unlink E path = wrap E (- EIO) (Unlink E path)"

definition wrap_rmdir :: "('fm, 'sm) env \<Rightarrow> string \<Rightarrow> (('fm, 'sm) fs, int) comp" where
  "wrap_rmdir E path = wrap E (- EIO) (Rmdir E path)"

definition wrap_symlink :: "('fm, 'sm) env \<Rightarrow> string \<Rightarrow> string \<Rightarrow> (('fm, 'sm) fs, int) comp" where
  "wrap_symlink E path link = wrap E (- EIO) (Symlink path link)"

definition wrap_rename :: "('fm, 'sm) env \<Rightarrow> string \<Rightarrow> string \<Rightarrow> (('fm, 'sm) fs, int) comp" where
  "wrap_rename E path newpath = wrap E (- EIO) (Rename E path newpath)"

definition wrap_link :: "('fm, 'sm) env \<Rightarrow> string \<Rightarrow> string \<Rightarrow> (('fm, 'sm) fs, int) comp" where
  "wrap_link E path newpath = wrap E (- EIO) (Link path newpath)"

definition wrap_chmod :: "('fm, 'sm) env \<Rightarrow> string \<Rightarrow> 32 word \<Rightarrow> (('fm, 'sm) fs, int) comp" where
  "wrap_chmod E path mode = wrap E (- EIO) (Chmod path mode)"

definition wrap_chown :: "('fm, 'sm) env \<Rightarrow> string \<Rightarrow> int \<Rightarrow> int \<Rightarrow> (('fm, 'sm) fs, int) comp" where
  "wrap_chown E path uid gid = wrap E (- EIO) (Chown path uid gid)"

definition wrap_truncate :: "('fm, 'sm) env \<Rightarrow> string \<Rightarrow> int \<Rightarrow> (('fm, 'sm) fs, int) comp" where
  "wrap_truncate E path newSize = wrap E (- EIO) (Truncate E path newSize)"

definition wrap_utime :: "('fm, 'sm) env \<Rightarrow> string \<Rightarrow> int \<Rightarrow> (('fm, 'sm) fs, int) comp" where
  "wrap_utime E path modtime = wrap E (- EIO) (Utime path modtime)"

definition wrap_open :: "('fm, 'sm) env \<Rightarrow> string \<Rightarrow> (('fm, 'sm) fs, int \<times> nat option) comp" where
  "wrap_open E path = wrap E (- EIO, None) (Open E path)"

definition wrap_create :: "('fm, 'sm) env \<Rightarrow> string \<Rightarrow> 32 word \<Rightarrow> (('fm, 'sm) fs, int \<times> nat option) comp" where
  "wrap_create E path mode = wrap E (- EIO, None) (Create E path mode)"

definition wrap_read :: "('fm, 'sm) env \<Rightarrow> nat \<Rightarrow> int \<Rightarrow> int \<Rightarrow> (('fm, 'sm) fs, int \<times> byte list) comp" where
  "wrap_read E fh sz offset = wrap E (- EIO, []) (Read E fh sz offset)"

definition wrap_write :: "('fm, 'sm) env \<Rightarrow> nat \<Rightarrow> byte list \<Rightarrow> int \<Rightarrow> int \<Rightarrow> (('fm, 'sm) fs, int) comp" where
  "wrap_write E fh buf sz offset = wrap E (- EIO) (Write E fh buf sz offset)"

definition wrap_statfs :: "('fm, 'sm) env \<Rightarrow> string \<Rightarrow> (('fm, 'sm) fs, int) comp" where
  "wrap_statfs E path = wrap E (- EIO) (Statfs path)"

definition wrap_flush :: "('fm, 'sm) env \<Rightarrow> (('fm, 'sm) fs, int) comp" where
  "wrap_flush E = wrap E (- EIO) (Flush)"

definition wrap_release :: "('fm, 'sm) env \<Rightarrow> nat \<Rightarrow> (('fm, 'sm) fs, int) comp" where
  "wrap_release E fh = wrap E (- EIO) (Release fh)"

definition wrap_fsync :: "('fm, 'sm) env \<Rightarrow> (('fm, 'sm) fs, int) comp" where
  "wrap_fsync E = wrap E (- EIO) (Fsync)"

definition wrap_setxattr :: "('fm, 'sm) env \<Rightarrow> string \<Rightarrow> string \<Rightarrow> byte list \<Rightarrow> (('fm, 'sm) fs, int) comp" where
  "wrap_setxattr E path name val = wrap E (- EIO) (Setxattr path name val)"

definition wrap_getxattr :: "('fm, 'sm) env \<Rightarrow> string \<Rightarrow> string \<Rightarrow> (('fm, 'sm) fs, int) comp" where
  "wrap_getxattr E path name = wrap E (- EIO) (Getxattr path name)"

definition wrap_listxattr :: "('fm, 'sm) env \<Rightarrow> string \<Rightarrow> (('fm, 'sm) fs, int) comp" where
  "wrap_listxattr E path = wrap E (- EIO) (Listxattr path)"

definition wrap_removexattr :: "('fm, 'sm) env \<Rightarrow> string \<Rightarrow> string \<Rightarrow> (('fm, 'sm) fs, int) comp" where
  "wrap_removexattr E path name = wrap E (- EIO) (Removexattr path name)"

definition wrap_opendir :: "('fm, 'sm) env \<Rightarrow> string \<Rightarrow> (('fm, 'sm) fs, int \<times> nat option) comp" where
  "wrap_opendir E path = wrap E (- EIO, None) (Opendir E path)"

definition wrap_readdir :: "('fm, 'sm) env \<Rightarrow> ('b \<Rightarrow> string \<Rightarrow> stat \<Rightarrow> 'b \<times> bool) \<Rightarrow> nat \<Rightarrow> 'b \<Rightarrow> (('fm, 'sm) fs, int \<times> 'b) comp" where
  "wrap_readdir E filler fh buf = wrap E (- EIO, buf) (Readdir E filler fh buf)"

definition wrap_releasedir :: "('fm, 'sm) env \<Rightarrow> nat \<Rightarrow> (('fm, 'sm) fs, int) comp" where
  "wrap_releasedir E fh = wrap E (- EIO) (Releasedir fh)"

definition wrap_fsyncdir :: "('fm, 'sm) env \<Rightarrow> (('fm, 'sm) fs, int) comp" where
  "wrap_fsyncdir E = wrap E (- EIO) (Fsyncdir)"

definition wrap_init :: "('fm, 'sm) env \<Rightarrow> 'p \<Rightarrow> (('fm, 'sm) fs, 'p option) comp" where
  "wrap_init E private_data = wrap E None (Init private_data)"

definition wrap_ftruncate :: "('fm, 'sm) env \<Rightarrow> nat \<Rightarrow> int \<Rightarrow> (('fm, 'sm) fs, int) comp" where
  "wrap_ftruncate E fh newSize = wrap E (- EIO) (Ftruncate E fh newSize)"

lemmas wrap_defs = wrap_getattr_def wrap_readlink_def wrap_mknod_def wrap_mkdir_def wrap_unlink_def
  wrap_rmdir_def wrap_symlink_def wrap_rename_def wrap_link_def wrap_chmod_def
  wrap_chown_def wrap_truncate_def wrap_utime_def wrap_open_def wrap_create_def
  wrap_read_def wrap_write_def wrap_statfs_def wrap_flush_def wrap_release_def
  wrap_fsync_def wrap_setxattr_def wrap_getxattr_def wrap_listxattr_def wrap_removexattr_def
  wrap_opendir_def wrap_readdir_def wrap_releasedir_def wrap_fsyncdir_def wrap_init_def
  wrap_ftruncate_def

subsection \<open>The operations table\<close>

datatype request =
    Rq_getattr string
  | Rq_readlink string int
  | Rq_mknod string "32 word"
  | Rq_mkdir string "32 word"
  | Rq_unlink string
  | Rq_rmdir string
  | Rq_symlink string string
  | Rq_rename string string
  | Rq_link string string
  | Rq_chmod string "32 word"
  | Rq_chown string int int
  | Rq_truncate string int
  | Rq_utime string int
  | Rq_open string
  | Rq_create string "32 word"
  | Rq_read nat int int
  | Rq_write nat "byte list" int int
  | Rq_statfs string
  | Rq_flush
  | Rq_release nat
  | Rq_fsync
  | Rq_opendir string
  | Rq_readdir nat
  | Rq_releasedir nat
  | Rq_fsyncdir
  | Rq_ftruncate nat int

datatype 'b reply =
    Re int
  | Re_stat int "stat option"
  | Re_fh int "nat option"
  | Re_bytes int "byte list"
  | Re_dir int 'b

definition reply :: "('a \<Rightarrow> 'b) \<Rightarrow> ('s, 'a) comp \<Rightarrow> ('s, 'b) comp" where
  "reply f m = bnd m (\<lambda>x. ret (f x))"

fun serve :: "('fm, 'sm) env \<Rightarrow> ('b \<Rightarrow> string \<Rightarrow> stat \<Rightarrow> 'b \<times> bool) \<Rightarrow> 'b \<Rightarrow> request \<Rightarrow> (('fm, 'sm) fs, 'b reply) comp" where
  "serve E filler buf (Rq_getattr path) = reply (\<lambda>(r, st). Re_stat r st) (wrap_getattr E path)"
| "serve E filler buf (Rq_readlink path sz) = reply Re (wrap_readlink E path sz)"
| "serve E filler buf (Rq_mknod path mode) = reply Re (wrap_mknod E path mode)"
| "serve E filler buf (Rq_mkdir path mode) = reply Re (wrap_mkdir E path mode)"
| "serve E filler buf (Rq_unlink path) = reply Re (wrap_unlink E path)"
| "serve E filler buf (Rq_rmdir path) = reply Re (wrap_rmdir E path)"
| "serve E filler buf (Rq_symlink path link) = reply Re (wrap_symlink E path link)"
| "serve E filler buf (Rq_rename path newpath) = reply Re (wrap_rename E path newpath)"
| "serve E filler buf (Rq_link path newpath) = reply Re (wrap_link E path newpath)"
| "serve E filler buf (Rq_chmod path mode) = reply Re (wrap_chmod E path mode)"
| "serve E filler buf (Rq_chown path uid gid) = reply Re (wrap_chown E path uid gid)"
| "serve E filler buf (Rq_truncate path newSize) = reply Re (wrap_truncate E path newSize)"
| "serve E filler buf (Rq_utime path modtime) = reply Re (wrap_utime E path modtime)"
| "serve E filler buf (Rq_open path) = reply (\<lambda>(r, fh). Re_fh r fh) (wrap_open E path)"
| "serve E filler buf (Rq_create path mode) = reply (\<lambda>(r, fh). Re_fh r fh) (wrap_create E path mode)"
| "serve E filler buf (Rq_read fh sz offset) = reply (\<lambda>(r, bytes). Re_bytes r bytes) (wrap_read E fh sz offset)"
| "serve E filler buf (Rq_write fh data sz offset) = reply Re (wrap_write E fh data sz offset)"
| "serve E filler buf (Rq_statfs path) = reply Re (wrap_statfs E path)"
| "serve E filler buf Rq_flush = reply Re (wrap_flush E)"
| "serve E filler buf (Rq_release fh) = reply Re (wrap_release E fh)"
| "serve E filler buf Rq_fsync = reply Re (wrap_fsync E)"
| "serve E filler buf (Rq_opendir path) = reply (\<lambda>(r, fh). Re_fh r fh) (wrap_opendir E path)"
| "serve E filler buf (Rq_readdir fh) = reply (\<lambda>(r, buf). Re_dir r buf) (wrap_readdir E filler fh buf)"
| "serve E filler buf (Rq_releasedir fh) = reply Re (wrap_releasedir E fh)"
| "serve E filler buf Rq_fsyncdir = reply Re (wrap_fsyncdir E)"
| "serve E filler buf (Rq_ftruncate fh newSize) = reply Re (wrap_ftruncate E fh newSize)"

end
