(* ===== verification/Writer_Thread.thy ===== *)
theory Writer_Thread
  imports Wrap
begin

text \<open>
  The life of the writer thread (\<open>BlocksCache::run\<close>): its loop over waiting, a round and a
  short sleep as a state machine, with the requests, \<open>sync\<close> and the end of the process around
  it.  A round is \<open>run_pass\<close> of \<open>Cache_Writer\<close>.

  The thread holds \<open>writerMutex\<close> except while it waits, so \<open>sync\<close>, which locks it, gets through
  only then or after the end of the thread.  The destructor of the cache sets \<open>terminated\<close> and
  waits for the thread; the flag is looked at once per turn of the loop, at its head.

  The lemmas show that the thread ends after at most four steps, that what was in the cache is
  stored if the flag was set before the last round, and that it is not if it was set later;
  that the storage file stays one that can be opened; and what \<open>fsync\<close> is worth.
\<close>

subsection \<open>The loop\<close>

datatype wphase = Head | Waiting | Round | Sleeping | Exited | Crashed

record ('fm, 'sm) wstate =
  w_store :: "('fm, 'sm) cstate"
  w_terminated :: bool
  w_triggered :: bool
  w_repeat :: bool
  w_phase :: wphase

text \<open>One step of the thread.  Waiting ends when the flag is set, and after five seconds anyway.  An
  exception of a round is reported and skips the sleep.\<close>

definition writer_step :: "('fm, 'sm) env \<Rightarrow> ('fm, 'sm) wstate \<Rightarrow> ('fm, 'sm) wstate" where
  "writer_step E w = (case w_phase w of
      Head \<Rightarrow>
        if w_terminated w then w\<lparr>w_phase := Exited\<rparr>
        else if w_repeat w then w\<lparr>w_phase := Round\<rparr>
        else w\<lparr>w_phase := Waiting\<rparr>
    | Waiting \<Rightarrow> w\<lparr>w_triggered := False, w_phase := Round\<rparr>
    | Round \<Rightarrow> (case run_pass E (w_store w) of
          (Ok rep, s) \<Rightarrow> w\<lparr>w_store := s, w_repeat := rep, w_phase := Sleeping\<rparr>
        | (Exn e, s) \<Rightarrow> w\<lparr>w_store := s, w_repeat := False, w_phase := Head\<rparr>
        | (Halt h, s) \<Rightarrow> w\<lparr>w_store := s, w_phase := Crashed\<rparr>)
    | Sleeping \<Rightarrow> w\<lparr>w_phase := Head\<rparr>
    | Exited \<Rightarrow> w
    | Crashed \<Rightarrow> w)"

definition writer_start :: "('fm, 'sm) cstate \<Rightarrow> ('fm, 'sm) wstate" where
  "writer_start s = \<lparr>w_store = s, w_terminated = False, w_triggered = False, w_repeat = False, w_phase = Head\<rparr>"

text \<open>\<open>terminated = true; thr.join()\<close>: with the flag set the thread needs at most four steps.\<close>

definition set_terminated :: "('fm, 'sm) wstate \<Rightarrow> ('fm, 'sm) wstate" where
  "set_terminated w = w\<lparr>w_terminated := True\<rparr>"

definition join :: "('fm, 'sm) env \<Rightarrow> ('fm, 'sm) wstate \<Rightarrow> ('fm, 'sm) wstate" where
  "join E w = (writer_step E ^^ 4) w"

text \<open>What happens between start and stop: the thread makes a step, a request leaves a consistent store
  behind, or a request calls \<open>sync\<close>.\<close>

datatype wevent = Thread | Handler | Synced

inductive wt_step :: "('fm, 'sm) env \<Rightarrow> ('fm, 'sm) wstate \<Rightarrow> wevent \<Rightarrow> ('fm, 'sm) wstate \<Rightarrow> bool" for E where
  thread: "wt_step E w Thread (writer_step E w)"
| handler: "consistent E s \<Longrightarrow> wt_step E w Handler (w\<lparr>w_store := s\<rparr>)"
| synced: "w_phase w = Waiting \<Longrightarrow> wt_step E w Synced (w\<lparr>w_triggered := True\<rparr>)"

inductive wt_run :: "('fm, 'sm) env \<Rightarrow> ('fm, 'sm) wstate \<Rightarrow> wevent list \<Rightarrow> ('fm, 'sm) wstate \<Rightarrow> bool" for E where
  stop: "wt_run E w [] w"
| more: "wt_step E w e v \<Longrightarrow> wt_run E v es u \<Longrightarrow> wt_run E w (e # es) u"

inductive_cases wt_stepE: "wt_step E w e v"

subsection \<open>What holds in every run\<close>

definition clean :: "('fm, 'sm) env \<Rightarrow> ('fm, 'sm) cstate \<Rightarrow> bool" where
  "clean E s \<longleftrightarrow> (\<forall>k b. cached E s k = Some b \<longrightarrow> \<not> sb_dirty b)"

definition running :: "('fm, 'sm) env \<Rightarrow> ('fm, 'sm) wstate \<Rightarrow> bool" where
  "running E w \<longleftrightarrow> consistent E (w_store w) \<and> w_phase w \<noteq> Crashed"

context dedup_env
begin

lemma run_pass_runs:
  assumes "consistent E s"
  obtains rep t where "run_pass E s = (Ok rep, t)" and "same_store E s t" and "clean E t"
proof -
  obtain r t where rt: "run_pass E s = (r, t)" by fastforce
  have "returns (run_pass E) s (\<lambda>rep t. same_store E s t \<and> clean E t)"
    by (rule returns_weaken[OF run_pass_ok[OF assms]]) (unfold clean_def, blast)
  with rt that show thesis by (cases r) (simp_all add: returns_def)
qed

lemma writer_step_running:
  assumes "running E w"
  shows "running E (writer_step E w)"
proof (cases "w_phase w = Round")
  case True
  from assms have "consistent E (w_store w)" by (simp add: running_def)
  from run_pass_runs[OF this] obtain rep t where "run_pass E (w_store w) = (Ok rep, t)" "same_store E (w_store w) t" .
  moreover from this(2) have "consistent E t" by (simp add: same_store_def)
  ultimately show ?thesis using True by (simp add: running_def writer_step_def)
next
  case False
  with assms show ?thesis by (cases "w_phase w") (simp_all add: running_def writer_step_def)
qed

lemma wt_step_running: "wt_step E w e v \<Longrightarrow> running E w \<Longrightarrow> running E v"
  by (erule wt_stepE) (auto simp: writer_step_running, auto simp: running_def)

lemma wt_run_running: "wt_run E w es v \<Longrightarrow> running E w \<Longrightarrow> running E v"
  by (induction rule: wt_run.induct) (auto dest: wt_step_running)

lemma restart_clean: "consistent E s \<Longrightarrow> clean E s \<Longrightarrow> consistent E (restart E s) \<and> stored E (restart E s) = stored E s"
  by (rule restart_ok) (auto simp: clean_def)

text \<open>The last steps of the thread, from each phase.\<close>

lemma writer_steps:
  "w_phase w = Exited \<Longrightarrow> writer_step E w = w"
  "w_phase w = Sleeping \<Longrightarrow> writer_step E w = w\<lparr>w_phase := Head\<rparr>"
  "w_phase w = Head \<Longrightarrow> w_terminated w \<Longrightarrow> writer_step E w = w\<lparr>w_phase := Exited\<rparr>"
  "w_phase w = Waiting \<Longrightarrow> writer_step E w = w\<lparr>w_triggered := False, w_phase := Round\<rparr>"
  "w_phase w = Round \<Longrightarrow> run_pass E (w_store w) = (Ok rep, s) \<Longrightarrow>
    writer_step E w = w\<lparr>w_store := s, w_repeat := rep, w_phase := Sleeping\<rparr>"
  by (simp_all add: writer_step_def)

lemma join_unfold: "join E w = writer_step E (writer_step E (writer_step E (writer_step E w)))"
  by (simp add: join_def numeral_eq_Suc)

lemma join_idle:
  assumes "w_terminated w" and "w_phase w \<in> {Head, Sleeping, Exited}"
  shows "w_phase (join E w) = Exited \<and> w_store (join E w) = w_store w"
  using assms by (auto simp: join_unfold writer_steps)

lemma join_round:
  assumes "w_terminated w" and "consistent E (w_store w)" and "w_phase w \<in> {Waiting, Round}"
  shows "w_phase (join E w) = Exited \<and> same_store E (w_store w) (w_store (join E w)) \<and> clean E (w_store (join E w))"
proof -
  from run_pass_runs[OF assms(2)] obtain rep t where t: "run_pass E (w_store w) = (Ok rep, t)"
    "same_store E (w_store w) t" "clean E t" .
  have "w_phase (join E w) = Exited \<and> w_store (join E w) = t"
    using assms(1,3) t(1) by (auto simp: join_unfold writer_steps)
  with t(2,3) show ?thesis by simp
qed

end

subsection \<open>The first block of the storage file\<close>

text \<open>The block with the signature is \<open>sig\<close>, and no dirty block has the number of its place.\<close>

definition sig_kept :: "('fm, 'sm) env \<Rightarrow> byte list \<Rightarrow> ('fm, 'sm) cstate \<Rightarrow> bool" where
  "sig_kept E sig s \<longleftrightarrow> take (length sig) (c_disk s) = sig \<and> int (length sig) = block_size E
     \<and> (\<forall>k b. cached E s k = Some b \<and> sb_dirty b \<longrightarrow> 0 < sb_num b)"

lemma take_pwrite: "n \<le> pos \<Longrightarrow> n \<le> length disk \<Longrightarrow> take n (pwrite d pos disk) = take n disk"
  by (simp add: pwrite_def Let_def)

context dedup_env
begin

lemma sig_kept_flush [inv_intros]: "keeps (sig_kept E sig) (flush_block E k)"
  unfolding keeps_def
proof (intro allI impI)
  fix s assume s: "sig_kept E sig s"
  show "sig_kept E sig (snd (flush_block E k s))"
  proof (cases "cached E s k")
    case None
    then show ?thesis using s by (simp add: flush_block_def deref_sblock_def run_simps bnd_def)
  next
    case (Some b)
    show ?thesis
    proof (cases "sb_dirty b \<and> block_size E \<le> int (length (sb_data b))")
      case True
      let ?d = "pwrite (take (nat (block_size E)) (sb_data b)) (nat (push_bit (e_bits E) (sb_num b))) (c_disk s)"
      have "0 < sb_num b" using s Some True by (auto simp: sig_kept_def)
      then have "1 * block_size E \<le> sb_num b * block_size E"
        using block_size_pos by (intro mult_right_mono) auto
      then have "length sig \<le> nat (push_bit (e_bits E) (sb_num b))"
        using s by (simp add: sig_kept_def shiftl_mult block_size_eq)
      moreover have "length sig \<le> length (c_disk s)" using s by (auto simp: sig_kept_def min_def split: if_splits) (metis length_take min.commute min_def nat_le_linear)
      ultimately have "take (length sig) ?d = sig" using s take_pwrite by (simp add: sig_kept_def)
      then show ?thesis
        using s Some True
        by (auto simp: flush_block_def deref_sblock_def pwrite_block_def set_sblock_def run_simps sig_kept_def)
    next
      case False
      then show ?thesis using s Some
        by (auto simp: flush_block_def deref_sblock_def pwrite_block_def run_simps bnd_def halt_def sqn_def)
    qed
  qed
qed

lemma sig_kept_deref: "keeps (sig_kept E sig) (deref_sblock E k)"
  by (simp add: keeps_def deref_sblock_def split: option.split)

lemma sig_kept_erase: "keeps (sig_kept E sig) (erase_loop E ks)"
proof (induction ks)
  case (Cons k ks)
  have "keeps (sig_kept E sig) (modify (erase_sblock E k))"
    by (rule keeps_modify) (auto simp: sig_kept_def)
  with Cons show ?case by (simp add: keeps_sqn)
qed (simp add: keeps_ret)

lemma sig_kept_loops:
  "keeps (sig_kept E sig) (flush_loop E ks m)" "keeps (sig_kept E sig) (mark_loop E m ks del)"
  by (induction ks arbitrary: m del) (auto intro!: inv_intros sig_kept_deref)

lemma sig_kept_pass: "keeps (sig_kept E sig) (run_pass E)"
  unfolding run_pass_def by (intro inv_intros sig_kept_loops sig_kept_erase)

end

subsection \<open>Opening the storage file\<close>

lemma int32_bytes_inj:
  assumes "int32_bytes x = int32_bytes y" and "0 \<le> x" "x < 2 ^ 31" "0 \<le> y" "y < 2 ^ 31"
  shows "x = y"
proof -
  have eq: "(word_of_int (drop_bit (8 * i) x) :: byte) = word_of_int (drop_bit (8 * i) y)" if "i < 4" for i
    using assms(1) that by (auto simp: int32_bytes_def less_Suc_eq numeral_eq_Suc)
  have "bit x n = bit y n" if "n < 32" for n
  proof -
    have "bit (word_of_int (drop_bit (8 * (n div 8)) z) :: byte) (n mod 8) = bit z n" for z
      by (simp add: bit_word_of_int_iff bit_drop_bit_eq)
    with eq[of "n div 8"] that show ?thesis by (metis div_less_iff_less_mult less_mult_imp_div_less mult_numeral_left_semiring_numeral num_double numeral_times_numeral zero_less_numeral)
  qed
  then have "take_bit 32 x = take_bit 32 y" by (intro bit_eqI) (auto simp: bit_take_bit_iff)
  then show ?thesis using assms(2-5) by (simp add: take_bit_int_eq_self)
qed

lemma signature_length: "length signature_magic = 8" "length (int32_bytes x) = 4"
  by (simp_all add: signature_magic_def int32_bytes_def)

lemma open_bits: "bits \<le> 30 \<Longrightarrow> int32 (push_bit bits 1) = 2 ^ bits"
proof -
  assume "bits \<le> 30"
  then have "(2 :: int) ^ bits \<le> 2 ^ 30" by (intro power_increasing) auto
  then show ?thesis by (simp add: push_bit_eq_mult) (intro int32_id; simp add: order_trans[of _ 0])
qed

text \<open>What is accepted: a first block of the right size that begins with the magic and the size.\<close>

lemma open_accepts:
  assumes "bits \<le> 30"
  shows "disk \<noteq> [] \<Longrightarrow> BlocksCache_open bits junk disk = Inr d \<longleftrightarrow> d = disk \<and> 2 ^ bits \<le> length disk
      \<and> take 8 (take (2 ^ bits) disk) = signature_magic \<and> take 4 (drop 8 (take (2 ^ bits) disk)) = int32_bytes (2 ^ bits)"
  using open_bits[OF assms] by (auto simp: BlocksCache_open_def Let_def min_def nat_power_eq)

lemma open_new:
  assumes "4 \<le> bits" "bits \<le> 30" and "length junk = 2 ^ bits" and "BlocksCache_open bits junk [] = Inr d"
  shows "length d = 2 ^ bits \<and> take 8 d = signature_magic \<and> take 4 (drop 8 d) = int32_bytes (2 ^ bits)"
proof -
  have "(2 :: nat) ^ 4 \<le> 2 ^ bits" using assms(1) by (intro power_increasing) auto
  then have len: "16 \<le> length junk" using assms(3) by simp
  have "d = overlay 8 (int32_bytes (2 ^ bits)) (overlay 0 signature_magic junk)"
    using assms(3,4) open_bits[OF assms(2)] by (simp add: BlocksCache_open_def Let_def nat_power_eq)
  then show ?thesis
    using len assms(3) by (simp add: overlay_def signature_length)
qed

lemma sig_kept_consistent:
  assumes "dedup_env E" and "consistent E s" and "take (length sig) (c_disk s) = sig" and "int (length sig) = block_size E"
  shows "sig_kept E sig s"
proof -
  have "0 < sb_num b" if b: "cached E s k = Some b" for k b
  proof -
    from consistentD(5)[OF assms(2) b] obtain r where "r \<in> set (t_hashes (tabs s))" "hr_id r = k" "sb_num b = k"
      by (auto simp: cache_ok_def)
    with wf_rowsD(3)[OF consistentD(1)[OF assms(2)]] show ?thesis by auto
  qed
  with assms(3,4) show ?thesis by (auto simp: sig_kept_def)
qed

subsection \<open>Properties\<close>

text \<open>C17: When the process stops, in any state its runs can reach, the thread ends after at most four steps.  If it was
  waiting or before its round, this round stores everything: after a restart every block of every file has the
  content it had.  If the round was over, the thread ends without another one, and a dirty block whose content the
  storage file does not have is lost.\<close>

theorem stop_outcome:
  assumes "dedup_env E" and "consistent E s" and "wt_run E (writer_start s) es w"
  shows "w_phase (join E (set_terminated w)) = Exited
    \<and> (w_phase w \<in> {Waiting, Round} \<longrightarrow>
         consistent E (restart E (w_store (join E (set_terminated w))))
         \<and> stored E (restart E (w_store (join E (set_terminated w)))) = stored E (w_store w))
    \<and> (w_phase w \<in> {Head, Sleeping, Exited} \<longrightarrow> w_store (join E (set_terminated w)) = w_store w
         \<and> (\<forall>k b. cached E (w_store w) k = Some b \<and> sb_data b \<noteq> [] \<and> disk_block E (c_disk (w_store w)) k \<noteq> sb_data b \<longrightarrow>
              sdata E (restart E (w_store (join E (set_terminated w)))) k \<noteq> sdata E (w_store w) k))"
proof -
  let ?w = "set_terminated w"
  have run: "consistent E (w_store w)" "w_phase w \<noteq> Crashed"
    using dedup_env.wt_run_running[OF assms(1,3)] assms(2) by (simp_all add: running_def writer_start_def)
  have w: "w_terminated ?w" "w_phase ?w = w_phase w" "w_store ?w = w_store w" by (simp_all add: set_terminated_def)
  have early: "w_phase (join E ?w) = Exited \<and> same_store E (w_store w) (w_store (join E ?w)) \<and> clean E (w_store (join E ?w))"
    if "w_phase w \<in> {Waiting, Round}"
    using dedup_env.join_round[OF assms(1) w(1)] run(1) that by (simp add: w)
  have late: "w_phase (join E ?w) = Exited \<and> w_store (join E ?w) = w_store w" if "w_phase w \<in> {Head, Sleeping, Exited}"
    using dedup_env.join_idle[OF assms(1) w(1)] that by (simp add: w)
  have "consistent E (restart E (w_store (join E ?w))) \<and> stored E (restart E (w_store (join E ?w))) = stored E (w_store w)"
    if "w_phase w \<in> {Waiting, Round}"
    using early[OF that] dedup_env.restart_clean[OF assms(1), of "w_store (join E ?w)"] by (auto simp: same_store_def)
  moreover have "sdata E (restart E (w_store w)) k \<noteq> sdata E (w_store w) k"
    if "cached E (w_store w) k = Some b" "sb_data b \<noteq> []" "disk_block E (c_disk (w_store w)) k \<noteq> sb_data b" for k b
    using that by (simp add: sdata_def dedup_env.restart_sel[OF assms(1)])
  moreover have "w_phase w \<in> {Waiting, Round} \<or> w_phase w \<in> {Head, Sleeping, Exited}"
    using run(2) by (cases "w_phase w") auto
  ultimately show ?thesis using early late by auto
qed

text \<open>A store whose block 1 was written after the last round; the storage file has zeros there.\<close>

definition late_block :: storage_block where
  "late_block = \<lparr>sb_oid = 0, sb_num = 1, sb_use = 1, sb_hash = None, sb_data = demo_data, sb_dirty = True,
     sb_loaded = True, sb_atime = 0\<rparr>"

definition late_store :: "((int, block_info) RBT.rbt, (int, storage_block) RBT.rbt) cstate" where
  "late_store = put_sblock (std_env 4) 1 late_block (content_state\<lparr>c_disk := replicate 32 0\<rparr>)"

lemma late_sel:
  "cached (std_env 4) late_store k = (if k = 1 then Some late_block else None)" "tabs late_store = tabs content_state"
  "c_db late_store = c_db content_state" "c_disk late_store = replicate 32 0"
proof -
  show "cached (std_env 4) late_store k = (if k = 1 then Some late_block else None)"
    using content_sel(1)[of k] by (simp add: late_store_def dedup_env.cached_put[OF dedup_env_std[of 4]] cached_def)
qed (simp_all add: late_store_def put_sblock_def)

lemma late_sdata: "sdata (std_env 4) late_store 1 = demo_data"
  by (simp add: sdata_def late_sel late_block_def demo_data_def)

lemma late_consistent: "consistent (std_env 4) late_store"
  using late_sdata demo_length std4_block_size content_consistent
  by (simp add: consistent_def late_sel cache_ok_def) (auto simp: late_block_def demo_length demo_data_def)

lemma late_disk: "disk_block (std_env 4) (c_disk late_store) 1 \<noteq> sb_data late_block"
proof -
  have "disk_block (std_env 4) (c_disk late_store) 1 = replicate 16 0"
    by (simp add: disk_block_def late_sel std4_block_size push_bit_eq_mult)
  then show ?thesis by (simp add: late_block_def demo_data_def)
qed

theorem stop_outcome_witness:
  "\<exists>w. wt_run (std_env 4) (writer_start content_state) [Thread, Thread, Thread, Handler] w \<and> w_store w = late_store
    \<and> w_phase (join (std_env 4) (set_terminated w)) = Exited
    \<and> sdata (std_env 4) (restart (std_env 4) (w_store (join (std_env 4) (set_terminated w)))) 1 \<noteq> demo_data"
proof -
  let ?E = "std_env 4" and ?w0 = "writer_start content_state"
  have "dedup_env ?E" by (rule dedup_env_std) simp
  from dedup_env.run_pass_runs[OF this content_consistent]
  obtain rep t where t: "run_pass ?E content_state = (Ok rep, t)" .
  define w3 where "w3 = writer_step ?E (writer_step ?E (writer_step ?E ?w0))"
  have w3: "w_phase w3 = Sleeping" by (simp add: w3_def writer_step_def writer_start_def t)
  have run: "wt_run ?E ?w0 [Thread, Thread, Thread, Handler] (w3\<lparr>w_store := late_store\<rparr>)"
    unfolding w3_def by (rule wt_run.more, rule wt_step.thread)+ (rule wt_run.more, rule wt_step.handler, rule late_consistent, rule wt_run.stop)
  let ?w = "w3\<lparr>w_store := late_store\<rparr>"
  have "cached ?E (w_store ?w) 1 = Some late_block" "sb_data late_block \<noteq> []" by (simp_all add: late_sel late_block_def demo_data_def)
  with stop_outcome[OF \<open>dedup_env ?E\<close> content_consistent run] w3 late_disk late_sdata
  have "w_phase (join ?E (set_terminated ?w)) = Exited"
    "sdata ?E (restart ?E (w_store (join ?E (set_terminated ?w)))) 1 \<noteq> demo_data" by auto
  with run show ?thesis by (intro exI[of _ ?w]) simp
qed

text \<open>C18: The storage file stays valid: on a store whose storage file begins with the block that the first start has
  written, a round of the writer leaves a file that the next start accepts, and that a start with any other block
  size refuses; no block is written over the signature.\<close>

theorem storage_file_stays_valid:
  assumes "dedup_env E" and "4 \<le> e_bits E" and "length junk = 2 ^ e_bits E" and "BlocksCache_open (e_bits E) junk [] = Inr sig"
    and "consistent E s" and "take (length sig) (c_disk s) = sig"
  shows "returns (run_pass E) s (\<lambda>_ t. BlocksCache_open (e_bits E) junk' (c_disk t) = Inr (c_disk t)
    \<and> (\<forall>b e. b \<le> 30 \<and> BlocksCache_open b junk' (c_disk t) = Inr e \<longrightarrow> b = e_bits E))"
proof -
  have bits: "e_bits E \<le> 30" by (rule dedup_env.bits_bound[OF assms(1)])
  note new = open_new[OF assms(2) bits assms(3,4)]
  have len: "int (length sig) = block_size E" using new by (simp add: dedup_env.block_size_eq[OF assms(1)])
  have kept: "sig_kept E sig s" by (rule sig_kept_consistent[OF assms(1,5,6) len])
  from dedup_env.run_pass_runs[OF assms(1,5)] obtain rep t where t: "run_pass E s = (Ok rep, t)" .
  have "sig_kept E sig t" using keepsD[OF dedup_env.sig_kept_pass[OF assms(1)] kept t] .
  then have head: "take (2 ^ e_bits E) (c_disk t) = sig" using new by (simp add: sig_kept_def)
  have "2 ^ e_bits E \<le> length (c_disk t)" using arg_cong[OF head, of length] new by (simp add: min_def split: if_splits)
  moreover from this have ne: "c_disk t \<noteq> []" by auto
  ultimately have ok: "BlocksCache_open (e_bits E) junk' (c_disk t) = Inr (c_disk t)"
    using open_accepts[OF bits ne] head new by simp
  moreover have "b = e_bits E" if b: "b \<le> 30" "BlocksCache_open b junk' (c_disk t) = Inr e" for b e
  proof -
    have acc: "take 4 (drop 8 (take (2 ^ c) (c_disk t))) = int32_bytes (2 ^ c)"
      if "c \<le> 30" "BlocksCache_open c junk' (c_disk t) = Inr e'" for c e'
      using open_accepts[OF that(1) ne] that(2) by blast
    have cut: "take 4 (drop 8 (take (2 ^ c) (c_disk t))) = take 4 (drop 8 (c_disk t))"
      if "c \<le> 30" "BlocksCache_open c junk' (c_disk t) = Inr e'" for c e'
    proof -
      have "length (take 4 (drop 8 (take (2 ^ c) (c_disk t)))) = 4" unfolding acc[OF that] by (rule signature_length)
      then have "12 \<le> (2 :: nat) ^ c" by auto
      then show ?thesis by (simp add: take_drop min_def)
    qed
    have "int32_bytes (2 ^ b) = int32_bytes (2 ^ e_bits E)"
      using acc[OF b] acc[OF bits ok] cut[OF b] cut[OF bits ok] by simp
    moreover have "(2 :: int) ^ c < 2 ^ 31" if "c \<le> 30" for c :: nat using that by (intro power_strict_increasing) auto
    ultimately have "(2 :: int) ^ b = 2 ^ e_bits E"
      using b(1) bits by (intro int32_bytes_inj) auto
    then show ?thesis by simp
  qed
  ultimately show ?thesis using t by (auto simp: returns_def)
qed

definition sig_state :: "byte list \<Rightarrow> ((int, block_info) RBT.rbt, (int, storage_block) RBT.rbt) cstate" where
  "sig_state sig = content_state\<lparr>c_disk := sig @ demo_data\<rparr>"

lemma sig_state_consistent: "length sig = 16 \<Longrightarrow> consistent (std_env 4) (sig_state sig)"
proof -
  assume l: "length sig = 16"
  have c: "cached (std_env 4) (sig_state sig) = Map.empty" using content_sel(1) by (simp add: sig_state_def cached_def fun_eq_iff)
  have "sdata (std_env 4) (sig_state sig) 1 = demo_data"
    using l demo_length by (simp add: sdata_def c disk_block_def std4_block_size push_bit_eq_mult) (simp add: sig_state_def)
  moreover have "tabs (sig_state sig) = tabs content_state" "c_db (sig_state sig) = c_db content_state" by (simp_all add: sig_state_def)
  ultimately show ?thesis using content_consistent c demo_length std4_block_size by (simp add: consistent_def)
qed

theorem storage_file_stays_valid_witness:
  "\<exists>sig. BlocksCache_open 4 (replicate 16 0) [] = Inr sig \<and>
    returns (run_pass (std_env 4)) (sig_state sig) (\<lambda>_ t. BlocksCache_open 4 [] (c_disk t) = Inr (c_disk t))"
proof -
  obtain sig where sig: "BlocksCache_open 4 (replicate 16 0) [] = Inr sig" by (simp add: BlocksCache_open_def Let_def)
  then have l: "length sig = 16" using open_new[of 4 "replicate 16 0"] by simp
  have "returns (run_pass (std_env 4)) (sig_state sig) (\<lambda>_ t. BlocksCache_open 4 [] (c_disk t) = Inr (c_disk t))"
    by (rule returns_weaken[OF storage_file_stays_valid[OF dedup_env_std, of 4 "replicate 16 0" sig "sig_state sig" "[]"]])
      (use sig sig_state_consistent[OF l] in \<open>simp_all add: sig_state_def\<close>)
  with sig show ?thesis by blast
qed

text \<open>C35: \<open>fsync\<close> answers 0 before anything is stored: it only sets the flag of the writer, so a dirty block that the
  storage file does not have is lost if the daemon is killed then.  What was written is stored after the next round
  of the writer.\<close>

theorem fsync_before_stored:
  assumes "dedup_env E" and "fs_instance s" and "consistent E (enter (no_file E) s)"
    and "cached E (enter (no_file E) s) k = Some b" and "sb_data b \<noteq> []" and "disk_block E (fs_disk s) k \<noteq> sb_data b"
  shows "\<exists>t rep u. wrap_fsync E s = (Ok 0, t) \<and> fs_triggered t
    \<and> sdata E (restart E (enter (no_file E) t)) k \<noteq> sdata E (enter (no_file E) s) k
    \<and> writer_round E t = (Ok rep, u) \<and> stored E (restart E (enter (no_file E) u)) = stored E (enter (no_file E) s)"
proof -
  let ?t = "s\<lparr>fs_triggered := True\<rparr>" and ?c = "enter (no_file E) s"
  have fsync: "wrap_fsync E s = (Ok 0, ?t)"
    using assms(2) by (simp add: wrap_fsync_def wrap_def Fsync_def sync_def DedupFS_Instance_def run_simps)
  have enter: "enter (no_file E) ?t = ?c" by (simp add: enter_def)
  have "sdata E (restart E ?c) k \<noteq> sdata E ?c k"
    using assms(4-6) by (simp add: sdata_def dedup_env.restart_sel[OF assms(1)]) (simp add: enter_def)
  moreover from dedup_env.run_pass_runs[OF assms(1,3)] obtain rep c where c: "run_pass E ?c = (Ok rep, c)" "same_store E ?c c" "clean E c" .
  let ?u = "leave c (s\<lparr>fs_triggered := False\<rparr>)"
  have "writer_round E ?t = (Ok rep, ?u)"
    using c(1) by (simp add: writer_round_def run_simps with_temp_def) (simp add: enter_def)
  moreover have "stored E (restart E (enter (no_file E) ?u)) = stored E ?c"
  proof -
    have "c_fi c = no_file E" "c_now c = fs_now s" using c(2) by (simp_all add: same_store_def enter_def)
    then have "enter (no_file E) ?u = c" by (simp add: enter_def leave_def)
    then show ?thesis using dedup_env.restart_clean[OF assms(1) _ c(3)] c(2) by (simp add: same_store_def)
  qed
  ultimately show ?thesis using fsync enter by auto
qed

definition late_fs :: "((int, block_info) RBT.rbt, (int, storage_block) RBT.rbt) fs" where
  "late_fs = \<lparr>fs_db = c_db late_store, fs_cache = c_cache late_store, fs_disk = c_disk late_store, fs_next = 1, fs_now = 0,
     fs_objects = Map.empty, fs_fresh = 1, fs_instance = True, fs_triggered = False\<rparr>"

theorem fsync_before_stored_witness:
  "\<exists>t rep u. wrap_fsync (std_env 4) late_fs = (Ok 0, t)
    \<and> sdata (std_env 4) (restart (std_env 4) (enter (no_file (std_env 4)) t)) 1 \<noteq> demo_data
    \<and> writer_round (std_env 4) t = (Ok rep, u)"
proof -
  let ?c = "enter (no_file (std_env 4)) late_fs"
  have cached: "cached (std_env 4) ?c = cached (std_env 4) late_store" by (simp add: cached_def enter_def late_fs_def fun_eq_iff)
  have disk: "c_disk ?c = c_disk late_store" and db: "c_db ?c = c_db late_store" by (simp_all add: enter_def late_fs_def)
  have sd: "sdata (std_env 4) ?c = sdata (std_env 4) late_store"
    unfolding sdata_def cached disk ..
  have "consistent (std_env 4) ?c" using late_consistent by (simp add: consistent_def cache_ok_def cached sd disk db)
  moreover have "cached (std_env 4) ?c 1 = Some late_block" "sb_data late_block \<noteq> []"
    by (simp_all add: cached late_sel late_block_def demo_data_def)
  moreover have "fs_instance late_fs" "disk_block (std_env 4) (fs_disk late_fs) 1 \<noteq> sb_data late_block"
    using late_disk by (simp_all add: late_fs_def)
  ultimately show ?thesis
    using fsync_before_stored[OF dedup_env_std[of 4], of late_fs 1 late_block] sd late_sdata by auto
qed

end
