(* ===== verification/Start_Up.thy ===== *)
theory Start_Up
  imports Blocks_Cache
begin

text \<open>
  The life of the process: the arguments in \<open>main.cpp\<close>, the descriptor of the storage file
  that \<open>blockscache.cpp\<close> keeps in the global \<open>_storage\<close>, and the objects each thread has of
  its own (\<open>boost::thread_specific_ptr\<close>), which are made by the first request of the thread
  and deleted when it ends.

  A descriptor is an index into the table of the process; \<open>open\<close> takes the lowest free one,
  \<open>close\<close> of one that is not in use has no effect, as POSIX has it.  What else the process
  opens and closes (SQLite's files above all) are steps of their own.

  The lemmas show that each thread works on its own connection in every run, that the
  storage file stays open as long as no thread that served a request ends, and that it is
  closed for all threads as soon as one does.
\<close>

subsection \<open>Arguments\<close>

text \<open>\<open>argv\<close> is the array with its \<open>NULL\<close> at the end.\<close>

definition is_option :: "string option \<Rightarrow> bool" where
  "is_option a = (case a of Some (c # cs) \<Rightarrow> c = CHR ''-'' | _ \<Rightarrow> False)"

function db_index :: "string option list \<Rightarrow> nat \<Rightarrow> nat" where
  "db_index argv i = (if i < length argv - 1 \<and> is_option (argv ! i) then db_index argv (i + 1) else i)"
  by auto
termination by (relation "measure (\<lambda>(argv, i). length argv - i)") auto

declare db_index.simps [simp del]

function shift_args :: "string option list \<Rightarrow> nat \<Rightarrow> string option list" where
  "shift_args argv i = (if i < length argv - 1 then shift_args (argv[i := argv ! (i + 1)]) (i + 1) else argv)"
  by auto
termination by (relation "measure (\<lambda>(argv, i). length argv - i)") auto

declare shift_args.simps [simp del]

text \<open>The URL of the database, and what \<open>fuse_main\<close> is given: \<open>argc\<close> and \<open>argv\<close>.\<close>

definition main_args :: "string list \<Rightarrow> (string \<times> nat \<times> string option list) outcome" where
  "main_args args =
    (let argv = map Some args @ [None];
         i = db_index argv 1
     in if i < length argv then
          (case argv ! i of
            None \<Rightarrow> Halt NullDeref
          | Some dbUrl \<Rightarrow> Ok (dbUrl, length args - 1, shift_args argv i))
        else Halt BadLength)"

subsection \<open>Descriptors\<close>

datatype fd_file = StorageFile | OtherFile string

type_synonym fds = "fd_file option list"

fun open_fd :: "fd_file \<Rightarrow> fds \<Rightarrow> nat \<times> fds" where
  "open_fd f [] = (0, [Some f])"
| "open_fd f (None # ds) = (0, Some f # ds)"
| "open_fd f (Some g # ds) = (case open_fd f ds of (n, ds') \<Rightarrow> (Suc n, Some g # ds'))"

definition close_fd :: "int \<Rightarrow> fds \<Rightarrow> fds" where
  "close_fd d ds = (if 0 \<le> d \<and> nat d < length ds then ds[nat d := None] else ds)"

definition fd_target :: "int \<Rightarrow> fds \<Rightarrow> fd_file option" where
  "fd_target d ds = (if 0 \<le> d \<and> nat d < length ds then ds ! nat d else None)"

subsection \<open>The objects of the threads\<close>

text \<open>The members of a \<open>BlocksCache\<close> that differ between threads; a \<open>DataBase\<close> is its address.\<close>

record bcache =
  bc_db :: "nat option"
  bc_writer :: bool            \<comment> \<open>\<open>thr\<close> is joinable\<close>

record proc =
  p_fds :: fds
  p_storage :: int             \<comment> \<open>\<open>_storage\<close>\<close>
  p_disk :: "byte list"
  p_caches :: "nat \<rightharpoonup> bcache"   \<comment> \<open>\<open>_instance\<close> of \<open>blockscache.cpp\<close>, by thread\<close>
  p_dedups :: "nat \<rightharpoonup> nat"      \<comment> \<open>\<open>_instance\<close> of \<open>dedupfs.cpp\<close>, by thread: its \<open>db\<close>\<close>
  p_next :: nat
  p_writing :: bool            \<comment> \<open>the writer thread runs\<close>

text \<open>The constructor with a path; \<open>ok\<close> is whether the storage file can be opened.  An exception of a
  constructor runs no destructor, so the descriptor stays open.\<close>

definition BlocksCache_new :: "nat \<Rightarrow> byte list \<Rightarrow> bool \<Rightarrow> (proc, bcache) comp" where
  "BlocksCache_new bits junk ok = (\<lambda>p.
    if \<not> ok then (Exn (SystemError ''Could not create storage file''), p\<lparr>p_storage := -1\<rparr>)
    else (case open_fd StorageFile (p_fds p) of (d, ds) \<Rightarrow>
      let p = p\<lparr>p_storage := int d, p_fds := ds\<rparr> in
      (case BlocksCache_open bits junk (p_disk p) of
        Inl e \<Rightarrow> (Exn e, p)
      | Inr disk \<Rightarrow> (Ok \<lparr>bc_db = None, bc_writer = True\<rparr>, p\<lparr>p_disk := disk, p_writing := True\<rparr>))))"

definition BlocksCache_start :: "nat \<Rightarrow> byte list \<Rightarrow> bool \<Rightarrow> nat \<Rightarrow> (proc, unit) comp" where
  "BlocksCache_start bits junk ok t =
    bnd (gets (\<lambda>p. p_caches p t)) (\<lambda>inst.
    if inst = None then
      bnd (BlocksCache_new bits junk ok) (\<lambda>b. modify (\<lambda>p. p\<lparr>p_caches := (p_caches p)(t \<mapsto> b)\<rparr>))
    else ret ())"

definition getThreadInstance :: "nat \<Rightarrow> nat \<Rightarrow> (proc, unit) comp" where
  "getThreadInstance t db =
    sqn (modify (\<lambda>p. if p_caches p t = None then p\<lparr>p_caches := (p_caches p)(t \<mapsto> \<lparr>bc_db = Some db, bc_writer = False\<rparr>)\<rparr> else p))
        (modify (\<lambda>p. case p_caches p t of
            Some b \<Rightarrow> if bc_db b = None then p\<lparr>p_caches := (p_caches p)(t \<mapsto> b\<lparr>bc_db := Some db\<rparr>)\<rparr> else p
          | None \<Rightarrow> p))"

text \<open>\<open>_instance.reset()\<close>, and the end of a thread: the destructor, if there is an object.\<close>

definition BlocksCache_delete :: "bcache \<Rightarrow> proc \<Rightarrow> proc" where
  "BlocksCache_delete b p =
    (let p = (if bc_writer b then p\<lparr>p_writing := False\<rparr> else p)
     in p\<lparr>p_fds := close_fd (p_storage p) (p_fds p)\<rparr>)"

definition BlocksCache_stop :: "nat \<Rightarrow> proc \<Rightarrow> proc" where
  "BlocksCache_stop t p =
    (case p_caches p t of
      None \<Rightarrow> p
    | Some b \<Rightarrow> (BlocksCache_delete b p)\<lparr>p_caches := (p_caches p)(t := None)\<rparr>)"

text \<open>\<open>DedupFS::Instance\<close> with the constructor; \<open>e\<close> is the exception of opening the database, if any.\<close>

definition DedupFS_new :: "cpp_exn option \<Rightarrow> nat \<Rightarrow> (proc, unit) comp" where
  "DedupFS_new e t =
    bnd (gets (\<lambda>p. p_dedups p t)) (\<lambda>inst.
    if inst = None then
      (case e of
        Some e \<Rightarrow> throw e
      | None \<Rightarrow>
          bnd (gets p_next) (\<lambda>db.
          sqn (modify (\<lambda>p. p\<lparr>p_next := Suc db\<rparr>))
         (sqn (getThreadInstance t db)
              (modify (\<lambda>p. p\<lparr>p_dedups := (p_dedups p)(t \<mapsto> db)\<rparr>)))))
    else ret ())"

definition DedupFS_delete :: "nat \<Rightarrow> proc \<Rightarrow> proc" where
  "DedupFS_delete t p = p\<lparr>p_dedups := (p_dedups p)(t := None)\<rparr>"

text \<open>\<open>main\<close> behind the set-up of the libraries: the arguments, \<open>start\<close>, FUSE (what its threads do, and its
  answer), \<open>stop\<close>.  Only \<open>sql::Exception\<close> and the class derived from it are caught, so any other exception
  of \<open>start\<close> leaves \<open>main\<close>.\<close>

definition is_sql_exception :: "cpp_exn \<Rightarrow> bool" where
  "is_sql_exception e = (case e of SqlException _ \<Rightarrow> True | DatabaseLockedException \<Rightarrow> True | _ \<Rightarrow> False)"

definition main_prog :: "byte list \<Rightarrow> bool \<Rightarrow> (string \<Rightarrow> nat \<Rightarrow> string option list \<Rightarrow> (proc, int) comp) \<Rightarrow> string list \<Rightarrow> (proc, int) comp" where
  "main_prog junk ok fuse args =
    (case main_args args of
      Halt h \<Rightarrow> halt h
    | Exn e \<Rightarrow> throw e
    | Ok (dbUrl, argc, argv) \<Rightarrow>
        bnd (try_catch (sqn (BlocksCache_start 16 junk ok 0) (fuse dbUrl argc argv))
               (\<lambda>e. if is_sql_exception e then ret 1 else throw e)) (\<lambda>fuse_stat.
        sqn (modify (BlocksCache_stop 0)) (ret fuse_stat)))"

subsection \<open>Runs of the process\<close>

text \<open>The main thread is 0.  A thread serves a request (its first one makes its objects, or fails with an
  exception), a thread other than the main one ends, or a library opens or closes a file of its own.\<close>

datatype pevent =
    Serve nat "cpp_exn option"
  | Ends nat
  | Opens string
  | Closes int

inductive proc_step :: "proc \<Rightarrow> pevent \<Rightarrow> proc \<Rightarrow> bool" where
  serve: "DedupFS_new e t p = (r, q) \<Longrightarrow> proc_step p (Serve t e) q"
| ends: "t \<noteq> 0 \<Longrightarrow> proc_step p (Ends t) (BlocksCache_stop t (DedupFS_delete t p))"
| opens: "open_fd (OtherFile f) (p_fds p) = (d, ds) \<Longrightarrow> proc_step p (Opens f) (p\<lparr>p_fds := ds\<rparr>)"
| closes: "fd_target d (p_fds p) = Some (OtherFile f) \<Longrightarrow> proc_step p (Closes d) (p\<lparr>p_fds := close_fd d (p_fds p)\<rparr>)"

inductive_cases proc_stepE: "proc_step p e q"

inductive proc_run :: "proc \<Rightarrow> pevent list \<Rightarrow> proc \<Rightarrow> bool" where
  stop: "proc_run p [] p"
| more: "proc_step p e q \<Longrightarrow> proc_run q es r \<Longrightarrow> proc_run p (e # es) r"

inductive_cases proc_run_NilE [elim!]: "proc_run p [] q"
inductive_cases proc_run_ConsE: "proc_run p (e # es) q"

definition boot :: "fds \<Rightarrow> byte list \<Rightarrow> proc" where
  "boot ds disk = \<lparr>p_fds = ds, p_storage = 0, p_disk = disk, p_caches = Map.empty, p_dedups = Map.empty,
     p_next = 0, p_writing = False\<rparr>"

text \<open>Each thread has its cache object exactly when it has its connection, and works on that one; the main
  thread has the object with the writer.\<close>

definition own_connections :: "proc \<Rightarrow> bool" where
  "own_connections p \<longleftrightarrow>
     p_caches p = (\<lambda>t. if t = 0 then Some \<lparr>bc_db = p_dedups p 0, bc_writer = True\<rparr>
       else map_option (\<lambda>db. \<lparr>bc_db = Some db, bc_writer = False\<rparr>) (p_dedups p t))
     \<and> inj_on (p_dedups p) (dom (p_dedups p)) \<and> (\<forall>t db. p_dedups p t = Some db \<longrightarrow> db < p_next p) \<and> p_writing p"

definition storage_open :: "proc \<Rightarrow> bool" where
  "storage_open p \<longleftrightarrow> fd_target (p_storage p) (p_fds p) = Some StorageFile"

lemma open_fd_spec:
  "open_fd f ds = (n, es) \<Longrightarrow> n \<le> length ds \<and> (\<forall>i<n. ds ! i \<noteq> None) \<and> (n < length ds \<longrightarrow> ds ! n = None)
     \<and> es = (if n < length ds then ds[n := Some f] else ds @ [Some f])"
proof (induction f ds arbitrary: n es rule: open_fd.induct)
  case (3 f g ds)
  then obtain m fs where m: "open_fd f ds = (m, fs)" "n = Suc m" "es = Some g # fs" by (auto split: prod.splits)
  then show ?case using "3.IH"[OF m(1)] by (auto simp: nth_Cons split: nat.splits)
qed auto

lemma open_fd_target:
  assumes "open_fd f ds = (n, es)"
  shows "fd_target d es = (if d = int n then Some f else fd_target d ds)" and "fd_target (int n) ds = None"
  using open_fd_spec[OF assms] by (auto simp: fd_target_def nth_append le_less)

lemma close_fd_target: "fd_target d (close_fd c ds) = (if d = c then None else fd_target d ds)"
  by (auto simp: fd_target_def close_fd_def nth_list_update)

lemma own_connections_serve:
  assumes "DedupFS_new e t p = (r, q)" and "own_connections p"
  shows "own_connections q \<and> p_fds q = p_fds p \<and> p_storage q = p_storage p
    \<and> (\<forall>u. u \<noteq> t \<longrightarrow> p_dedups q u = p_dedups p u) \<and> (p_dedups p t \<noteq> None \<longrightarrow> q = p) \<and> (e = None \<longrightarrow> p_dedups q t \<noteq> None)"
proof (cases "p_dedups p t = None \<and> e = None")
  case True
  have caches: "p_caches p t = (if t = 0 then Some \<lparr>bc_db = None, bc_writer = True\<rparr> else None)"
    using assms(2) True by (auto simp: own_connections_def)
  have q: "q = p\<lparr>p_next := Suc (p_next p), p_caches := (p_caches p)(t \<mapsto> \<lparr>bc_db = Some (p_next p), bc_writer = (t = 0)\<rparr>),
      p_dedups := (p_dedups p)(t \<mapsto> p_next p)\<rparr>"
    using assms(1) True caches by (simp add: DedupFS_new_def run_simps getThreadInstance_def split: if_splits)
  have inj: "inj_on ((p_dedups p)(t \<mapsto> p_next p)) (dom ((p_dedups p)(t \<mapsto> p_next p)))"
  proof (rule inj_onI)
    fix u v assume uv: "u \<in> dom ((p_dedups p)(t \<mapsto> p_next p))" "v \<in> dom ((p_dedups p)(t \<mapsto> p_next p))"
      "((p_dedups p)(t \<mapsto> p_next p)) u = ((p_dedups p)(t \<mapsto> p_next p)) v"
    have lt: "p_dedups p w \<noteq> Some (p_next p)" for w using assms(2) by (auto simp: own_connections_def)
    have "u \<noteq> t \<Longrightarrow> v \<noteq> t \<Longrightarrow> u = v" using uv assms(2) by (auto simp: own_connections_def inj_on_def)
    then show "u = v" using uv(3) lt by (metis fun_upd_apply)
  qed
  have "p_caches q = (\<lambda>u. if u = 0 then Some \<lparr>bc_db = p_dedups q 0, bc_writer = True\<rparr>
      else map_option (\<lambda>db. \<lparr>bc_db = Some db, bc_writer = False\<rparr>) (p_dedups q u))"
    using assms(2) unfolding q by (auto simp: own_connections_def fun_eq_iff)
  with inj have "own_connections q"
    using assms(2) unfolding own_connections_def by (simp add: q less_Suc_eq)
  with True show ?thesis by (simp add: q)
next
  case False
  then have "q = p" using assms(1) by (auto simp: DedupFS_new_def run_simps split: option.splits if_splits)
  with False assms(2) show ?thesis by auto
qed

lemma own_connections_end:
  assumes "own_connections p" and "t \<noteq> 0"
  shows "own_connections (BlocksCache_stop t (DedupFS_delete t p))"
  using assms by (auto simp: own_connections_def BlocksCache_stop_def BlocksCache_delete_def DedupFS_delete_def Let_def
      inj_on_def fun_eq_iff split: option.splits if_splits)

lemma proc_step_own: "proc_step p e q \<Longrightarrow> own_connections p \<Longrightarrow> own_connections q"
  by (erule proc_step.cases) (auto simp: own_connections_serve own_connections_end, auto simp: own_connections_def)

lemma proc_run_own: "proc_run p es q \<Longrightarrow> own_connections p \<Longrightarrow> own_connections q"
  by (induction rule: proc_run.induct) (auto intro: proc_step_own)

lemma proc_step_storage:
  assumes "proc_step p e q" and "own_connections p" and "storage_open p"
    and "\<And>t. e = Ends t \<Longrightarrow> p_dedups p t = None"
  shows "storage_open q"
  using assms(1)
proof cases
  case (serve e t r)
  then show ?thesis using own_connections_serve[OF serve(2) assms(2)] assms(3) by (simp add: storage_open_def)
next
  case (ends t)
  then have "p_caches p t = None" using assms(2,4) by (simp add: own_connections_def)
  then show ?thesis using ends assms(3) by (simp add: BlocksCache_stop_def DedupFS_delete_def storage_open_def)
next
  case (opens f d ds)
  then show ?thesis using open_fd_target[OF opens(3)] assms(3) by (auto simp: storage_open_def)
next
  case (closes d f)
  then show ?thesis using assms(3) by (auto simp: storage_open_def close_fd_target)
qed

lemma proc_step_dedups:
  "proc_step p e q \<Longrightarrow> own_connections p \<Longrightarrow> p_dedups q t \<noteq> None \<Longrightarrow> p_dedups p t = None \<Longrightarrow> \<exists>x. e = Serve t x"
  by (erule proc_step.cases)
    (use own_connections_serve in \<open>fastforce\<close>,
     auto simp: BlocksCache_stop_def BlocksCache_delete_def DedupFS_delete_def Let_def split: option.splits if_splits)

lemma proc_run_storage:
  assumes "proc_run p es q" and "own_connections p" and "storage_open p"
    and "\<And>t. Ends t \<in> set es \<Longrightarrow> p_dedups p t = None \<and> (\<forall>x. Serve t x \<notin> set es)"
  shows "storage_open q"
  using assms
proof (induction rule: proc_run.induct)
  case (more p e q es r)
  have "storage_open q"
    by (rule proc_step_storage[OF more(1,4,5)]) (use more(6) in auto)
  moreover have "p_dedups q t = None" if "Ends t \<in> set es" for t
    using proc_step_dedups[OF more(1,4), of t] more(6)[of t] that by (metis list.set_intros)
  ultimately show ?case
    using more(3)[OF proc_step_own[OF more(1,4)]] more(6) by auto
qed

lemma started:
  assumes "BlocksCache_start bits junk ok 0 (boot ds disk) = (Ok (), p)"
  shows "own_connections p \<and> storage_open p \<and> p_dedups p = Map.empty"
proof -
  obtain d fs where fs: "open_fd StorageFile ds = (d, fs)" by fastforce
  then have "ok" using assms
    by (auto simp: BlocksCache_start_def BlocksCache_new_def boot_def run_simps bnd_def split: if_splits)
  moreover from this fs assms obtain disk' where "BlocksCache_open bits junk disk = Inr disk'"
    by (cases "BlocksCache_open bits junk disk")
      (auto simp: BlocksCache_start_def BlocksCache_new_def boot_def run_simps bnd_def)
  ultimately have "p = (boot ds disk)\<lparr>p_storage := int d, p_fds := fs, p_disk := disk', p_writing := True,
      p_caches := [0 \<mapsto> \<lparr>bc_db = None, bc_writer = True\<rparr>]\<rparr>"
    using assms fs by (simp add: BlocksCache_start_def BlocksCache_new_def boot_def run_simps bnd_def)
  then show ?thesis
    using open_fd_target(1)[OF fs, of "int d"] by (auto simp: boot_def own_connections_def storage_open_def fun_eq_iff)
qed

subsection \<open>Properties of the arguments\<close>

lemma db_index_options:
  assumes "\<forall>i\<in>{n..<m}. is_option (argv ! i)" and "n \<le> m" and "m < length argv" and "\<not> is_option (argv ! m)"
  shows "db_index argv n = m"
  using assms
proof (induction "m - n" arbitrary: n)
  case 0
  then show ?case by (simp add: db_index.simps[of argv n])
next
  case (Suc k)
  then have "db_index argv (n + 1) = m" by simp
  moreover have "n < length argv - 1" "is_option (argv ! n)" using Suc by auto
  ultimately show ?case by (simp add: db_index.simps[of argv n])
qed

lemma shift_args_drop:
  "i < length argv \<Longrightarrow> shift_args argv i = take i argv @ drop (Suc i) argv @ [last argv]"
proof (induction "length argv - i" arbitrary: argv i)
  case (Suc k)
  show ?case
  proof (cases "i < length argv - 1")
    case True
    let ?a = "argv[i := argv ! (i + 1)]"
    have "shift_args ?a (i + 1) = take (i + 1) ?a @ drop (Suc (i + 1)) ?a @ [last ?a]"
      using Suc True by simp
    moreover have "take (i + 1) ?a = take i argv @ [argv ! (i + 1)]"
      using True by (simp add: take_Suc_conv_app_nth)
    moreover have "last ?a = last argv" using True by (subst last_list_update) auto
    moreover have "drop (Suc i) argv = argv ! (i + 1) # drop (Suc (i + 1)) argv" using True by (simp add: Cons_nth_drop_Suc)
    ultimately show ?thesis using True by (simp add: shift_args.simps[of argv i])
  next
    case False
    with Suc.prems have "i = length argv - 1" "argv \<noteq> []" by auto
    moreover from this(1) have "shift_args argv i = argv" by (subst shift_args.simps) simp
    moreover have "argv = take i argv @ [last argv]"
      using \<open>i = length argv - 1\<close> \<open>argv \<noteq> []\<close> by (metis append_butlast_last_id butlast_conv_take)
    ultimately show ?thesis using \<open>i = length argv - 1\<close> by simp
  qed
qed simp

text \<open>The first argument that is not an option is the database; FUSE gets the others.  Without one,
  a string is made from the \<open>NULL\<close> at the end of \<open>argv\<close>.\<close>

lemma main_args_database:
  assumes "\<forall>a\<in>set opts. is_option (Some a)" and "\<not> is_option (Some url)"
  shows "main_args (prog # opts @ url # rest)
      = Ok (url, Suc (length opts + length rest), map Some (prog # opts @ rest) @ [None, None])"
    and "main_args (prog # opts) = Halt NullDeref"
proof -
  let ?argv = "map Some (prog # opts @ url # rest) @ [None]" and ?n = "Suc (length opts)"
  have at: "?argv ! ?n = Some url" by (simp add: nth_append)
  have "is_option (?argv ! i)" if "i \<in> {1..<?n}" for i
    using assms(1) that by (cases i) (auto simp: nth_append)
  then have i: "db_index ?argv 1 = ?n"
    using at assms(2) by (intro db_index_options) auto
  have "shift_args ?argv ?n = map Some (prog # opts @ rest) @ [None, None]"
    by (subst shift_args_drop) auto
  then show "main_args (prog # opts @ url # rest)
      = Ok (url, Suc (length opts + length rest), map Some (prog # opts @ rest) @ [None, None])"
    using at unfolding main_args_def Let_def i by simp
next
  let ?argv = "map Some (prog # opts) @ [None]" and ?n = "Suc (length opts)"
  have at: "?argv ! ?n = None" by (simp add: nth_append)
  have "is_option (?argv ! i)" if "i \<in> {1..<?n}" for i
    using assms(1) that by (cases i) (auto simp: nth_append)
  then have "db_index ?argv 1 = ?n" using at by (intro db_index_options) (auto simp: is_option_def)
  then show "main_args (prog # opts) = Halt NullDeref" using at unfolding main_args_def Let_def by simp
qed

text \<open>A run of \<open>main\<close>: FUSE is given the arguments without the database, its answer is that of the process, and
  the storage file that was opened for it is closed.\<close>

lemma main_prog_runs:
  assumes "\<forall>a\<in>set opts. is_option (Some a)" and "\<not> is_option (Some url)"
    and "BlocksCache_start 16 junk ok 0 p = (Ok (), q)"
    and "fuse url (Suc (length opts + length rest)) (map Some (prog # opts @ rest) @ [None, None]) q = (Ok stat, u)"
    and "p_caches u 0 = Some b"
  shows "\<exists>v. main_prog junk ok fuse (prog # opts @ url # rest) p = (Ok stat, v) \<and> p_caches v 0 = None
    \<and> fd_target (p_storage v) (p_fds v) = None"
  using assms(3-5) main_args_database(1)[OF assms(1,2)]
  by (simp add: main_prog_def run_simps try_catch_def BlocksCache_stop_def BlocksCache_delete_def Let_def close_fd_target)

lemma main_prog_no_storage:
  assumes "main_args args = Ok (url, argc, argv)" and "BlocksCache_start 16 junk ok 0 p = (Exn (SystemError m), q)"
  shows "main_prog junk ok fuse args p = (Exn (SystemError m), q)"
  using assms by (simp add: main_prog_def run_simps try_catch_def is_sql_exception_def bnd_def sqn_def throw_def)

subsection \<open>Properties\<close>

definition std_fds :: fds where
  "std_fds = [Some (OtherFile ''stdin''), Some (OtherFile ''stdout''), Some (OtherFile ''stderr'')]"

text \<open>C32: Once the cache is started, in every run of the threads each thread has a cache object exactly if it
  has served a request (the main thread has one anyway), works on its own connection and shares it with no
  other thread, and the writer runs.  As long as no thread ends that has served a request, \<open>_storage\<close> is the
  descriptor of the storage file.\<close>

theorem threads_own_connections:
  assumes "BlocksCache_start bits junk ok 0 (boot ds disk) = (Ok (), p)" and "proc_run p es q"
  shows "own_connections q \<and>
    ((\<forall>t. Ends t \<in> set es \<longrightarrow> (\<forall>x. Serve t x \<notin> set es)) \<longrightarrow> fd_target (p_storage q) (p_fds q) = Some StorageFile)"
  using proc_run_own[OF assms(2)] proc_run_storage[OF assms(2)] started[OF assms(1)]
  by (simp add: storage_open_def)

definition std_proc :: proc where
  "std_proc = \<lparr>p_fds = std_fds @ [Some StorageFile], p_storage = 3, p_disk = signature_magic @ [16, 0, 0, 0, 0, 0, 0, 0],
     p_caches = [0 \<mapsto> \<lparr>bc_db = None, bc_writer = True\<rparr>], p_dedups = Map.empty, p_next = 0, p_writing = True\<rparr>"

lemma std_started: "BlocksCache_start 4 (replicate 16 0) True 0 (boot std_fds []) = (Ok (), std_proc)"
proof -
  have "BlocksCache_open 4 (replicate 16 0) [] = Inr (signature_magic @ [16, 0, 0, 0, 0, 0, 0, 0])" by code_simp
  then show ?thesis
    by (simp add: BlocksCache_start_def BlocksCache_new_def boot_def run_simps bnd_def std_fds_def std_proc_def)
qed

definition std_served :: proc where
  "std_served = std_proc\<lparr>p_next := 1, p_dedups := [1 \<mapsto> 0],
     p_caches := [0 \<mapsto> \<lparr>bc_db = None, bc_writer = True\<rparr>, 1 \<mapsto> \<lparr>bc_db = Some 0, bc_writer = False\<rparr>]\<rparr>"

lemma std_run: "proc_run std_proc [Serve 1 None] std_served"
proof -
  have "DedupFS_new None 1 std_proc = (Ok (), std_served)"
    by (simp add: DedupFS_new_def getThreadInstance_def run_simps std_proc_def std_served_def)
  then show ?thesis by (auto intro: proc_run.intros proc_step.serve)
qed

theorem threads_own_connections_witness:
  "proc_run std_proc [Serve 1 None] std_served \<and> own_connections std_served \<and>
    fd_target (p_storage std_served) (p_fds std_served) = Some StorageFile"
  using threads_own_connections[OF std_started std_run] std_run by simp

text \<open>C33: When a thread that has served a request ends, the destructor of its cache object closes the storage
  file for the whole process: the other threads and the writer go on with a descriptor that is not open, and
  the next file that SQLite opens is given this descriptor if no lower one is free, so that blocks are then
  written into a file of the database.\<close>

theorem thread_end_closes_storage:
  assumes "BlocksCache_start bits junk ok 0 (boot ds disk) = (Ok (), p)" and "proc_run p es q"
    and "t \<noteq> 0" and "p_dedups q t \<noteq> None" and "proc_step q (Ends t) r"
  shows "fd_target (p_storage r) (p_fds r) = None \<and> p_writing r \<and> p_dedups r = (p_dedups q)(t := None) \<and>
    (0 \<le> p_storage r \<and> (\<forall>d<nat (p_storage r). fd_target (int d) (p_fds r) \<noteq> None) \<and> proc_step r (Opens f) u \<longrightarrow>
      fd_target (p_storage u) (p_fds u) = Some (OtherFile f))"
proof -
  have own: "own_connections q" using proc_run_own[OF assms(2)] started[OF assms(1)] by simp
  from assms(5) have r: "r = BlocksCache_stop t (DedupFS_delete t q)" by (cases rule: proc_step.cases)
  have "p_caches q t = map_option (\<lambda>db. \<lparr>bc_db = Some db, bc_writer = False\<rparr>) (p_dedups q t)"
    using own assms(3) by (simp add: own_connections_def)
  then have sel: "p_fds r = close_fd (p_storage q) (p_fds q)" "p_storage r = p_storage q" "p_writing r"
      "p_dedups r = (p_dedups q)(t := None)"
    using own assms(4) by (auto simp: r BlocksCache_stop_def BlocksCache_delete_def DedupFS_delete_def own_connections_def)
  have gone: "fd_target (p_storage r) (p_fds r) = None" by (simp add: sel close_fd_target)
  have "fd_target (p_storage u) (p_fds u) = Some (OtherFile f)"
    if low: "0 \<le> p_storage r" "\<forall>d<nat (p_storage r). fd_target (int d) (p_fds r) \<noteq> None" and "proc_step r (Opens f) u"
  proof -
    from that(3) obtain d ds where o: "open_fd (OtherFile f) (p_fds r) = (d, ds)" "u = r\<lparr>p_fds := ds\<rparr>"
      by (cases rule: proc_step.cases) auto
    have "\<not> d < nat (p_storage r)" using low(2) open_fd_target(2)[OF o(1)] by blast
    moreover have "\<not> nat (p_storage r) < d"
      using open_fd_spec[OF o(1)] gone low(1) by (auto simp: fd_target_def)
    ultimately have "p_storage r = int d" using low(1) by linarith
    then show ?thesis using open_fd_target(1)[OF o(1)] by (simp add: o(2))
  qed
  with gone sel show ?thesis by blast
qed

theorem thread_end_closes_storage_witness:
  "\<exists>r u. proc_step std_served (Ends 1) r \<and> fd_target (p_storage r) (p_fds r) = None \<and>
    proc_step r (Opens ''files.db-wal'') u \<and> fd_target (p_storage u) (p_fds u) = Some (OtherFile ''files.db-wal'')"
proof -
  define r where "r = BlocksCache_stop 1 (DedupFS_delete 1 std_served)"
  have ended: "proc_step std_served (Ends 1) r" unfolding r_def by (rule proc_step.ends) simp
  have fds: "p_fds r = std_fds @ [None]" "p_storage r = 3"
    by (simp_all add: r_def BlocksCache_stop_def DedupFS_delete_def BlocksCache_delete_def std_served_def std_proc_def
        close_fd_def std_fds_def)
  obtain d ds where "open_fd (OtherFile ''files.db-wal'') (p_fds r) = (d, ds)" by fastforce
  then have o: "proc_step r (Opens ''files.db-wal'') (r\<lparr>p_fds := ds\<rparr>)" by (rule proc_step.opens)
  have low: "0 \<le> p_storage r \<and> (\<forall>d<nat (p_storage r). fd_target (int d) (p_fds r) \<noteq> None)"
    unfolding fds by (auto simp: std_fds_def fd_target_def less_Suc_eq numeral_eq_Suc)
  have "(1 :: nat) \<noteq> 0" "p_dedups std_served 1 \<noteq> None" by (simp_all add: std_served_def)
  from thread_end_closes_storage[OF std_started std_run this ended, of "''files.db-wal''" "r\<lparr>p_fds := ds\<rparr>"] ended o low
  show ?thesis by blast
qed

end
