(* ===== verification/Fs_Invariant.thy ===== *)
theory Fs_Invariant
  imports Wrap
begin

text \<open>
  What every request keeps, on every outcome and whatever statement fails: the keys of the
  rows, and the reference counts and inodes of the open handles.  One \<open>keeps\<close> rule per
  operation, from the statements up to the operations table.
\<close>

subsection \<open>The keys of the rows\<close>

text \<open>What the constraints of the table \<open>files\<close> keep, in the tables and in what a rollback goes back to.\<close>

definition row_keys :: "tables \<Rightarrow> bool" where
  "row_keys T \<longleftrightarrow> distinct (map fr_id (t_files T)) \<and> distinct (map fr_path (t_files T)) \<and> (\<forall>r\<in>set (t_files T). 0 < fr_id r)"

definition db_inv :: "sqldb \<Rightarrow> bool" where
  "db_inv d \<longleftrightarrow> row_keys (db_tabs d) \<and> (\<forall>T. db_saved d = Some T \<longrightarrow> row_keys T)"

lemma row_keys_files [simp]:
  "row_keys (T\<lparr>t_blocks := b\<rparr>) = row_keys T" "row_keys (T\<lparr>t_hashes := h\<rparr>) = row_keys T"
  by (simp_all add: row_keys_def)

lemma keys_exec:
  assumes "\<And>d x d'. I d \<Longrightarrow> f d = Inr (x, d') \<Longrightarrow> I d'" and "\<And>d sc. I d \<Longrightarrow> I (d\<lparr>db_script := sc\<rparr>)"
  shows "keeps I (exec f)"
  using assms by (fastforce simp: keeps_def exec_def Let_def split: list.split option.split sum.split)

lemma db_inv_script [simp]: "db_inv (d\<lparr>db_script := sc\<rparr>) = db_inv d"
  by (simp add: db_inv_def)

lemma keeps_query [inv_intros]: "keeps db_inv (sql_query f)"
  unfolding sql_query_def by (rule keys_exec) auto

lemma keeps_update: "(\<And>T. row_keys T \<Longrightarrow> row_keys (f T)) \<Longrightarrow> keeps db_inv (sql_update f)"
  unfolding sql_update_def by (rule keys_exec) (auto simp: db_inv_def)

lemma keeps_insert: "(\<And>rid T. row_keys T \<Longrightarrow> row_keys (f rid T)) \<Longrightarrow> keeps db_inv (sql_insert pick f)"
  unfolding sql_insert_def by (rule keys_exec) (auto simp: db_inv_def Let_def)

lemma keeps_transaction [inv_intros]:
  "keeps db_inv transactionBegin" "keeps db_inv transactionCommit" "keeps db_inv transactionRollback" "keeps db_inv lastInsertId"
  unfolding transactionBegin_def transactionCommit_def transactionRollback_def lastInsertId_def
  by (rule keys_exec keeps_gets; auto simp: db_inv_def split: option.splits)+

text \<open>The statements on the other two tables, and those on \<open>files\<close>.\<close>

lemma row_keys_stmts [simp]:
  "row_keys (stDeleteFileBlock f n T) = row_keys T" "row_keys (stDecreaseUseCount h T) = row_keys T"
  "row_keys (stIncreaseUseCount h T) = row_keys T" "row_keys (stSetUseCount c k T) = row_keys T"
  "row_keys (stUpdateBlockHash h k T) = row_keys T" "row_keys (stInsertBlockHash k h T) = row_keys T"
  "row_keys (stReplaceFileBlock k f n h T) = row_keys T"
  by (simp_all add: stmt_defs)

lemma row_keys_map:
  assumes "\<And>r. fr_id (g r) = fr_id r" and "\<And>r. fr_path (g r) = fr_path r" and "row_keys T"
  shows "row_keys (T\<lparr>t_files := map g (t_files T)\<rparr>)"
  using assms by (simp add: row_keys_def o_def)

lemma row_keys_size: "row_keys T \<Longrightarrow> row_keys (stUpdateFileSize n i T)"
  unfolding stUpdateFileSize_def by (rule row_keys_map) auto

lemma row_keys_mtime: "row_keys T \<Longrightarrow> row_keys (stSetMtime m p T)"
  unfolding stSetMtime_def by (rule row_keys_map) auto

lemma row_keys_delete: "row_keys T \<Longrightarrow> row_keys (stDeleteFile p T)"
  by (auto simp: row_keys_def stDeleteFile_def distinct_map intro: inj_on_subset)

lemma keeps_write_files:
  assumes "\<And>T. row_keys T \<Longrightarrow> distinct (map fr_id (t_files (f T))) \<and> (\<forall>r\<in>set (t_files (f T)). 0 < fr_id r)"
  shows "keeps db_inv (sql_write_files f)"
  unfolding sql_write_files_def
  by (rule keys_exec) (use assms in \<open>auto simp: db_inv_def row_keys_def split: if_splits\<close>)

lemma keeps_set_path [inv_intros]: "keeps db_inv (sql_write_files (stSetPath p g i))"
  by (rule keeps_write_files) (auto simp: row_keys_def stSetPath_def o_def if_distrib cong: if_cong)

lemma keeps_on_fresh:
  assumes "\<And>d. db_inv d \<Longrightarrow> db_inv (snd (g (f d) d))"
  shows "keeps db_inv (bnd (gets f) g)"
  using assms by (simp add: keeps_def bnd_def gets_def)

lemmas keeps_files [inv_intros] = keeps_update[OF row_keys_delete] keeps_update[OF row_keys_mtime]
  keeps_update[OF row_keys_size]

lemma keeps_getByPath [inv_intros]: "keeps db_inv (getByPath E p)"
  unfolding getByPath_def by (intro inv_intros)

lemma keeps_child_pattern [inv_intros]: "keeps I (child_pattern p)"
  unfolding child_pattern_def by (intro inv_intros)

lemma keeps_dirEmpty [inv_intros]: "keeps db_inv (dirEmpty f)"
  unfolding dirEmpty_def by (intro inv_intros)

lemma keeps_readdir [inv_intros]: "keeps db_inv (readdir E f)"
  unfolding readdir_def by (intro inv_intros)

lemma keeps_remove [inv_intros]: "keeps db_inv (remove p)"
  unfolding remove_def by (intro inv_intros)

lemma keeps_utime [inv_intros]: "keeps db_inv (utime p m)"
  unfolding utime_def by (intro inv_intros)

lemma keeps_rename_loop [inv_intros]: "keeps db_inv (rename_loop p q c rows)"
  by (induction rows) (auto intro!: inv_intros)

lemma keeps_rename [inv_intros]: "keeps db_inv (rename E p q)"
  unfolding rename_def by (intro inv_intros)

context dedup_env
begin

lemma db_inv_write_files:
  assumes "db_inv d" and "distinct (map fr_id (t_files (f (db_tabs d)))) \<and> (\<forall>r\<in>set (t_files (f (db_tabs d))). 0 < fr_id r)"
  shows "db_inv (snd (sql_write_files f d))"
  using assms by (auto simp: sql_write_files_def exec_def Let_def db_inv_def row_keys_def split: list.split option.split)

lemma keeps_create [inv_intros]: "keeps db_inv (create E now p mode)"
proof -
  have "e_newid E (map fr_id rs) \<notin> fr_id ` set rs" for rs using newid_fresh[of "map fr_id rs"] by simp
  then have "keeps db_inv (bnd (gets (\<lambda>d. e_newid E (map fr_id (t_files (db_tabs d))))) (\<lambda>rid.
               sql_write_files (stInsertFile rid p dep mode now)))" for dep now
    by (intro keeps_on_fresh db_inv_write_files)
      (use newid_pos in \<open>auto simp: stInsertFile_def db_inv_def row_keys_def\<close>)
  note tail = keeps_bnd[OF keeps_getByPath keeps_if[OF keeps_ret keeps_sqn[OF this keeps_ret]]]
  show ?thesis
    unfolding create_def
    by (rule keeps_bnd) ((intro inv_intros)[1], auto intro!: keeps_ret tail split: sum.split)
qed

end

subsection \<open>What the operations on a file keep\<close>

text \<open>Besides the keys of the rows: the reference count and the inode of the handle.\<close>

definition file_inv :: "int \<Rightarrow> int \<Rightarrow> ('fm, 'sm) cstate \<Rightarrow> bool" where
  "file_inv k i c \<longleftrightarrow> db_inv (c_db c) \<and> fi_refcount (c_fi c) = k \<and> ino c = i"

lemma file_on_db [inv_intros]: "keeps db_inv m \<Longrightarrow> keeps (file_inv k i) (on_db m)"
  by (fastforce simp: keeps_def file_inv_def on_db_def zoom_def split: prod.split)

lemma keeps_put_fblock [inv_intros]:
  "keeps (file_inv k i) (modify (put_fblock E n b))" "keeps (file_inv k i) (modify (erase_fblock E n))"
  "keeps (file_inv k i) (modify (put_sblock E m sb))" "keeps (file_inv k i) (modify (erase_sblock E m))"
  by (auto intro!: keeps_modify simp: file_inv_def put_fblock_def erase_fblock_def put_sblock_def erase_sblock_def)

lemma keeps_deref [inv_intros]: "keeps I (deref_fblock E n)" "keeps I (deref_sblock E k)"
  by (auto simp: keeps_def deref_fblock_def deref_sblock_def split: option.split)

lemma keeps_set [inv_intros]: "keeps (file_inv k i) (set_fblock E n f)" "keeps (file_inv k i) (set_sblock E m g)"
  unfolding set_fblock_def set_sblock_def by (intro inv_intros)+

lemma keeps_new_object [inv_intros]: "keeps (file_inv k i) new_object"
  by (simp add: keeps_def new_object_def file_inv_def)

lemma keeps_memory [inv_intros]:
  "keeps I (memcpy_into d off src len)" "keeps I (memcpy_from src off len)" "keeps I (memset_zero len)"
  unfolding memcpy_into_def memcpy_from_def memset_zero_def by (intro inv_intros)+

lemma keeps_pair [inv_intros]: "(\<And>x y. keeps I (f x y)) \<Longrightarrow> keeps I (case z of (x, y) \<Rightarrow> f x y)"
  by (cases z) auto

lemma keeps_let [inv_intros]: "(\<And>x. keeps I (f x)) \<Longrightarrow> keeps I (let x = y in f x)"
  by simp

lemma keeps_block_stmts [inv_intros]:
  "keeps db_inv (sql_update (stDeleteFileBlock f n))" "keeps db_inv (sql_update (stDecreaseUseCount h))"
  "keeps db_inv (sql_update (stIncreaseUseCount h))" "keeps db_inv (sql_update (stSetUseCount c k))"
  "keeps db_inv (sql_update (stUpdateBlockHash h k))" "keeps db_inv (sql_insert pick (\<lambda>rid. stInsertBlockHash rid h))"
  "keeps db_inv (sql_insert pick (\<lambda>rid. stReplaceFileBlock rid f n h))"
  by (auto intro!: keeps_update keeps_insert)

lemma file_loadFileBlock [inv_intros]: "keeps (file_inv k i) (loadFileBlock E b)"
  unfolding loadFileBlock_def by (intro inv_intros)

lemma keeps_replace_body [inv_intros]: "keeps (file_inv k i) (replace_body E n h sb)"
  unfolding replace_body_def by (intro inv_intros)

lemma keeps_replaceStorageBlock [inv_intros]: "keeps (file_inv k i) (replaceStorageBlock E n h)"
  unfolding replaceStorageBlock_def by (intro inv_intros)

lemma keeps_releaseStorageBlock [inv_intros]: "keeps (file_inv k i) (releaseStorageBlock E n)"
  unfolding releaseStorageBlock_def by (intro inv_intros)

lemma keeps_db_ftruncate [inv_intros]: "keeps (file_inv k i) (db_ftruncate n)"
proof -
  have "keeps (file_inv k i) (modify (\<lambda>s. s\<lparr>c_fi := (c_fi s)\<lparr>fi_st := (fi_st (c_fi s))\<lparr>st_size := n\<rparr>\<rparr>\<rparr>))"
    by (rule keeps_modify) (simp add: file_inv_def)
  then show ?thesis unfolding db_ftruncate_def by (intro inv_intros) auto
qed

lemma keeps_items [inv_intros]:
  "keeps (file_inv k i) (ensure_fblock E n)" "keeps (file_inv k i) (ensure_sblock E n c)"
  "keeps (file_inv k i) (unlock_fblock E n)"
  unfolding ensure_fblock_def ensure_sblock_def unlock_fblock_def Let_def by (intro inv_intros)+

lemma keeps_getLockedFileBlock [inv_intros]: "keeps (file_inv k i) (getLockedFileBlock E n)"
  unfolding getLockedFileBlock_def by (intro inv_intros)

lemma keeps_getStorageBlock [inv_intros]: "keeps (file_inv k i) (getStorageBlock E n)"
  unfolding getStorageBlock_def by (intro inv_intros)

lemma keeps_populate [inv_intros]: "keeps (file_inv k i) (populateStorageBlock E n)"
  unfolding populateStorageBlock_def by (intro inv_intros)

lemma keeps_read_chunk [inv_intros]: "keeps (file_inv k i) (read_chunk E n o0 c)"
  unfolding read_chunk_def by (intro inv_intros)

lemma keeps_read_loop [inv_intros]: "keeps (file_inv k i) (read_loop E sz e rounds f cur buf)"
  by (induction rounds arbitrary: f cur buf) (auto intro!: inv_intros)

lemma keeps_readBuf [inv_intros]: "keeps (file_inv k i) (readBuf E sz off)"
  unfolding readBuf_def Let_def by (intro inv_intros)

lemma keeps_writeBlock [inv_intros]: "keeps (file_inv k i) (writeBlock E d n)"
  unfolding writeBlock_def Let_def by (intro inv_intros)

lemma keeps_writeBlockWrapper [inv_intros]: "keeps (file_inv k i) (writeBlockWrapper E d n c o0)"
  unfolding writeBlockWrapper_def Let_def by (intro inv_intros)

lemma keeps_write_loop [inv_intros]: "keeps (file_inv k i) (write_loop E buf sz e rounds f cur)"
  by (induction rounds arbitrary: f cur) (auto intro!: inv_intros)

lemma keeps_writeBuf [inv_intros]: "keeps (file_inv k i) (writeBuf E buf sz off)"
  unfolding writeBuf_def Let_def by (intro inv_intros)

lemma keeps_truncate_loop [inv_intros]: "keeps (file_inv k i) (truncate_loop E bs)"
  by (induction bs) (auto intro!: inv_intros)

lemma keeps_truncate [inv_intros]: "keeps (file_inv k i) (Blocks_Cache.truncate E n)"
  unfolding Blocks_Cache.truncate_def Let_def by (intro inv_intros)

lemma keeps_flush [inv_intros]: "keeps (file_inv k i) (pwrite_block E b)" "keeps (file_inv k i) (flush_block E n)"
proof -
  have "keeps (file_inv k i) (modify (\<lambda>s. s\<lparr>c_disk := f s\<rparr>))" for f
    by (rule keeps_modify) (simp add: file_inv_def)
  then show 1: "keeps (file_inv k i) (pwrite_block E b)" for b unfolding pwrite_block_def by (intro inv_intros)
  show "keeps (file_inv k i) (flush_block E n)" unfolding flush_block_def by (intro inv_intros 1)
qed

lemma keeps_run_loops [inv_intros]:
  "keeps (file_inv k i) (flush_loop E ks m)" "keeps (file_inv k i) (mark_loop E m ks del)" "keeps (file_inv k i) (erase_loop E ks)"
  by (induction ks arbitrary: m del) (auto intro!: inv_intros)

lemma keeps_run_pass [inv_intros]: "keeps (file_inv k i) (run_pass E)"
  unfolding run_pass_def by (intro inv_intros)

subsection \<open>What the handlers keep\<close>

text \<open>\<open>holds H\<close>: the rows have their keys; every object that is alive is held by its handle alone,
  at an address that was given out; and the handles \<open>H\<close> are alive, with their inode.\<close>

definition holds :: "(nat \<times> int) set \<Rightarrow> ('fm, 'sm) fs \<Rightarrow> bool" where
  "holds H s \<longleftrightarrow> db_inv (fs_db s) \<and> 0 < fs_fresh s
   \<and> (\<forall>fh fi. fs_objects s fh = Some fi \<longrightarrow> fi_refcount fi = 1 \<and> 0 < fh \<and> fh < fs_fresh s)
   \<and> (\<forall>(fh, i)\<in>H. \<exists>fi. fs_objects s fh = Some fi \<and> fi_ino fi = i)"

lemma keeps_fs_on_db [inv_intros]: "keeps db_inv m \<Longrightarrow> keeps (holds H) (fs_on_db m)"
  by (fastforce simp: keeps_def holds_def fs_on_db_def zoom_def split: prod.split)

lemma keeps_with_temp:
  assumes "\<And>k i. keeps (file_inv k i) m"
  shows "keeps (holds H) (with_temp fi m)"
proof -
  have "db_inv (c_db c)" if "db_inv (fs_db s)" "m (enter fi s) = (r, c)" for s r c
    using keepsD[OF assms[of "fi_refcount fi" "fi_ino fi"] _ that(2)] that(1) by (simp add: file_inv_def enter_def)
  then show ?thesis by (fastforce simp: keeps_def holds_def with_temp_def leave_def split: prod.split)
qed

lemma with_handle_run:
  assumes m: "\<And>k i. keeps (file_inv k i) m" and s: "holds H s" and fi: "fs_objects s fh = Some fi"
  obtains r c fi' where "with_handle fh m s = (r, (leave c s)\<lparr>fs_objects := (fs_objects s)(fh \<mapsto> fi')\<rparr>)"
    and "m (enter (intrusive_ptr_add_ref fi) s) = (r, c)" and "c_fi c = intrusive_ptr_add_ref fi'"
    and "fi_refcount fi' = 1" and "fi_ino fi' = fi_ino fi" and "db_inv (c_db c)"
proof -
  obtain r c where run: "m (enter (intrusive_ptr_add_ref fi) s) = (r, c)" by (cases "m (enter (intrusive_ptr_add_ref fi) s)")
  have one: "fi_refcount fi = 1" using s fi by (simp add: holds_def)
  have "file_inv 2 (fi_ino fi) (enter (intrusive_ptr_add_ref fi) s)"
    using s one by (simp add: file_inv_def enter_def intrusive_ptr_add_ref_def holds_def)
  then have inv: "file_inv 2 (fi_ino fi) c" by (rule keepsD[OF m _ run])
  let ?fi = "(c_fi c)\<lparr>fi_refcount := 1\<rparr>"
  have "intrusive_ptr_release (c_fi c) = Some ?fi" "c_fi c = intrusive_ptr_add_ref ?fi"
    using inv by (simp_all add: intrusive_ptr_release_def intrusive_ptr_add_ref_def file_inv_def)
  with that[of r ?fi c] run fi inv show thesis by (simp add: with_handle_def file_inv_def)
qed

lemma keeps_with_handle:
  fixes m :: "(('a, 'b) cstate, 'c) comp"
  assumes m: "\<And>k i. keeps (file_inv k i) m"
  shows "keeps (holds H) (with_handle fh m)"
  unfolding keeps_def
proof (intro allI impI)
  fix s :: "('a, 'b) fs" assume s: "holds H s"
  show "holds H (snd (with_handle fh m s))"
  proof (cases "fs_objects s fh")
    case None
    with s show ?thesis by (simp add: with_handle_def)
  next
    case (Some fi)
    from with_handle_run[OF m s Some] obtain r c fi' where
      "with_handle fh m s = (r, (leave c s)\<lparr>fs_objects := (fs_objects s)(fh \<mapsto> fi')\<rparr>)"
      "fi_refcount fi' = 1" "fi_ino fi' = fi_ino fi" "db_inv (c_db c)" .
    with s Some show ?thesis by (fastforce simp: holds_def leave_def)
  qed
qed

lemma keeps_detach:
  assumes "fi_refcount fi = 1"
  shows "keeps (holds H) (detach fi :: (('fm, 'sm) fs, nat) comp)"
  unfolding keeps_def
proof (intro allI impI)
  fix s :: "('fm, 'sm) fs" assume s: "holds H s"
  then have "fs_objects s (fs_fresh s) = None" by (fastforce simp: holds_def)
  with s assms show "holds H (snd (detach fi s))" by (auto simp: holds_def detach_def) fastforce+
qed

lemma keeps_release_handle: "fh \<notin> fst ` H \<Longrightarrow> keeps (holds H) (release_handle fh)"
  by (auto simp: keeps_def holds_def release_handle_def intrusive_ptr_release_def Let_def split: option.split) force+

lemma keeps_flags [inv_intros]: "keeps (holds H) sync" "keeps (holds H) (modify (fs_triggered_update f))"
  "keeps (holds H) (modify (fs_instance_update g))"
  unfolding sync_def by (auto intro!: keeps_modify simp: holds_def)

lemma keeps_bnd_getByPath:
  assumes "\<And>fi. fi_refcount fi = 1 \<Longrightarrow> keeps (holds H) (f fi)"
  shows "keeps (holds H) (bnd (fs_on_db (getByPath E p)) f)"
proof -
  have one: "fi_refcount fi = 1" if "fs_on_db (getByPath E p) s = (Ok fi, t)" for s t fi
    using that by (auto simp: fs_on_db_def zoom_def getByPath_def bnd_def ret_def split: prod.splits outcome.splits option.splits)
  have "keeps (holds H) (fs_on_db (getByPath E p))" by (intro inv_intros)
  with one assms show ?thesis by (fastforce simp: keeps_def bnd_def split: prod.split outcome.split)
qed

lemmas keeps_handle_ops = keeps_with_handle[OF keeps_readBuf] keeps_with_handle[OF keeps_writeBuf]
  keeps_with_handle[OF keeps_truncate] keeps_with_temp[OF keeps_truncate] keeps_with_temp[OF keeps_run_pass]

declare keeps_handle_ops [inv_intros]

lemma keeps_Readdir [inv_intros]: "keeps (holds H) (Readdir E filler fh buf)"
  unfolding Readdir_def Let_def by (intro keeps_with_handle inv_intros)

lemma keeps_open_ops [inv_intros]: "keeps (holds H) (Open E p)" "keeps (holds H) (Opendir E p)"
  unfolding Open_def Opendir_def
  by (rule keeps_bnd_getByPath; intro keeps_if keeps_ret keeps_bnd keeps_detach; assumption)+

text \<open>The requests that do not give up a handle of \<open>H\<close>.\<close>

definition gives_up :: "request \<Rightarrow> nat set" where
  "gives_up rq = (case rq of Rq_release fh \<Rightarrow> {fh} | Rq_releasedir fh \<Rightarrow> {fh} | _ \<Rightarrow> {})"

context dedup_env
begin

lemma keeps_Instance [inv_intros]: "keeps (holds H) (DedupFS_Instance E)"
  unfolding DedupFS_Instance_def DataBase_new_def by (intro inv_intros)

lemma keeps_Create [inv_intros]: "keeps (holds H) (Create E p mode)"
proof -
  have "keeps (holds H) (bnd (fs_on_db (getByPath E p)) (\<lambda>fi. bnd (detach fi) (\<lambda>fh. ret (res, Some fh))))" for res
    by (rule keeps_bnd_getByPath, intro keeps_bnd keeps_detach keeps_ret)
  note tail = keeps_bnd[OF keeps_fs_on_db[OF keeps_create] keeps_if[OF this keeps_ret]]
  show ?thesis unfolding Create_def by (rule keeps_bnd[OF keeps_gets tail])
qed

lemma keeps_wrap: "keeps (holds H) m \<Longrightarrow> keeps (holds H) (wrap E err m)"
  unfolding wrap_def by (intro inv_intros)

lemma keeps_serve:
  assumes "gives_up rq \<inter> fst ` H = {}"
  shows "keeps (holds H) (serve E filler buf rq)"
proof -
  have r: "keeps (holds H) (reply f m)" if "keeps (holds H) m" for f m
    using that unfolding reply_def by (intro inv_intros)
  show ?thesis
    using assms
    by (cases rq) (auto simp: wrap_defs gives_up_def Getattr_def Readlink_def Mknod_def Mkdir_def Unlink_def Rmdir_def
      Symlink_def Rename_def Link_def Chmod_def Chown_def Truncate_def Utime_def Read_def Write_def Statfs_def
      Flush_def Release_def Fsync_def Releasedir_def Fsyncdir_def Ftruncate_def
      intro!: r keeps_wrap inv_intros keeps_release_handle)
qed

end

end
