(* ===== verification/Fs_Runs.thy ===== *)
theory Fs_Runs
  imports Fs_Invariant
begin

text \<open>
  Runs of the daemon as a step relation over requests, rounds of the writer, time and failing
  statements, what holds in every reachable state, and how long a handle lives.
\<close>

subsection \<open>Runs of the daemon\<close>

text \<open>What can happen between two requests of one thread: a request is served, the writer makes
  a round, time passes, or the database will fail some of the coming statements.  A run
  that halts ends the process, so it has no step.\<close>

datatype event =
    Request request
  | Writer
  | Clock int
  | Failures "cpp_exn option list"

inductive fs_step :: "('fm, 'sm) env \<Rightarrow> ('b \<Rightarrow> string \<Rightarrow> stat \<Rightarrow> 'b \<times> bool) \<Rightarrow> 'b \<Rightarrow> ('fm, 'sm) fs \<Rightarrow> event \<Rightarrow> ('fm, 'sm) fs \<Rightarrow> bool"
  for E filler buf where
  request: "serve E filler buf rq s = (Ok r, t) \<Longrightarrow> fs_step E filler buf s (Request rq) t"
| writer: "writer_round E s = (Ok r, t) \<Longrightarrow> fs_step E filler buf s Writer t"
| writer_fails: "writer_round E s = (Exn e, t) \<Longrightarrow> fs_step E filler buf s Writer t"
| clock: "fs_now s \<le> n \<Longrightarrow> fs_step E filler buf s (Clock n) (s\<lparr>fs_now := n\<rparr>)"
| failures: "fs_step E filler buf s (Failures sc) (s\<lparr>fs_db := (fs_db s)\<lparr>db_script := sc\<rparr>\<rparr>)"

inductive_cases fs_step_requestE [elim]: "fs_step E filler buf s (Request rq) t"

inductive fs_run :: "('fm, 'sm) env \<Rightarrow> ('b \<Rightarrow> string \<Rightarrow> stat \<Rightarrow> 'b \<times> bool) \<Rightarrow> 'b \<Rightarrow> ('fm, 'sm) fs \<Rightarrow> event list \<Rightarrow> ('fm, 'sm) fs \<Rightarrow> bool"
  for E filler buf where
  stop: "fs_run E filler buf s [] s"
| more: "fs_step E filler buf s e t \<Longrightarrow> fs_run E filler buf t es u \<Longrightarrow> fs_run E filler buf s (e # es) u"

inductive_cases fs_run_NilE [elim!]: "fs_run E filler buf s [] t"
inductive_cases fs_run_ConsE: "fs_run E filler buf s (e # es) t"

text \<open>The daemon on a new database, with an opened storage file.\<close>

definition fs_boot :: "('fm, 'sm) env \<Rightarrow> byte list \<Rightarrow> int \<Rightarrow> ('fm, 'sm) fs" where
  "fs_boot E disk now = \<lparr>fs_db = init_db init_tables, fs_cache = cs_empty (e_sblocks E), fs_disk = disk, fs_next = 0,
     fs_now = now, fs_objects = Map.empty, fs_fresh = 1, fs_instance = False, fs_triggered = False\<rparr>"

definition released :: "event \<Rightarrow> nat set" where
  "released e = (case e of Request rq \<Rightarrow> gives_up rq | _ \<Rightarrow> {})"

lemma holds_boot: "holds {} (fs_boot E disk now)"
  by (simp add: holds_def fs_boot_def db_inv_def row_keys_def init_db_def init_tables_def)

context dedup_env
begin

lemma fs_step_holds:
  assumes "fs_step E filler buf s e t" and "holds H s" and "released e \<inter> fst ` H = {}"
  shows "holds H t"
  using assms(1)
proof cases
  case (request rq r)
  with assms(3) have "keeps (holds H) (serve E filler buf rq)" by (intro keeps_serve) (simp add: released_def)
  from keepsD[OF this assms(2) request(2)] show ?thesis .
next
  case (writer r)
  have "keeps (holds H) (writer_round E)" unfolding writer_round_def by (intro inv_intros)
  from keepsD[OF this assms(2) writer(2)] show ?thesis .
next
  case (writer_fails x)
  have "keeps (holds H) (writer_round E)" unfolding writer_round_def by (intro inv_intros)
  from keepsD[OF this assms(2) writer_fails(2)] show ?thesis .
qed (use assms(2) in \<open>simp_all add: holds_def\<close>)

lemma fs_run_holds:
  assumes "fs_run E filler buf s es t" and "holds H s" and "\<And>e. e \<in> set es \<Longrightarrow> released e \<inter> fst ` H = {}"
  shows "holds H t"
  using assms by (induction rule: fs_run.induct) (auto dest: fs_step_holds)

end

subsection \<open>Answers\<close>

lemma wrap_no_exn: "fst (wrap E err m s) \<noteq> Exn e"
  by (simp add: wrap_def run_simps split: prod.split outcome.split)

lemma reply_no_exn: "(\<And>e. fst (m s) \<noteq> Exn e) \<Longrightarrow> fst (reply f m s) \<noteq> Exn e"
  by (simp add: reply_def run_simps split: prod.split outcome.split) (metis fst_conv)

lemma wrap_error:
  assumes "fs_instance s" and "m s = (Exn e, t)"
  shows "wrap E err m s = (Ok err, t)"
  using assms by (simp add: wrap_def run_simps DedupFS_Instance_def)

lemma wrap_ready: "fs_instance s \<Longrightarrow> returns m s P \<Longrightarrow> returns (wrap E err m) s P"
  unfolding wrap_def by (intro returns_try_catchI) (simp add: wp_simps DedupFS_Instance_def)

lemma Instance_run:
  "returns (DedupFS_Instance E) s (\<lambda>_ t. fs_objects t = fs_objects s \<and> fs_fresh t = fs_fresh s \<and> fs_instance t)"
proof (cases "fs_instance s")
  case True
  then show ?thesis by (simp add: DedupFS_Instance_def wp_simps)
next
  case False
  have "fst (DataBase_new E (fs_now s) (fs_db s)) = Ok ()"
    by (auto simp: DataBase_new_def create_def getByPath_def sql_query_def sql_write_files_def run_simps exec_def Let_def
      split: prod.split outcome.split list.split option.split sum.split)
  then obtain d where "DataBase_new E (fs_now s) (fs_db s) = (Ok (), d)" by (metis prod.collapse)
  with False show ?thesis by (simp add: DedupFS_Instance_def fs_on_db_def returns_def run_simps)
qed

lemma wrap_run:
  assumes "\<And>u. fs_objects u = fs_objects s \<Longrightarrow> fs_instance u \<Longrightarrow> returns m u P"
  shows "returns (wrap E err m) s P"
  unfolding wrap_def
  by (intro returns_try_catchI) (use assms Instance_run[of E s] in \<open>auto simp: wp_simps elim!: returns_weaken\<close>)

subsection \<open>Serving a list of requests\<close>

primrec serve_all :: "('fm, 'sm) env \<Rightarrow> ('b \<Rightarrow> string \<Rightarrow> stat \<Rightarrow> 'b \<times> bool) \<Rightarrow> 'b \<Rightarrow> request list \<Rightarrow> ('fm, 'sm) fs \<Rightarrow> ('fm, 'sm) fs option" where
  "serve_all E filler buf [] s = Some s"
| "serve_all E filler buf (rq # rqs) s =
    (case serve E filler buf rq s of (Ok r, t) \<Rightarrow> serve_all E filler buf rqs t | _ \<Rightarrow> None)"

lemma serve_all_run: "serve_all E filler buf rqs s = Some t \<Longrightarrow> fs_run E filler buf s (map Request rqs) t"
  by (induction rqs arbitrary: s) (auto intro: fs_run.intros fs_step.intros split: prod.splits outcome.splits)

definition demo_filler :: "string list \<Rightarrow> string \<Rightarrow> stat \<Rightarrow> string list \<times> bool" where
  "demo_filler names name st = (names @ [name], False)"

subsection \<open>Properties\<close>

text \<open>C10: In every state the daemon can reach on a new database, whatever requests it served, whatever
  statements failed and whenever the writer ran: no two rows of \<open>files\<close> have the same id or the same
  path, and every \<open>file_info\<close> object that is alive is referenced exactly once, by the handle the
  kernel has, which is not null.\<close>

theorem fs_run_invariant:
  assumes "dedup_env E" and "fs_run E filler buf (fs_boot E disk now) es s"
  shows "distinct (map fr_id (t_files (db_tabs (fs_db s)))) \<and> distinct (map fr_path (t_files (db_tabs (fs_db s))))
    \<and> (\<forall>fh fi. fs_objects s fh = Some fi \<longrightarrow> fi_refcount fi = 1 \<and> fh \<noteq> 0)"
  using dedup_env.fs_run_holds[OF assms holds_boot] by (auto simp: holds_def db_inv_def row_keys_def)

theorem fs_run_invariant_witness:
  "\<exists>s. fs_run (std_env 4) demo_filler [] (fs_boot (std_env 4) [] 0) (map Request [Rq_mkdir ''/b'' 0, Rq_create ''/b/f'' S_IFREG]) s
    \<and> map fr_path (t_files (db_tabs (fs_db s))) = [''/'', ''/b'', ''/b/f'']
    \<and> distinct (map fr_id (t_files (db_tabs (fs_db s))))"
proof -
  have "(case serve_all (std_env 4) demo_filler [] [Rq_mkdir ''/b'' 0, Rq_create ''/b/f'' S_IFREG] (fs_boot (std_env 4) [] 0) of
      Some t \<Rightarrow> map fr_path (t_files (db_tabs (fs_db t))) | None \<Rightarrow> []) = [''/'', ''/b'', ''/b/f'']"
    by code_simp
  then obtain s where s: "serve_all (std_env 4) demo_filler [] [Rq_mkdir ''/b'' 0, Rq_create ''/b/f'' S_IFREG] (fs_boot (std_env 4) [] 0) = Some s"
      "map fr_path (t_files (db_tabs (fs_db s))) = [''/'', ''/b'', ''/b/f'']"
    by (auto split: option.splits)
  from fs_run_invariant[OF dedup_env_std serve_all_run[OF s(1)]] serve_all_run[OF s(1)] s(2) show ?thesis by auto
qed

text \<open>C11: A handle lives from the request that opened it to the one that releases it: during any run
  that does not release it, whatever else happens, its object stays alive and keeps its inode, and
  releasing it then answers 0 and removes this object and no other.\<close>

theorem handle_lifetime:
  assumes "dedup_env E" and "fs_run E filler buf (fs_boot E disk now) es s" and "fs_objects s fh = Some fi"
    and "fs_run E filler buf s es' t" and "\<And>e. e \<in> set es' \<Longrightarrow> fh \<notin> released e"
  shows "(\<exists>fi'. fs_objects t fh = Some fi' \<and> fi_ino fi' = fi_ino fi)
    \<and> returns (serve E filler buf (Rq_release fh)) t (\<lambda>r u. r = Re 0 \<and> fs_objects u = (fs_objects t)(fh := None))"
proof -
  have "holds {} s" using dedup_env.fs_run_holds[OF assms(1,2) holds_boot] by simp
  then have "holds {(fh, fi_ino fi)} s" using assms(3) by (simp add: holds_def)
  from dedup_env.fs_run_holds[OF assms(1,4) this] assms(5) have t: "holds {(fh, fi_ino fi)} t" by simp
  then obtain fi' where fi': "fs_objects t fh = Some fi'" "fi_ino fi' = fi_ino fi" "fi_refcount fi' = 1"
    by (fastforce simp: holds_def)
  then have "returns (Release fh) u (\<lambda>r v. r = 0 \<and> fs_objects v = (fs_objects t)(fh := None))" if "fs_objects u = fs_objects t" for u
    using that by (simp add: Release_def release_handle_def sync_def intrusive_ptr_release_def returns_def run_simps)
  then have "returns (serve E filler buf (Rq_release fh)) t (\<lambda>r u. r = Re 0 \<and> fs_objects u = (fs_objects t)(fh := None))"
    by (simp add: reply_def wp_simps wrap_release_def) (rule wrap_run, auto)
  with fi' show ?thesis by blast
qed

theorem handle_lifetime_witness:
  "\<exists>t. fs_run (std_env 4) demo_filler [] (fs_boot (std_env 4) [] 0) (map Request [Rq_create ''/f'' S_IFREG]) t
    \<and> returns (serve (std_env 4) demo_filler [] (Rq_release 1)) t (\<lambda>r u. r = Re 0 \<and> fs_objects u 1 = None)"
proof -
  have "(case serve_all (std_env 4) demo_filler [] [Rq_create ''/f'' S_IFREG] (fs_boot (std_env 4) [] 0) of
      Some t \<Rightarrow> fs_objects t 1 \<noteq> None | None \<Rightarrow> False)"
    by code_simp
  then obtain t fi where t: "serve_all (std_env 4) demo_filler [] [Rq_create ''/f'' S_IFREG] (fs_boot (std_env 4) [] 0) = Some t"
      "fs_objects t 1 = Some fi"
    by (auto split: option.splits)
  note run = serve_all_run[OF t(1)]
  from handle_lifetime[OF dedup_env_std run t(2) fs_run.stop]
  have "returns (serve (std_env 4) demo_filler [] (Rq_release 1)) t (\<lambda>r u. r = Re 0 \<and> fs_objects u = (fs_objects t)(1 := None))" by simp
  then have "returns (serve (std_env 4) demo_filler [] (Rq_release 1)) t (\<lambda>r u. r = Re 0 \<and> fs_objects u 1 = None)"
    by (rule returns_weaken) simp
  with run show ?thesis by blast
qed

text \<open>No exception reaches FUSE: whatever statement fails in whatever request, the request is
  answered, or it ends in a halt.\<close>

theorem serve_no_exception: "fst (serve E filler buf rq s) \<noteq> Exn e"
  by (cases rq) (simp_all add: wrap_defs reply_no_exn wrap_no_exn)

end
