(* ===== verification/Fs_Content.thy ===== *)
theory Fs_Content
  imports Fs_Runs
begin

text \<open>
  What the requests do to the files: the contents lifted from the cache to the state of the
  daemon, writing followed by opening and reading, removing files and directories, and a
  write that fails.
\<close>

lemma returns_fs_on_db [wp_simps]: "returns (fs_on_db m) s P = returns m (fs_db s) (\<lambda>x d. P x (s\<lparr>fs_db := d\<rparr>))"
  by (simp add: fs_on_db_def returns_zoom)

lemma returns_with_temp [wp_simps]:
  "returns (with_temp fi m) s P = returns m (enter fi s) (\<lambda>x c. P x (leave c s))"
  by (auto simp: returns_def with_temp_def split: prod.split)

lemma returns_with_handle:
  "fs_objects s fh = Some fi \<Longrightarrow> returns (with_handle fh m) s P =
    returns m (enter (intrusive_ptr_add_ref fi) s)
      (\<lambda>x c. P x ((leave c s)\<lparr>fs_objects := (fs_objects s)(fh := intrusive_ptr_release (c_fi c))\<rparr>))"
  by (auto simp: returns_def with_handle_def split: prod.split)

lemma returns_detach [wp_simps]:
  "returns (detach fi) s P = P (fs_fresh s) (s\<lparr>fs_objects := (fs_objects s)(fs_fresh s \<mapsto> fi), fs_fresh := Suc (fs_fresh s)\<rparr>)"
  by (simp add: returns_def detach_def)

lemma enter_sel [simp]:
  "c_db (enter fi s) = fs_db s" "c_fi (enter fi s) = fi" "c_disk (enter fi s) = fs_disk s"
  "c_cache (enter fi s) = fs_cache s" "c_next (enter fi s) = fs_next s" "c_now (enter fi s) = fs_now s"
  by (simp_all add: enter_def)

lemma leave_sel [simp]:
  "fs_db (leave c s) = c_db c" "fs_objects (leave c s) = fs_objects s" "fs_cache (leave c s) = c_cache c"
  "fs_disk (leave c s) = c_disk c" "fs_instance (leave c s) = fs_instance s" "fs_fresh (leave c s) = fs_fresh s"
  "fs_now (leave c s) = fs_now s"
  by (simp_all add: leave_def)

text \<open>The store does not depend on which handle looks at it.\<close>

definition fs_consistent :: "('fm, 'sm) env \<Rightarrow> ('fm, 'sm) fs \<Rightarrow> bool" where
  "fs_consistent E s \<longleftrightarrow> consistent E (enter (no_file E) s)"

lemma content_same:
  assumes "t_blocks (tabs c') = t_blocks (tabs c)" and "t_hashes (tabs c') = t_hashes (tabs c)"
    and "db_script (c_db c') = db_script (c_db c)" and "db_saved (c_db c') = db_saved (c_db c)"
    and "c_cache c' = c_cache c" and "c_disk c' = c_disk c"
  shows "consistent E c' = consistent E c" "stored E c' = stored E c" "byte_at E c' = byte_at E c"
    "file_bytes E c' = file_bytes E c" "contents E c' = contents E c" "file_block (tabs c') = file_block (tabs c)"
proof -
  have c: "cached E c' = cached E c" using assms(5) by (simp add: cached_def fun_eq_iff)
  have sd: "sdata E c' = sdata E c" using assms(6) c by (simp add: sdata_def fun_eq_iff split: option.split)
  have wf: "wf_rows (tabs c') = wf_rows (tabs c)" "counted (tabs c') = counted (tabs c)"
    using assms by (simp_all add: wf_rows_def counted_def refs_def)
  show fb: "file_block (tabs c') = file_block (tabs c)" using assms by (simp add: file_block_def fun_eq_iff)
  have sel: "stSelectBlockHash h (tabs c') = stSelectBlockHash h (tabs c)" for h
    using assms by (simp add: stSelectBlockHash_def)
  show "consistent E c' = consistent E c" using assms c sd wf by (simp add: consistent_def cache_ok_def)
  show st: "stored E c' = stored E c" using sd fb sel by (simp add: stored_def fun_eq_iff split: option.split)
  show b: "byte_at E c' = byte_at E c" using st by (simp add: byte_at_def fun_eq_iff)
  show "file_bytes E c' = file_bytes E c" using b by (simp add: file_bytes_def fun_eq_iff)
  show "contents E c' = contents E c" using assms sd by (simp add: contents_def)
qed

lemma consistent_enter: "consistent E (enter fi s) = fs_consistent E s"
  unfolding fs_consistent_def by (rule content_same(1)) simp_all

definition fs_stored :: "('fm, 'sm) env \<Rightarrow> ('fm, 'sm) fs \<Rightarrow> int \<Rightarrow> int \<Rightarrow> byte list" where
  "fs_stored E s = stored E (enter (no_file E) s)"

lemma stored_enter: "stored E (enter fi s) = fs_stored E s"
  unfolding fs_stored_def by (rule content_same(2)) simp_all

lemma fs_leave:
  "fs_consistent E (leave c s) = consistent E c" "fs_stored E (leave c s) = stored E c"
  unfolding fs_consistent_def fs_stored_def by (rule content_same; simp)+

lemma fs_objects_update [simp]:
  "fs_consistent E (s\<lparr>fs_objects := ob\<rparr>) = fs_consistent E s" "fs_stored E (s\<lparr>fs_objects := ob\<rparr>) = fs_stored E s"
  "fs_consistent E (s\<lparr>fs_fresh := n\<rparr>) = fs_consistent E s" "fs_stored E (s\<lparr>fs_fresh := n\<rparr>) = fs_stored E s"
  by (simp_all add: fs_consistent_def fs_stored_def enter_def)

subsection \<open>Handlers on a consistent store\<close>

lemma fs_consistentD:
  assumes "fs_consistent E s"
  shows "db_script (fs_db s) = []" "db_saved (fs_db s) = None"
  using consistentD[of E "enter (no_file E) s"] assms by (simp_all add: fs_consistent_def)

lemma path_row:
  assumes "stGetByPath p T = Some r"
  shows "r \<in> set (t_files T)" "fr_path r = p"
  using assms by (auto simp: stGetByPath_def dest: find_Some_set)

text \<open>A new handle of a file knows nothing yet, so it is coherent with every store.\<close>

context dedup_env
begin

lemma new_handle:
  "fblock_at E (enter (file_of E p (Some r)) s) n = None" "coherent E (enter (file_of E p (Some r)) s) n"
  "ino (enter (file_of E p (Some r)) s) = fr_id r" "fsize (enter (file_of E p (Some r)) s) = fr_size r"
  by (simp_all add: fblock_at_def file_of_def coherent_def fb.cds_simps stat_of_def)

lemma new_handle_ref:
  "coherent E (enter (intrusive_ptr_add_ref fi) s) n = coherent E (enter fi s) n"
  "fblock_at E (enter (intrusive_ptr_add_ref fi) s) = fblock_at E (enter fi s)"
  by (simp_all add: intrusive_ptr_add_ref_def fblock_at_def coherent_def knows_def cached_def fun_eq_iff cong: option.case_cong)

text \<open>Reading through a new handle.\<close>

lemma open_read_ok:
  assumes c: "fs_consistent E s" and r: "stGetByPath p (db_tabs (fs_db s)) = Some r" "S_ISREG (fr_mode r)" "fr_id r \<noteq> 0"
    and off: "0 \<le> off" "off \<le> fr_size r" and sz: "0 \<le> sz" "sz < 2 ^ 31" and dbs: "e_db_block_size E \<le> block_size E"
  shows "returns (Open E p) s (\<lambda>(res, fh) u. res = 0 \<and> fh = Some (fs_fresh s) \<and> fs_instance u = fs_instance s
    \<and> returns (Read E (fs_fresh s) sz off) u (\<lambda>(cnt, buf) t.
        cnt = min sz (fr_size r - off) \<and> buf = file_bytes E (enter (no_file E) s) (fr_id r) off cnt))"
proof -
  let ?fi = "file_of E p (Some r)" and ?n = "drop_bit (e_bits E) off"
  let ?s = "s\<lparr>fs_objects := (fs_objects s)(fs_fresh s \<mapsto> ?fi), fs_fresh := Suc (fs_fresh s)\<rparr>"
  let ?c = "enter (intrusive_ptr_add_ref ?fi) ?s"
  have c': "consistent E ?c" using c by (simp add: consistent_enter)
  have i: "ino ?c = fr_id r" "fsize ?c = fr_size r"
    by (simp_all add: intrusive_ptr_add_ref_def file_of_def stat_of_def)
  have "loadable E ?c n" if n: "?n \<le> n" "n = ?n \<or> n * block_size E < fsize ?c" for n
  proof -
    have "0 \<le> n" using n(1) off(1) by (metis drop_bit_nonnegative_int_iff order_trans)
    moreover have "?n * block_size E \<le> fsize ?c"
      using block_join[of off] take_bit_bound(1)[of off] off(2) i(2) by linarith
    with n(2) have "n * block_size E \<le> fsize ?c" by auto
    ultimately show ?thesis using mult_left_mono[OF dbs, of n] by (simp add: loadable_def)
  qed
  moreover have "coherent E ?c n" for n by (simp add: new_handle_ref new_handle)
  ultimately have "returns (readBuf E sz off) ?c (\<lambda>(cnt, buf) t. seen E ?c t
      \<and> cnt = min sz (fr_size r - off) \<and> buf = file_bytes E ?c (fr_id r) off cnt)"
    using readBuf_ok[OF c' off(1) _ sz(1)] off(2) i by simp
  moreover have "int32 (min sz (fr_size r - off)) = min sz (fr_size r - off)"
    using off sz by (intro int32_id) auto
  moreover have "file_bytes E ?c = file_bytes E (enter (no_file E) s)" by (rule content_same(4)) simp_all
  ultimately have "returns (Read E (fs_fresh s) sz off) ?s (\<lambda>(cnt, buf) t.
      cnt = min sz (fr_size r - off) \<and> buf = file_bytes E (enter (no_file E) s) (fr_id r) off cnt)"
    by (auto simp: Read_def wp_simps returns_with_handle elim!: returns_weaken)
  then show ?thesis
    using r by (simp add: Open_def wp_simps fs_consistentD[OF c])
qed

end

definition fs_bytes :: "('fm, 'sm) env \<Rightarrow> ('fm, 'sm) fs \<Rightarrow> int \<Rightarrow> int \<Rightarrow> int \<Rightarrow> byte list" where
  "fs_bytes E s = file_bytes E (enter (no_file E) s)"

definition fs_byte :: "('fm, 'sm) env \<Rightarrow> ('fm, 'sm) fs \<Rightarrow> int \<Rightarrow> int \<Rightarrow> byte" where
  "fs_byte E s = byte_at E (enter (no_file E) s)"

lemma add_ref_sel [simp]:
  "fi_st (intrusive_ptr_add_ref fi) = fi_st fi" "fi_name (intrusive_ptr_add_ref fi) = fi_name fi"
  "fi_depth (intrusive_ptr_add_ref fi) = fi_depth fi" "fi_blocks (intrusive_ptr_add_ref fi) = fi_blocks fi"
  by (simp_all add: intrusive_ptr_add_ref_def)

lemma fs_byte_enter: "byte_at E (enter fi s) = fs_byte E s"
  unfolding fs_byte_def by (rule content_same(3)) simp_all

lemma fs_sdata: "sdata E (enter fi s) = sdata E (enter (no_file E) s)"
  by (simp add: sdata_def cached_def fun_eq_iff split: option.split)

lemma fs_byte_leave: "fs_byte E ((leave c s)\<lparr>fs_objects := ob\<rparr>) = byte_at E c"
  unfolding fs_byte_def by (rule content_same(3)) simp_all

lemma fs_bytes_eq: "fs_bytes E s f off len = map (fs_byte E s f) [off..off + len - 1]"
  by (simp add: fs_bytes_def fs_byte_def file_bytes_def)

lemma map_nth_upto: "map (\<lambda>i. buf ! nat (i - off)) [off..off + int (length buf) - 1] = buf"
  by (rule nth_equalityI) simp_all

text \<open>The row of a path after the size of a file was set.\<close>

lemma find_resized:
  assumes "stGetByPath p T = Some r" and "distinct (map fr_id (t_files T))"
  shows "stGetByPath p (stUpdateFileSize n (fr_id r) T) = Some (r\<lparr>fr_size := n\<rparr>)"
proof -
  let ?g = "\<lambda>x. if fr_id x = fr_id r then x\<lparr>fr_size := n\<rparr> else x"
  have "find (\<lambda>x. fr_path x = p) (map ?g rs) = map_option ?g (find (\<lambda>x. fr_path x = p) rs)" for rs :: "file_row list"
    by (induction rs) auto
  with assms(1) show ?thesis by (simp add: stGetByPath_def stUpdateFileSize_def)
qed

context dedup_env
begin

text \<open>Writing through a handle, at the level of the daemon.\<close>

lemma Write_ok:
  assumes c: "fs_consistent E s" and fh: "fs_objects s fh = Some fi" "fi_refcount fi = 1"
    and coh: "\<And>m. coherent E (enter fi s) m" and dbs: "e_db_block_size E \<le> block_size E"
    and off: "0 \<le> off" and len: "0 < length buf" "length buf < 2 ^ 31"
    and w: "writable E (enter fi s) (new_block E (enter fi s) buf off) (drop_bit (e_bits E) off) (last_block E off (int (length buf)))"
  shows "returns (Write E fh buf (int (length buf)) off) s (\<lambda>cnt t. cnt = int (length buf) \<and> fs_consistent E t
    \<and> fs_instance t = fs_instance s
    \<and> t_files (db_tabs (fs_db t)) = t_files (if off + int (length buf) > st_size (fi_st fi)
        then stUpdateFileSize (off + int (length buf)) (fi_ino fi) (db_tabs (fs_db s)) else db_tabs (fs_db s))
    \<and> (\<forall>g i. fs_byte E t g i =
         (if g = fi_ino fi \<and> off \<le> i \<and> i < off + int (length buf) then buf ! nat (i - off) else fs_byte E s g i)))"
proof -
  let ?c = "enter (intrusive_ptr_add_ref fi) s" and ?len = "int (length buf)"
  have c': "consistent E ?c" using c by (simp add: consistent_enter)
  have i: "ino ?c = fi_ino fi" "fsize ?c = st_size (fi_st fi)" by (simp_all add: intrusive_ptr_add_ref_def)
  have coh': "coherent E ?c m" for m using coh by (simp add: new_handle_ref)
  have same: "new_block E ?c buf off = new_block E (enter fi s) buf off" "contents E ?c = contents E (enter fi s)"
      "stored E ?c = stored E (enter fi s)" "tabs ?c = tabs (enter fi s)"
    using i(1) by (simp_all add: new_block_def fun_eq_iff contents_def fs_sdata[of E fi] fs_sdata[of E "intrusive_ptr_add_ref fi"] file_bytes_def fs_byte_enter stored_enter)
  have w': "writable E ?c (new_block E ?c buf off) (drop_bit (e_bits E) off) (last_block E off ?len)"
    using w unfolding writable_def same i by simp
  have "returns (writeBuf E buf ?len off) ?c (\<lambda>cnt t. cnt = ?len \<and> wrote_range E (grown (off + ?len) ?c)
      (drop_bit (e_bits E) off) (last_block E off ?len) (new_block E ?c buf off) t)"
    by (rule writeBuf_ok[OF c' len(1) off dbs coh' w'])
  then have "returns (writeBuf E buf ?len off) ?c (\<lambda>cnt t. cnt = ?len \<and> consistent E t
      \<and> t_files (tabs t) = t_files (tabs (grown (off + ?len) ?c))
      \<and> (\<forall>g i. byte_at E t g i = (if g = fi_ino fi \<and> off \<le> i \<and> i < off + ?len then buf ! nat (i - off) else fs_byte E s g i)))"
  proof (rule returns_weaken, elim conjE)
    fix cnt t assume cnt: "cnt = ?len"
      and W: "wrote_range E (grown (off + ?len) ?c) (drop_bit (e_bits E) off) (last_block E off ?len) (new_block E ?c buf off) t"
    then have "stored E t g m = (if g = ino ?c \<and> drop_bit (e_bits E) off \<le> m \<and> m \<le> last_block E off ?len
        then new_block E ?c buf off m else stored E ?c g m)" for g m
      unfolding wrote_range_def grown_sel by blast
    from byte_at_new_block[OF this len(1)] W cnt
    show "cnt = ?len \<and> consistent E t \<and> t_files (tabs t) = t_files (tabs (grown (off + ?len) ?c))
      \<and> (\<forall>g i. byte_at E t g i = (if g = fi_ino fi \<and> off \<le> i \<and> i < off + ?len then buf ! nat (i - off) else fs_byte E s g i))"
      by (simp add: wrote_range_def i fs_byte_enter)
  qed
  moreover have "t_files (tabs (grown (off + ?len) ?c)) = t_files (if off + ?len > st_size (fi_st fi)
        then stUpdateFileSize (off + ?len) (fi_ino fi) (db_tabs (fs_db s)) else db_tabs (fs_db s))"
    by (simp add: grown_def intrusive_ptr_add_ref_def)
  moreover have "int32 ?len = ?len" using len by (intro int32_id) auto
  ultimately show ?thesis
    by (simp add: Write_def wp_simps returns_with_handle[where P = P for P, OF fh(1)] fs_leave fs_byte_leave)
       (auto elim!: returns_weaken split: if_splits)
qed

end

definition write_open_read :: "('fm, 'sm) env \<Rightarrow> nat \<Rightarrow> string \<Rightarrow> byte list \<Rightarrow> int \<Rightarrow> (('fm, 'sm) fs, int \<times> int \<times> byte list) comp" where
  "write_open_read E fh p buf off =
    bnd (wrap_write E fh buf (int (length buf)) off) (\<lambda>n.
    bnd (wrap_open E p) (\<lambda>(res, h).
    bnd (wrap_read E (the h) (int (length buf)) off) (\<lambda>(cnt, bytes).
    ret (n, cnt, bytes))))"

context dedup_env
begin

lemma write_open_read_ok:
  assumes c: "fs_consistent E s" and inst: "fs_instance s" and fh: "fs_objects s fh = Some fi" "fi_refcount fi = 1"
    and coh: "\<And>m. coherent E (enter fi s) m" and dbs: "e_db_block_size E \<le> block_size E"
    and off: "0 \<le> off" and len: "0 < length buf" "length buf < 2 ^ 31"
    and w: "writable E (enter fi s) (new_block E (enter fi s) buf off) (drop_bit (e_bits E) off) (last_block E off (int (length buf)))"
    and r: "stGetByPath p (db_tabs (fs_db s)) = Some r" "S_ISREG (fr_mode r)" "fr_id r \<noteq> 0" "fr_id r = fi_ino fi"
      "fr_size r = st_size (fi_st fi)" and dist: "distinct (map fr_id (t_files (db_tabs (fs_db s))))"
  shows "returns (write_open_read E fh p buf off) s (\<lambda>(n, cnt, bytes) t. n = int (length buf) \<and> cnt = int (length buf) \<and> bytes = buf)"
proof -
  let ?len = "int (length buf)"
  have "returns (wrap_write E fh buf ?len off) s (\<lambda>n t. n = ?len \<and>
      returns (wrap_open E p) t (\<lambda>(res, h) u.
        returns (wrap_read E (the h) ?len off) u (\<lambda>(cnt, bytes) v. cnt = ?len \<and> bytes = buf)))"
    unfolding wrap_write_def
  proof (rule wrap_ready[OF inst], rule returns_weaken[OF Write_ok[OF c fh coh dbs off len w]], elim conjE, intro conjI)
    fix n t
    assume t: "fs_consistent E t" "fs_instance t = fs_instance s"
      and rows: "t_files (db_tabs (fs_db t)) = t_files (if off + ?len > st_size (fi_st fi)
        then stUpdateFileSize (off + ?len) (fi_ino fi) (db_tabs (fs_db s)) else db_tabs (fs_db s))"
      and bytes: "\<forall>g i. fs_byte E t g i =
         (if g = fi_ino fi \<and> off \<le> i \<and> i < off + ?len then buf ! nat (i - off) else fs_byte E s g i)"
    obtain r' where r': "stGetByPath p (db_tabs (fs_db t)) = Some r'" "fr_mode r' = fr_mode r" "fr_id r' = fr_id r"
        "fr_size r' = max (off + ?len) (fr_size r)"
    proof (cases "off + ?len > st_size (fi_st fi)")
      case True
      with rows r(4) have "stGetByPath p (db_tabs (fs_db t)) = stGetByPath p (stUpdateFileSize (off + ?len) (fr_id r) (db_tabs (fs_db s)))"
        by (simp add: stGetByPath_def)
      with find_resized[OF r(1) dist] True r(5) that[of "r\<lparr>fr_size := off + ?len\<rparr>"] show thesis by simp
    next
      case False
      with rows r that[of r] show thesis by (simp add: stGetByPath_def)
    qed
    have buf: "file_bytes E (enter (no_file E) t) (fr_id r') off ?len = buf"
    proof -
      have "fs_bytes E t (fi_ino fi) off ?len = map (\<lambda>i. buf ! nat (i - off)) [off..off + ?len - 1]"
        unfolding fs_bytes_eq by (rule map_cong) (simp_all add: bytes)
      with map_nth_upto[of buf off] r(4) r'(3) show ?thesis by (simp add: fs_bytes_def)
    qed
    have reg: "S_ISREG (fr_mode r')" "fr_id r' \<noteq> 0" using r r' by simp_all
    have bounds: "off \<le> fr_size r'" "0 \<le> ?len" "?len < 2 ^ 31" "min ?len (fr_size r' - off) = ?len" using r'(4) len by auto
    show "returns (wrap_open E p) t (\<lambda>(res, h) u.
        returns (wrap_read E (the h) ?len off) u (\<lambda>(cnt, bytes) v. cnt = ?len \<and> bytes = buf))"
      unfolding wrap_open_def
      using open_read_ok[OF t(1) r'(1) reg off bounds(1-3) dbs] t(2) inst bounds(4) buf
      by (intro wrap_ready) (auto simp: wrap_read_def intro!: wrap_ready elim!: returns_weaken)
  qed
  then show ?thesis unfolding write_open_read_def
    by (auto simp: wp_simps case_prod_beta elim!: returns_weaken)
qed

end

lemma delete_file_rows [simp]:
  "wf_rows (stDeleteFile p T) = wf_rows T" "counted (stDeleteFile p T) = counted T"
  "file_block (stDeleteFile p T) = file_block T" "stSelectBlockHash h (stDeleteFile p T) = stSelectBlockHash h T"
  "t_hashes (stDeleteFile p T) = t_hashes T" "t_blocks (stDeleteFile p T) = t_blocks T"
  by (simp_all add: stDeleteFile_def wf_rows_def counted_def refs_def file_block_def stSelectBlockHash_def fun_eq_iff)

lemma deleted_path [simp]: "stGetByPath p (stDeleteFile p T) = None"
  by (simp add: stGetByPath_def stDeleteFile_def find_None_iff)

context dedup_env
begin

lemma Unlink_ok:
  assumes c: "fs_consistent E s" and dbs: "e_db_block_size E \<le> block_size E"
    and r: "stGetByPath p (db_tabs (fs_db s)) = Some r" "\<not> S_ISDIR (fr_mode r)" "fr_id r \<noteq> 0"
    and full: "\<And>k. 0 \<le> k * block_size E \<Longrightarrow> k * block_size E < fr_size r \<Longrightarrow> file_block (db_tabs (fs_db s)) (fr_id r) k \<noteq> None"
  shows "returns (Unlink E p) s (\<lambda>x t. x = 0 \<and> fs_consistent E t
    \<and> stGetByPath p (db_tabs (fs_db t)) = None
    \<and> (\<forall>g n. g \<noteq> fr_id r \<longrightarrow> fs_stored E t g n = fs_stored E s g n)
    \<and> (\<forall>n. 0 \<le> n * block_size E \<longrightarrow> n * block_size E < fr_size r \<longrightarrow> file_block (db_tabs (fs_db t)) (fr_id r) n = None))"
proof -
  let ?fi = "file_of E p (Some r)"
  let ?c = "enter ?fi s"
  have c': "consistent E ?c" using c by (simp add: consistent_enter)
  note i = new_handle(3,4)[of p r s]
  have i': "fi_ino ?fi = fr_id r" "st_size (fi_st ?fi) = fr_size r" by (simp_all add: file_of_def stat_of_def)
  have "returns (Blocks_Cache.truncate E 0) ?c (\<lambda>x t. x = 0 \<and> consistent E t
    \<and> (\<forall>g m. file_block (tabs t) g m =
        (if g = fr_id r \<and> 0 \<le> m * block_size E \<and> m * block_size E < fr_size r then None else file_block (tabs ?c) g m))
    \<and> (\<forall>g m. stored E t g m =
        (if g = fr_id r \<and> 0 \<le> m * block_size E \<and> m * block_size E < fr_size r then zeros (block_size E) else stored E ?c g m)))"
    using truncate_ok[OF c' _ new_handle(2) dbs, of 0] full i by (auto elim!: returns_weaken)
  then have "returns (Blocks_Cache.truncate E 0) ?c (\<lambda>x t. x = 0 \<and> returns (remove p) (c_db t) (\<lambda>y d. y = 0
      \<and> fs_consistent E ((leave t s)\<lparr>fs_db := d\<rparr>) \<and> stGetByPath p (db_tabs d) = None
      \<and> (\<forall>g n. g \<noteq> fr_id r \<longrightarrow> fs_stored E ((leave t s)\<lparr>fs_db := d\<rparr>) g n = fs_stored E s g n)
      \<and> (\<forall>n. 0 \<le> n * block_size E \<longrightarrow> n * block_size E < fr_size r \<longrightarrow> file_block (db_tabs d) (fr_id r) n = None)))"
  proof (rule returns_weaken, elim conjE, intro conjI)
    fix x t
    assume t: "consistent E t"
      and fb: "\<forall>g m. file_block (tabs t) g m =
        (if g = fr_id r \<and> 0 \<le> m * block_size E \<and> m * block_size E < fr_size r then None else file_block (tabs ?c) g m)"
      and st: "\<forall>g m. stored E t g m =
        (if g = fr_id r \<and> 0 \<le> m * block_size E \<and> m * block_size E < fr_size r then zeros (block_size E) else stored E ?c g m)"
    let ?d = "(c_db t)\<lparr>db_tabs := stDeleteFile p (tabs t)\<rparr>"
    have *: "fs_consistent E ((leave t s)\<lparr>fs_db := ?d\<rparr>) = consistent E t" "fs_stored E ((leave t s)\<lparr>fs_db := ?d\<rparr>) = stored E t"
      unfolding fs_consistent_def fs_stored_def by (rule content_same; simp)+
    note st' = st[unfolded stored_enter]
    show "returns (remove p) (c_db t) (\<lambda>y d. y = 0
      \<and> fs_consistent E ((leave t s)\<lparr>fs_db := d\<rparr>) \<and> stGetByPath p (db_tabs d) = None
      \<and> (\<forall>g n. g \<noteq> fr_id r \<longrightarrow> fs_stored E ((leave t s)\<lparr>fs_db := d\<rparr>) g n = fs_stored E s g n)
      \<and> (\<forall>n. 0 \<le> n * block_size E \<longrightarrow> n * block_size E < fr_size r \<longrightarrow> file_block (db_tabs d) (fr_id r) n = None))"
      using t fb st' * by (simp add: remove_def wp_simps consistentD[OF t])
  qed simp
  then show ?thesis
    using r by (simp add: Unlink_def wp_simps fs_consistentD[OF c] i') (auto elim!: returns_weaken)
qed

end

subsection \<open>A write that fails\<close>

text \<open>The handle's item of a hole, and a write into that block whose first statement fails.\<close>

lemma exec_script_fail: "db_script d = Some e # rest \<Longrightarrow> transactionBegin d = (Exn e, d\<lparr>db_script := rest\<rparr>)"
  unfolding transactionBegin_def by (rule exec_fail)

definition inside_block :: "('fm, 'sm) env \<Rightarrow> int \<Rightarrow> int \<Rightarrow> bool" where
  "inside_block E off len \<longleftrightarrow> 0 \<le> off \<and> 0 < len \<and> take_bit (e_bits E) off + len \<le> block_size E"

definition hole_item :: "('fm, 'sm) env \<Rightarrow> ('fm, 'sm) cstate \<Rightarrow> int \<Rightarrow> bool" where
  "hole_item E c n \<longleftrightarrow> (\<exists>b. fblock_at E c n = Some b \<and> \<not> bi_locked b \<and> bi_empty b \<and> bi_sblock b = None)"

context dedup_env
begin

lemma writeBlockWrapper_fails:
  assumes h: "hole_item E c n" and sc: "db_script (c_db c) = Some e # rest"
    and len: "0 \<le> chunk" "0 \<le> so" "so + chunk \<le> block_size E" "chunk \<le> int (length buf)"
  shows "\<exists>t b. writeBlockWrapper E buf n chunk so c = (Exn e, t) \<and> fblock_at E t n = Some b \<and> bi_locked b
    \<and> fi_st (c_fi t) = fi_st (c_fi c) \<and> fi_refcount (c_fi t) = fi_refcount (c_fi c)"
proof -
  from h obtain b where b: "fblock_at E c n = Some b" "\<not> bi_locked b" "bi_empty b" "bi_sblock b = None"
    by (auto simp: hole_item_def)
  let ?c = "put_fblock E n (b\<lparr>bi_locked := True\<rparr>) c"
  have lock: "getLockedFileBlock E n c = (Ok (), ?c)"
    using b by (simp add: getLockedFileBlock_def ensure_fblock_def deref_fblock_def run_simps)
  have len': "int (length (zeros (block_size E))) = block_size E" using block_size_pos by simp
  have tx: "on_db transactionBegin ?c = (Exn e, ?c\<lparr>c_db := (c_db c)\<lparr>db_script := rest\<rparr>\<rparr>)"
    using sc by (simp add: on_db_def run_simps exec_script_fail)
  have "writeBlockWrapper E buf n chunk so c = (Exn e, ?c\<lparr>c_db := (c_db c)\<lparr>db_script := rest\<rparr>\<rparr>)"
    using b len len' by (simp add: writeBlockWrapper_def run_simps lock deref_fblock_def lock_weak_def memcpy_into_def
      writeBlock_def Let_def replaceStorageBlock_def tx)
  then show ?thesis by (simp add: put_fblock_def fblock_at_def fb.cds_simps)
qed

lemma locked_deadlock:
  assumes "fblock_at E c n = Some b" and "bi_locked b"
  shows "writeBlockWrapper E buf n chunk so c = (Halt Deadlock, c)" "read_chunk E n o0 k c = (Halt Deadlock, c)"
  using assms by (simp_all add: writeBlockWrapper_def read_chunk_def getStorageBlock_def getLockedFileBlock_def ensure_fblock_def run_simps)

lemma inside_block_chunk:
  assumes "inside_block E off len"
  shows "int32 (off - push_bit (e_bits E) (drop_bit (e_bits E) off)) = take_bit (e_bits E) off"
    "int32 (min len (block_size E - take_bit (e_bits E) off)) = len"
proof -
  have "off - push_bit (e_bits E) (drop_bit (e_bits E) off) = take_bit (e_bits E) off"
    using block_join[of off] by (simp add: shiftl_mult block_size_eq)
  moreover have "int32 (take_bit (e_bits E) off) = take_bit (e_bits E) off"
    using take_bit_bound[of off] by (intro int32_small) auto
  ultimately show "int32 (off - push_bit (e_bits E) (drop_bit (e_bits E) off)) = take_bit (e_bits E) off" by simp
  have len: "0 \<le> len" "take_bit (e_bits E) off + len \<le> block_size E" using assms by (simp_all add: inside_block_def)
  then have "min len (block_size E - take_bit (e_bits E) off) = len" by linarith
  moreover have "len \<le> block_size E" using len(2) take_bit_bound(1)[of off] by linarith
  ultimately show "int32 (min len (block_size E - take_bit (e_bits E) off)) = len" using int32_small len(1) by simp
qed

lemma writeBuf_fails:
  assumes h: "hole_item E c (drop_bit (e_bits E) off)" and sc: "db_script (c_db c) = Some e # rest"
    and ins: "inside_block E off (int (length buf))" and sz: "off + int (length buf) \<le> fsize c"
  shows "\<exists>t b. writeBuf E buf (int (length buf)) off c = (Exn e, t) \<and> fblock_at E t (drop_bit (e_bits E) off) = Some b \<and> bi_locked b
    \<and> fi_st (c_fi t) = fi_st (c_fi c) \<and> fi_refcount (c_fi t) = fi_refcount (c_fi c)"
proof -
  have "0 \<le> int (length buf)" "0 \<le> take_bit (e_bits E) off" "take_bit (e_bits E) off + int (length buf) \<le> block_size E"
    "int (length buf) \<le> int (length buf)" using ins by (simp_all add: inside_block_def)
  from writeBlockWrapper_fails[OF h sc this] obtain t b where
    "writeBlockWrapper E buf (drop_bit (e_bits E) off) (int (length buf)) (take_bit (e_bits E) off) c = (Exn e, t)"
    "fblock_at E t (drop_bit (e_bits E) off) = Some b" "bi_locked b"
    "fi_st (c_fi t) = fi_st (c_fi c)" "fi_refcount (c_fi t) = fi_refcount (c_fi c)" by blast
  moreover from sz have "\<not> int (length buf) + off > fsize c" by simp
  ultimately show ?thesis by (simp add: writeBuf_def run_simps Let_def inside_block_chunk[OF ins])
qed

lemma writeBuf_deadlock:
  assumes "fblock_at E c (drop_bit (e_bits E) off) = Some b" and "bi_locked b" and "len + off \<le> fsize c"
  shows "writeBuf E buf len off c = (Halt Deadlock, c)"
  using assms by (simp add: writeBuf_def run_simps Let_def locked_deadlock(1))

lemma readBuf_deadlock:
  assumes "fblock_at E c (drop_bit (e_bits E) off) = Some b" and "bi_locked b"
  shows "readBuf E len off c = (Halt Deadlock, c)"
  using assms by (simp add: readBuf_def run_simps Let_def locked_deadlock(2))

end

subsection \<open>A demonstration state\<close>

definition fs_demo :: "((int, block_info) RBT.rbt, (int, storage_block) RBT.rbt) fs" where
  "fs_demo = \<lparr>fs_db = init_db (tabs content_state\<lparr>t_files := [demo_row 1 ''/'' 0 S_IFDIR, demo_row 5 ''/b'' 1 S_IFDIR,
       (demo_row 7 ''/a'' 1 S_IFREG)\<lparr>fr_size := 20\<rparr>]\<rparr>),
     fs_cache = RBT.empty, fs_disk = replicate 16 0 @ demo_data, fs_next = 0, fs_now = 0,
     fs_objects = [1 \<mapsto> file_of (std_env 4) ''/a'' (Some ((demo_row 7 ''/a'' 1 S_IFREG)\<lparr>fr_size := 20\<rparr>))],
     fs_fresh = 2, fs_instance = True, fs_triggered = False\<rparr>"

lemma fs_demo_sel [simp]:
  "fs_instance fs_demo" "db_script (fs_db fs_demo) = []" "db_saved (fs_db fs_demo) = None"
  "fs_objects fs_demo 1 = Some (file_of (std_env 4) ''/a'' (Some ((demo_row 7 ''/a'' 1 S_IFREG)\<lparr>fr_size := 20\<rparr>)))"
  "t_files (db_tabs (fs_db fs_demo)) = [demo_row 1 ''/'' 0 S_IFDIR, demo_row 5 ''/b'' 1 S_IFDIR, (demo_row 7 ''/a'' 1 S_IFREG)\<lparr>fr_size := 20\<rparr>]"
  by (simp_all add: fs_demo_def init_db_def)

lemma fs_demo_content:
  "consistent (std_env 4) (enter fi fs_demo) = consistent (std_env 4) content_state"
  "stored (std_env 4) (enter fi fs_demo) = stored (std_env 4) content_state"
  "contents (std_env 4) (enter fi fs_demo) = contents (std_env 4) content_state"
  "file_block (tabs (enter fi fs_demo)) = file_block (tabs content_state)"
  by (rule content_same; simp add: fs_demo_def init_db_def content_state_def)+

lemma fs_demo_consistent: "fs_consistent (std_env 4) fs_demo"
  using content_consistent fs_demo_content(1) by (simp add: fs_consistent_def)

lemma Rmdir_ok:
  assumes "fuse_env E" and "tree_ok E (db_tabs (fs_db s))" and "paths_ok (db_tabs (fs_db s))" and "db_script (fs_db s) = []"
    and r: "stGetByPath p (db_tabs (fs_db s)) = Some r"
  shows "returns (Rmdir E p) s (\<lambda>x t. tree_ok E (db_tabs (fs_db t))
    \<and> (if \<not> S_ISDIR (fr_mode r) then x = - ENOTDIR \<and> t = s
       else if x = 0 then db_tabs (fs_db t) = stDeleteFile p (db_tabs (fs_db s))
         \<and> (\<forall>q\<in>set (t_files (db_tabs (fs_db s))). fr_path q \<noteq> ''/'' \<longrightarrow> e_branch E (fr_path q) \<noteq> p)
       else x = - ENOTEMPTY \<and> t = s))"
proof -
  note row = path_row[OF r]
  have ne: "fr_path r \<noteq> []" using assms(3) row fs_path_nonempty by (auto simp: paths_ok_def)
  have none: "fr_path q \<noteq> ''/'' \<longrightarrow> e_branch E (fr_path q) \<noteq> p"
    if "stSelectChildren (pattern_of p) (fr_depth r + 1) (db_tabs (fs_db s)) = []" "q \<in> set (t_files (db_tabs (fs_db s)))" for q
    using fuse_env.child_selected[OF assms(1-3) that(2) _ row(1)] that(1) row(2) by force
  moreover have "tree_ok E (stDeleteFile p (db_tabs (fs_db s)))"
    if "stSelectChildren (pattern_of p) (fr_depth r + 1) (db_tabs (fs_db s)) = []"
    using none[OF that] row by (intro fuse_env.delete_tree[OF assms(1,2)]) auto
  moreover have "fi_name (file_of E p (Some r)) = p" "fi_depth (file_of E p (Some r)) = fr_depth r" by (simp_all add: file_of_def)
  ultimately show ?thesis
    using assms(2,4) r ne row(2)
    by (auto simp: Rmdir_def wp_simps dirEmpty_def child_pattern_ok remove_def ENOTEMPTY_def)
qed

context dedup_env
begin

lemma failed_write_ok:
  assumes inst: "fs_instance s" and fi: "fs_objects s fh = Some fi" "fi_refcount fi = 1"
    and h: "hole_item E (enter fi s) (drop_bit (e_bits E) off)" and sc: "db_script (fs_db s) = Some e # rest"
    and ins: "inside_block E off (int (length buf))" and sz: "off + int (length buf) \<le> st_size (fi_st fi)"
  obtains t fi' b where "wrap_write E fh buf (int (length buf)) off s = (Ok (- EIO), t)" and "fs_instance t"
    and "fs_objects t fh = Some fi'" and "fi_st fi' = fi_st fi"
    and "fblock_at E (enter (intrusive_ptr_add_ref fi') t) (drop_bit (e_bits E) off) = Some b" and "bi_locked b"
proof -
  let ?c = "enter (intrusive_ptr_add_ref fi) s"
  have "hole_item E ?c (drop_bit (e_bits E) off)" using h by (simp add: hole_item_def new_handle_ref)
  from writeBuf_fails[OF this _ ins, of e rest] sc sz obtain c b where
    c: "writeBuf E buf (int (length buf)) off ?c = (Exn e, c)" "fblock_at E c (drop_bit (e_bits E) off) = Some b" "bi_locked b"
      "fi_st (c_fi c) = fi_st fi" "fi_refcount (c_fi c) = 2"
    using fi(2) by (auto simp: intrusive_ptr_add_ref_def)
  let ?fi = "(c_fi c)\<lparr>fi_refcount := 1\<rparr>"
  let ?t = "(leave c s)\<lparr>fs_objects := (fs_objects s)(fh \<mapsto> ?fi)\<rparr>"
  have rel: "intrusive_ptr_release (c_fi c) = Some ?fi" using c(5) by (simp add: intrusive_ptr_release_def)
  have "Write E fh buf (int (length buf)) off s = (Exn e, ?t)"
    using fi(1) c(1) rel by (simp add: Write_def run_simps with_handle_def)
  then have "wrap_write E fh buf (int (length buf)) off s = (Ok (- EIO), ?t)"
    unfolding wrap_write_def by (rule wrap_error[OF inst])
  moreover have "fblock_at E (enter (intrusive_ptr_add_ref ?fi) ?t) (drop_bit (e_bits E) off) = Some b"
    using c(2) by (simp add: fblock_at_def)
  ultimately show thesis using that[of ?t ?fi b] inst c(3,4) by simp
qed

end

subsection \<open>Properties\<close>


lemma fs_demo_writable:
  "writable (std_env 4) (enter (file_of (std_env 4) ''/a'' (Some ((demo_row 7 ''/a'' 1 S_IFREG)\<lparr>fr_size := 20\<rparr>))) fs_demo)
    (new_block (std_env 4) (enter fi fs_demo) [1, 2, 3] 18) (drop_bit (e_bits (std_env 4)) 18) (last_block (std_env 4) 18 3)"
  for fi
proof -
  have "length (new_block (std_env 4) (enter fi fs_demo) [1, 2, 3] 18 1) = 16"
    using dedup_env.length_new_block[OF dedup_env_std[of 4]] std4_block_size by simp
  moreover have "last_block (std_env 4) 18 3 = 1" by (simp add: last_block_def drop_bit_eq_div)
  moreover have "contents (std_env 4) content_state = {demo_data}" by (simp add: contents_def content_sdata)
  ultimately show ?thesis
    using block_hash_inj_16 demo_length fs_demo_content
    by (auto simp: writable_def inj_on_def drop_bit_eq_div content_file_block)
qed






text \<open>Removing a directory that does not exist never answers -ENOENT: the handler looks at the mode
  of a \<open>file_info\<close> that nobody filled in.  Depending on what that memory holds, the answer is
  -ENOTDIR, or the daemon dereferences the last character of an empty name.\<close>

theorem rmdir_missing:
  assumes "stGetByPath p (db_tabs (fs_db s)) = None" and "db_script (fs_db s) = []"
  shows "Rmdir E p s = (if S_ISDIR (e_garbage E) then (Halt NullDeref, s) else (Ok (- ENOTDIR), s))"
  using assms by (simp add: Rmdir_def fs_on_db_def run_simps getByPath_def sql_query_def exec_ok dirEmpty_def child_pattern_def)

theorem rmdir_missing_witness:
  "Rmdir ((std_env 4)\<lparr>e_garbage := S_IFDIR\<rparr>) ''/nowhere'' fs_demo = (Halt NullDeref, fs_demo)"
  using rmdir_missing[of "''/nowhere''" fs_demo "(std_env 4)\<lparr>e_garbage := S_IFDIR\<rparr>"]
  by (simp add: stGetByPath_def)


definition hole_handle :: "(int, block_info) RBT.rbt file_info" where
  "hole_handle = (file_of (std_env 4) ''/a'' (Some ((demo_row 7 ''/a'' 1 S_IFREG)\<lparr>fr_size := 20\<rparr>)))
     \<lparr>fi_blocks := RBT.insert 1 (new_block_info 1) RBT.empty\<rparr>"


text \<open>\<open>getattr\<close> answers with the attributes of the row of the path, or -ENOENT if there is none,
  and changes nothing; if its statement fails, the answer is -EIO.\<close>

theorem getattr_answer:
  assumes "tree_ok E (db_tabs (fs_db s))" and "fs_instance s"
  shows "wrap_getattr E p s = (case db_script (fs_db s) of
      Some e # rest \<Rightarrow> (Ok (- EIO, None), s\<lparr>fs_db := (fs_db s)\<lparr>db_script := rest\<rparr>\<rparr>)
    | script \<Rightarrow> (Ok (case stGetByPath p (db_tabs (fs_db s)) of None \<Rightarrow> (- ENOENT, None) | Some r \<Rightarrow> (0, Some (stat_of r))),
        s\<lparr>fs_db := (fs_db s)\<lparr>db_script := tl script\<rparr>\<rparr>))"
proof -
  have "fr_id r \<noteq> 0" if "stGetByPath p (db_tabs (fs_db s)) = Some r" for r
    using path_row(1)[OF that] tree_okD(4)[OF assms(1)] by force
  then show ?thesis
    using assms(2)
    by (auto simp: wrap_getattr_def wrap_def Getattr_def DedupFS_Instance_def run_simps fs_on_db_def getByPath_def
      sql_query_def exec_def Let_def stat_of_def split: list.split option.split)
qed

theorem getattr_answer_witness:
  "fst (wrap_getattr (std_env 4) ''/b'' (fs_demo\<lparr>fs_db := init_db demo_tree\<rparr>)) = Ok (0, Some (stat_of (demo_row 5 ''/b'' 1 S_IFDIR)))"
  using getattr_answer[of "std_env 4" "fs_demo\<lparr>fs_db := init_db demo_tree\<rparr>" "''/b''"] demo_tree_ok
  by (simp add: init_db_def stGetByPath_def demo_tree_def)

end
