(* ===== verification/Spec2Isabelle.thy ===== *)
theory Spec2Isabelle
  imports Prelude Murmur3 C_Strings Sha1 Sha1_Standard Sql_Text Sql_Fields Sql_Records Sql_Tables Sql_Stmt Dedup_Types Sql_Store Db_Files Db_Blocks Db_Statements Blocks_Cache Cache_Content Cache_Store Cache_Write Cache_Writer Dedup_Fs Wrap Writer_Thread Start_Up Fs_Invariant Fs_Runs Fs_Content
begin

text \<open>
  wwdedup: a FUSE file system that stores equal blocks of files once.  The names of files and the blocks
  they consist of are rows of an SQLite database; the blocks themselves are in one storage file, cached in
  memory and written back by a thread of their own.

  \<^bold>\<open>The parts of the program and their theories.\<close>  A request enters through the table of operations that
  \<open>main.cpp\<close> fills, runs a handler of \<open>dedupfs.cpp\<close> inside the try block of \<open>wrap.cpp\<close>, which works on the
  rows with \<open>database.cpp\<close> and on the contents with \<open>blockscache.cpp\<close>; both use the shared objects of
  \<open>dedup_types.h\<close>, the hash of \<open>MurmurHash3.cpp\<close> and the SQLite wrapper in \<open>easySQLite\<close>.

  \<^item> \<open>Prelude\<close>: computations.  A C++ function is a state transformer with three kinds of result: a value
    (\<open>Ok\<close>), an exception (\<open>Exn\<close>, with the state it leaves behind), or no defined continuation (\<open>Halt\<close>: undefined
    behaviour, a mutex nobody will unlock, a loop that does not advance).  \<open>returns\<close> is the weakest precondition of
    a normal result, \<open>keeps\<close> says that an invariant survives every result.  Conversions to C integers.
  \<^item> \<open>Murmur3\<close>: the three functions of \<open>MurmurHash3.cpp\<close> on machine words.
  \<^item> \<open>Dedup_Types\<close>: \<open>storage_block\<close>, \<open>block_info\<close>, \<open>file_info\<close> and the reference counts of \<open>dedup_types.h/.cpp\<close>;
    the interfaces of the libraries as locales (\<open>cds\<close>: the concurrent set, \<open>rowids\<close>, \<open>boost_path\<close>), collected in
    \<open>dedup_env\<close> and \<open>fuse_env\<close>, with interpretations on red-black trees and on concrete functions.
  \<^item> \<open>Sql_Store\<close>: the tables of \<open>DataBase::init\<close>, the statements of \<open>prepareStatements\<close> as operations on rows, and a
    connection with transactions whose field \<open>db_script\<close> decides which coming statement fails and how.
  \<^item> \<open>Db_Files\<close>: \<open>getByPath\<close>, \<open>create\<close>, \<open>remove\<close>, \<open>rename\<close>, \<open>utime\<close>, \<open>dirEmpty\<close>, \<open>readdir\<close> of \<open>database.cpp\<close>;
    well-formed trees (\<open>row_ok\<close>).  \<open>Db_Blocks\<close>: \<open>loadFileBlock\<close>, \<open>replaceStorageBlock\<close>, \<open>releaseStorageBlock\<close>,
    \<open>ftruncate\<close>; use counts.  \<open>Db_Statements\<close>: the prepared statements under them, with their texts, bindings and columns,
    on the class \<open>PreparedStmt\<close>; the locale \<open>sqlite_statement\<close> is what SQLite promises of one statement.
  \<^item> \<open>Blocks_Cache\<close>: reading, writing and truncating of \<open>blockscache.cpp\<close> and the signature of the storage file;
    \<open>Cache_Content\<close>, \<open>Cache_Store\<close>, \<open>Cache_Write\<close>: what they do to the contents of files; \<open>Cache_Writer\<close>: the writer thread.
  \<^item> \<open>Writer_Thread\<close>: the loop of that thread with its flags as a state machine, the end of the process, the signature of
    the storage file across rounds, and \<open>fsync\<close>.
  \<^item> \<open>Dedup_Fs\<close>: the handlers of \<open>dedupfs.cpp\<close>; \<open>Wrap\<close>: \<open>wrap.cpp\<close> and the table of operations;
    \<open>Fs_Invariant\<close>, \<open>Fs_Runs\<close>, \<open>Fs_Content\<close>: invariants, runs of the daemon, and contents seen through requests.
  \<^item> \<open>Start_Up\<close>: the arguments in \<open>main.cpp\<close>, the descriptor table of the process, and the objects of each thread
    (\<open>BlocksCache::start\<close>, \<open>stop\<close>, \<open>getThreadInstance\<close>, \<open>DedupFS::Instance\<close> and the destructors); its state \<open>proc\<close>
    holds what \<open>fs\<close> leaves out, \<open>main_prog\<close> is \<open>main\<close> around it, and its runs (\<open>proc_run\<close>) have the threads begin and end.
  \<^item> \<open>C_Strings\<close>: the functions of the C library on strings that \<open>easySQLite\<close> uses.  \<open>Sha1\<close>, \<open>Sha1_Standard\<close>: the
    class \<open>CSHA1\<close> and FIPS 180.  \<open>Sql_Text\<close>: \<open>SqlCommon.cpp\<close>.  \<open>Sql_Fields\<close>: \<open>SqlField.cpp\<close>, \<open>SqlFieldSet.cpp\<close>.
    \<open>Sql_Records\<close>: \<open>SqlValue.cpp\<close>, \<open>SqlRecord.cpp\<close>.  \<open>Sql_Tables\<close>: \<open>SqlRecordSet.cpp\<close>, \<open>SqlTable.cpp\<close>.
    \<open>Sql_Stmt\<close>: \<open>SqlPreparedStmt.cpp\<close>, \<open>SqlDatabase.cpp\<close>.

  \<^bold>\<open>States.\<close>  \<open>sqldb\<close> is a connection (rows, the rows at the start of its transaction, last row id); \<open>cstate\<close> is what
  one call of the cache works on (connection, file handle, cached blocks, storage file, objects made, clock); \<open>fs\<close>
  is the daemon (connection, cache, storage file, the \<open>file_info\<close> objects by address, the flag that wakes the
  writer).  \<open>enter\<close> and \<open>leave\<close> pass between the last two.

  \<^bold>\<open>What the lemmas show.\<close>
  \<^item> The content of block \<open>n\<close> of file \<open>f\<close> is \<open>stored E s f n\<close>: an abstract map that knows nothing of hashes, cached
    blocks and the storage file.  \<open>consistent\<close> relates the rows, the cache and the storage file, \<open>coherent\<close> the
    handle to them.  \<open>readBuf\<close>, \<open>writeBuf\<close>, \<open>truncate\<close> and a round of the writer are shown to be the obvious
    functions on \<open>stored\<close>, whichever of the block's cases the code takes, under the condition \<open>writable\<close> that no collision
    of the hash mixes two blocks.  \<open>Fs_Content\<close> lifts this to requests: what is written is read back.
  \<^item> The use count of a hash is the number of its references; calls that throw leave rows as they were.
  \<^item> The rows of \<open>files\<close> form a tree, kept by \<open>create\<close>, \<open>rename\<close> (under the condition its check misses),
    \<open>remove\<close> of an empty directory.
  \<^item> Runs of the daemon (\<open>fs_run\<close>): any sequence of requests, rounds of the writer, time and failing statements.
    In each reachable state ids and paths are unique and each handle has its reference.
  \<^item> \<open>CSHA1\<close> computes SHA-1 in any pieces; quoting, INSERT statements and definitions are what SQL needs; the types of
    the columns of records are those of the fields of their table.
  \<^item> Where the code does not do what it means to, a theorem states what it does: a failed write leaves a mutex
    locked, a directory can be moved into itself, LIKE moves other rows, the release of a hole dereferences null,
    rewriting a block spoils its use count, eviction can drop a dirty block, \<open>fsync\<close> returns before anything is stored, a thread that ends closes the storage
    file of all, a statement that failed keeps its parameters, a block
    that could not be read becomes zeros, parsed fields lose values.

  \<^bold>\<open>Bounds and fuel.\<close>  \<open>read_loop\<close> and \<open>write_loop\<close> get as many rounds as the
  request has bytes; a round passes at least one byte, so they do not run out.  \<open>run_repeat E n\<close> makes at most \<open>n\<close>
  rounds of the writer; \<open>run_repeat_terminates\<close> gives an \<open>n\<close> that always suffices.  \<open>join\<close> makes the four steps after
  which the writer thread has ended.  \<open>hash_reads\<close> recurses on the
  amounts that \<open>fread\<close> delivers.  \<open>prepare_loop\<close> and \<open>step_loop\<close> retry as long as SQLite answers that it is locked and
  may not end: they are partial functions with an option as result, and \<open>executeUpdate_retries\<close> says when it is \<open>Some\<close>.
  Integers of the code are words, or \<open>int\<close> with \<open>int32\<close> at each conversion; blocks have at most \<open>2 ^ 30\<close> bytes.

  \<^bold>\<open>Parameters.\<close>  Code that is not in the repository: the concurrent set of libcds, row ids SQLite gives, boost's
  paths (\<open>env\<close>, with the laws in the locales); the answers of SQLite to the wrapper (\<open>engine\<close> and \<open>api\<close>, without laws
  except those of \<open>sqlite_statement\<close>);
  \<open>strftime\<close>, \<open>atof\<close> and the printing of doubles (\<open>libc\<close>); the bytes of uninitialised memory (\<open>e_garbage\<close>, \<open>junk\<close>).

  \<^bold>\<open>Not modelled.\<close>  Requests of different threads do not overlap: a handler runs without another in between, except
  that \<open>erase_loop\<close> is separate from \<open>mark_loop\<close>, so that a write may come between.  The set-up of libcds, FUSE and
  SQLite in \<open>main\<close> is calls into libraries.  The regions under \<open>#if 0\<close> and the commented functions are not
  compiled.  Output to the terminal, including the operator that prints a \<open>storage_block\<close>, changes no state.
  Positions in the storage file do not exceed 64 bits.  The rows that \<open>rename\<close> moves are read before the first
  is updated, where the code reads and updates in turn.  Doubles are a type of their own without laws.
  \<open>Sql_Store\<close> takes every prepared statement as reset when it is used; \<open>Db_Statements\<close> shows that this is so until one
  fails, and that after a failure the next use of the same statement has stale parameters, which the theories above
  \<open>Sql_Store\<close> do not follow.
\<close>

end
